(* ===== verification/Prelude.thy ===== *)
theory Prelude
  imports Main "HOL-Library.List_Lexorder" "HOL-Library.Char_ord"
begin

text \<open>
  Shared vocabulary of the development. Go strings and byte slices are byte sequences: both are
  \<^typ>\<open>string\<close>, a list of 8-bit characters, compared bytewise (the lexicographic order of
  \<open>List_Lexorder\<close> over the byte order of \<open>Char_ord\<close> is Go's string order). The theory holds the
  string helpers of the Go standard library that several components call, generic lemmas on lists,
  and the theorem collections the component theories fill.
\<close>

type_synonym byte = char

named_theorems port_simps "unfolding rules of the port operations"
named_theorems err_simps "classification of the errors the components construct"
named_theorems wire_simps "rules that evaluate the wire codecs"

section \<open>Strings\<close>

text \<open>The byte range a Go comparison \<open>lo <= c && c <= hi\<close> describes.\<close>

abbreviation byte_between :: "byte \<Rightarrow> byte \<Rightarrow> byte \<Rightarrow> bool" where
  "byte_between lo hi c \<equiv> lo \<le> c \<and> c \<le> hi"

text \<open>\<open>strings.HasPrefix\<close>.\<close>

definition has_prefix :: "string \<Rightarrow> string \<Rightarrow> bool" where
  "has_prefix s p \<longleftrightarrow> length p \<le> length s \<and> take (length p) s = p"

lemma has_prefix_iff: "has_prefix s p \<longleftrightarrow> (\<exists>t. s = p @ t)"
proof
  assume "has_prefix s p"
  then have "s = p @ drop (length p) s"
    unfolding has_prefix_def by (metis append_take_drop_id)
  then show "\<exists>t. s = p @ t" ..
qed (auto simp: has_prefix_def)

lemma has_prefix_append [simp]: "has_prefix (p @ t) p"
  by (simp add: has_prefix_def)

lemma has_prefix_Nil [simp]: "has_prefix s []"
  by (simp add: has_prefix_def)

lemma has_prefix_Cons [simp]: "has_prefix s (c # p) \<longleftrightarrow> (case s of [] \<Rightarrow> False | d # t \<Rightarrow> d = c \<and> has_prefix t p)"
  by (cases s) (auto simp: has_prefix_def)

text \<open>\<open>strings.IndexByte\<close>: the position of the first occurrence, \<open>None\<close> for Go's -1.\<close>

fun index_byte :: "string \<Rightarrow> byte \<Rightarrow> nat option" where
  "index_byte [] c = None"
| "index_byte (x # xs) c = (if x = c then Some 0 else map_option Suc (index_byte xs c))"

lemma index_byte_None: "index_byte s c = None \<longleftrightarrow> c \<notin> set s"
  by (induction s) auto

lemma index_byte_Some: "c \<notin> set a \<Longrightarrow> index_byte (a @ c # b) c = Some (length a)"
  by (induction a) auto

lemma index_byte_less: "index_byte s c = Some i \<Longrightarrow> i < length s"
  by (induction s arbitrary: i) (auto split: if_splits)

section \<open>Results and optional values\<close>

definition is_ok :: "'e + 'a \<Rightarrow> bool" where
  "is_ok r \<longleftrightarrow> (case r of Inl _ \<Rightarrow> False | Inr _ \<Rightarrow> True)"

lemma is_ok_simps [simp]: "is_ok (Inr x)" "\<not> is_ok (Inl e)"
  by (simp_all add: is_ok_def)

lemma is_ok_iff: "is_ok r \<longleftrightarrow> (\<exists>x. r = Inr x)"
  by (cases r) auto

section \<open>Sorted, deduplicated lists\<close>

text \<open>
  \<open>slices.Sort\<close> on strings is \<^const>\<open>sort\<close> and \<open>slices.Compact\<close> is \<^const>\<open>remdups_adj\<close>; together
  they list the set of the elements in increasing order.
\<close>

lemma strict_sorted_remdups_adj:
  assumes "sorted (xs :: 'a::linorder list)"
  shows "sorted_wrt (<) (remdups_adj xs)"
proof -
  from assms have "sorted (remdups_adj xs)" by (rule sorted_remdups_adj)
  moreover from assms have "distinct (remdups_adj xs)"
    by (induction xs rule: remdups_adj.induct) (auto simp: le_less)
  ultimately show ?thesis by (simp add: strict_sorted_iff)
qed

lemma compact_sort:
  "sorted_wrt (<) (remdups_adj (sort (xs :: 'a::linorder list)))"
  "set (remdups_adj (sort xs)) = set xs"
  by (simp_all add: strict_sorted_remdups_adj)

lemma length_compact_sort: "length (remdups_adj (sort (xs :: 'a::linorder list))) = card (set xs)"
proof -
  have "distinct (remdups_adj (sort xs))"
    using compact_sort(1) [of xs] by (simp add: strict_sorted_iff)
  then have "length (remdups_adj (sort xs)) = card (set (remdups_adj (sort xs)))"
    by (rule distinct_card [symmetric])
  then show ?thesis by simp
qed

lemma sum_list_compact_sort:
  "sum_list (map f (remdups_adj (sort (xs :: 'a::linorder list)))) = (\<Sum>x\<in>set xs. f x)"
proof -
  have "distinct (remdups_adj (sort xs))"
    using compact_sort(1) [of xs] by (simp add: strict_sorted_iff)
  then show ?thesis
    by (simp add: sum_list_distinct_conv_sum_set)
qed

end
