(* ===== verification/Utf8.thy ===== *)
theory Utf8
  imports Prelude
begin

text \<open>
  UTF-8 as the standard library's \<open>unicode/utf8\<close> reads it: \<open>mb_len\<close> is the size of the well-formed
  encoding at the head of a byte string (0 where \<open>DecodeRune\<close> answers \<open>RuneError\<close> with size 1),
  \<open>utf8_valid\<close> is \<open>utf8.Valid\<close>, \<open>to_valid\<close> replaces every ill-formed byte with U+FFFD and
  \<open>encode_rune\<close> is \<open>AppendRune\<close>.
\<close>

abbreviation bv :: "byte \<Rightarrow> nat" where
  "bv c \<equiv> of_char c"

definition cont_in :: "nat \<Rightarrow> nat \<Rightarrow> string \<Rightarrow> bool" where
  "cont_in lo hi s \<longleftrightarrow> (case s of [] \<Rightarrow> False | c # _ \<Rightarrow> lo \<le> bv c \<and> bv c \<le> hi)"

definition cont :: "string \<Rightarrow> bool" where
  "cont s \<longleftrightarrow> cont_in 128 191 s"

fun mb_len :: "string \<Rightarrow> nat" where
  "mb_len [] = 0"
| "mb_len (c # s) =
     (let b = bv c in
      if b < 128 then 1
      else if 194 \<le> b \<and> b \<le> 223 then (if cont s then 2 else 0)
      else if 224 \<le> b \<and> b \<le> 239 then
        (if (if b = 224 then cont_in 160 191 s else if b = 237 then cont_in 128 159 s else cont s)
            \<and> cont (drop 1 s) then 3 else 0)
      else if 240 \<le> b \<and> b \<le> 244 then
        (if (if b = 240 then cont_in 144 191 s else if b = 244 then cont_in 128 143 s else cont s)
            \<and> cont (drop 1 s) \<and> cont (drop 2 s) then 4 else 0)
      else 0)"

declare mb_len.simps [simp del]

fun utf8_valid :: "string \<Rightarrow> bool" where
  "utf8_valid [] = True"
| "utf8_valid (c # s) = (case mb_len (c # s) of 0 \<Rightarrow> False | Suc n \<Rightarrow> utf8_valid (drop n s))"

definition rune_error :: string where
  "rune_error = [CHR 0xEF, CHR 0xBF, CHR 0xBD]"

fun to_valid :: "string \<Rightarrow> string" where
  "to_valid [] = []"
| "to_valid (c # s) =
     (case mb_len (c # s) of
        0 \<Rightarrow> rune_error @ to_valid s
      | Suc n \<Rightarrow> c # take n s @ to_valid (drop n s))"

text \<open>\<open>utf8.AppendRune\<close>; surrogates and values beyond U+10FFFF become U+FFFD.\<close>

definition encode_rune :: "nat \<Rightarrow> string" where
  "encode_rune r =
     (if r < 128 then [char_of r]
      else if r < 2048 then [char_of (192 + r div 64), char_of (128 + r mod 64)]
      else if r > 1114111 \<or> (55296 \<le> r \<and> r \<le> 57343) then rune_error
      else if r < 65536 then
        [char_of (224 + r div 4096), char_of (128 + r div 64 mod 64), char_of (128 + r mod 64)]
      else [char_of (240 + r div 262144), char_of (128 + r div 4096 mod 64),
            char_of (128 + r div 64 mod 64), char_of (128 + r mod 64)])"

section \<open>Facts\<close>

lemma mb_len_ascii [simp]: "bv c < 128 \<Longrightarrow> mb_len (c # s) = 1"
  by (simp add: mb_len.simps Let_def)

lemma cont_in_length: "cont_in a b s \<Longrightarrow> s \<noteq> []"
  by (auto simp: cont_in_def)

lemma cont_drop: "cont (drop n s) \<Longrightarrow> n < length s"
  unfolding cont_def by (drule cont_in_length) simp

lemma mb_len_le: "mb_len s \<le> length s"
  using cont_drop [of 0 "drop 0 (tl s)"] cont_drop [of 1 "tl s"] cont_drop [of 2 "tl s"]
  by (cases s) (auto simp: mb_len.simps Let_def Suc_le_eq)

text \<open>Whether a multi-byte head is well-formed depends on its own bytes only.\<close>

lemma cont_in_append: "cont_in a b s \<Longrightarrow> cont_in a b (s @ t)"
  by (cases s) (auto simp: cont_in_def)

lemma cont_append: "cont s \<Longrightarrow> cont (s @ t)"
  by (auto simp: cont_def cont_in_append)

lemma cont_drop_append: "cont (drop n s) \<Longrightarrow> cont (drop n (s @ t))"
  using cont_append [of "drop n s" "drop (n - length s) t"] by simp

lemma mb_len_append: "mb_len s = Suc n \<Longrightarrow> mb_len (s @ t) = Suc n"
  by (cases s)
    (auto simp: mb_len.simps Let_def intro: cont_append cont_in_append cont_drop_append [of 1, simplified]
      cont_drop_append split: if_splits)

lemma cont_in_take: "cont_in a b s \<Longrightarrow> 0 < k \<Longrightarrow> cont_in a b (take k s)"
  by (cases s; cases k) (auto simp: cont_in_def)

lemma mb_len_take: "mb_len s = Suc n \<Longrightarrow> mb_len (take (Suc n) s) = Suc n"
  by (cases s)
    (auto simp: mb_len.simps Let_def cont_def cont_in_take drop_take split: if_splits)

text \<open>A multi-byte head starts and continues with bytes beyond ASCII.\<close>

lemma mb_len_high:
  assumes "mb_len (c # s) = Suc n" "\<not> bv c < 128"
  shows "list_all (\<lambda>b. 128 \<le> bv b) (c # take n s)"
proof -
  have *: "cont_in a b t \<Longrightarrow> 128 \<le> a \<Longrightarrow> t \<noteq> [] \<and> 128 \<le> bv (hd t)" for a b t
    by (cases t) (auto simp: cont_in_def)
  show ?thesis
    using assms
    by (cases s; cases "tl s"; cases "tl (tl s)")
      (auto simp: mb_len.simps Let_def cont_def dest: * split: if_splits)
qed

lemma to_valid_id: "utf8_valid s \<Longrightarrow> to_valid s = s"
  by (induction s rule: utf8_valid.induct) (auto split: nat.splits)

lemma utf8_valid_ascii: "list_all (\<lambda>b. bv b < 128) s \<Longrightarrow> utf8_valid s"
  by (induction s) auto

lemma utf8_valid_append: "utf8_valid s \<Longrightarrow> utf8_valid (s @ t) = utf8_valid t"
proof (induction s rule: utf8_valid.induct)
  case (2 c s)
  then obtain n where n: "mb_len (c # s) = Suc n" and v: "utf8_valid (drop n s)"
    by (auto split: nat.splits)
  from n have len: "n \<le> length s" using mb_len_le [of "c # s"] by simp
  have "mb_len (c # s @ t) = Suc n" using mb_len_append [OF n, of t] by simp
  with 2 n v len show ?case by simp
qed simp

lemma rune_error_head: "mb_len (rune_error @ t) = 3"
  by (simp add: rune_error_def mb_len.simps Let_def cont_def cont_in_def)

lemma utf8_valid_head:
  "mb_len (c # s) = Suc n \<Longrightarrow> utf8_valid (c # take n s)"
  using mb_len_take [of "c # s" n] by simp

lemma utf8_valid_rune_error [simp]: "utf8_valid rune_error"
  using rune_error_head [of "[]"] by (simp add: rune_error_def numeral_3_eq_3 eval_nat_numeral)

lemma utf8_valid_to_valid: "utf8_valid (to_valid s)"
proof (induction s rule: to_valid.induct)
  case (2 c s)
  show ?case
  proof (cases "mb_len (c # s)")
    case 0
    with 2 show ?thesis by (simp add: utf8_valid_append)
  next
    case (Suc n)
    then have "utf8_valid ((c # take n s) @ to_valid (drop n s))"
      using 2 by (simp only: utf8_valid_append [OF utf8_valid_head [OF Suc]])
    with Suc show ?thesis by simp
  qed
qed simp

end
