(* ===== verification/Encodings.thy ===== *)
theory Encodings
  imports Prelude
begin

text \<open>
  The two text encodings of the standard library the program uses: \<open>encoding/hex\<close> (lowercase) for
  the suffix of a challenge key and \<open>base64.RawURLEncoding\<close>, with its \<open>Strict\<close> decoder, for a nonce.
  Both are proved to be bijections on the texts the program accepts.
\<close>

section \<open>Hexadecimal\<close>

definition hex_digits :: string where
  "hex_digits = ''0123456789abcdef''"

definition hex_digit :: "nat \<Rightarrow> byte" where
  "hex_digit n = hex_digits ! n"

lemma length_hex_digits: "length hex_digits = 16"
  by (simp add: hex_digits_def)

text \<open>\<open>hex.EncodeToString\<close>.\<close>

fun hex_encode :: "string \<Rightarrow> string" where
  "hex_encode [] = []"
| "hex_encode (b # bs) = hex_digit (of_char b div 16) # hex_digit (of_char b mod 16) # hex_encode bs"

definition hex_value :: "byte \<Rightarrow> nat option" where
  "hex_value c = index_byte hex_digits c"

lemma length_hex_encode [simp]: "length (hex_encode bs) = 2 * length bs"
  by (induction bs) auto

lemma of_char_less [simp]: "of_char c < (256 :: nat)"
  using nat_of_char_less_256 by simp

lemma of_char_div16 [simp]: "of_char c div 16 < (16 :: nat)"
  by (rule less_mult_imp_div_less) simp

lemma hex_value_digit_all: "list_all (\<lambda>n. hex_value (hex_digit n) = Some n) [0..<16]"
  by code_simp

lemma hex_value_digit [simp]: "n < 16 \<Longrightarrow> hex_value (hex_digit n) = Some n"
  using hex_value_digit_all by (simp add: list_all_iff)

lemma hex_digit_in [simp]: "n < 16 \<Longrightarrow> hex_digit n \<in> set hex_digits"
  unfolding hex_digit_def by (rule nth_mem) (simp add: hex_digits_def)

lemma hex_digit_inj: "a < 16 \<Longrightarrow> b < 16 \<Longrightarrow> hex_digit a = hex_digit b \<longleftrightarrow> a = b"
  by (metis hex_value_digit option.inject)

lemma set_hex_encode: "set (hex_encode bs) \<subseteq> set hex_digits"
proof (induction bs)
  case (Cons b bs)
  then show ?case by simp
qed simp

lemma hex_encode_inj: "hex_encode as = hex_encode bs \<longleftrightarrow> as = bs"
proof (induction as arbitrary: bs)
  case Nil
  then show ?case by (cases bs) auto
next
  case (Cons a as)
  show ?case
  proof (cases bs)
    case (Cons b bs')
    have "of_char a div 16 = (of_char b div 16 :: nat) \<and> of_char a mod 16 = (of_char b mod 16 :: nat)
          \<longleftrightarrow> a = b"
      by (metis div_mult_mod_eq of_char_eq_iff)
    then show ?thesis
      using Cons Cons.IH [of bs'] by (auto simp: hex_digit_inj)
  qed simp
qed

text \<open>A digit of either case.\<close>

definition hex_value_any :: "byte \<Rightarrow> nat option" where
  "hex_value_any c =
     (case hex_value c of Some n \<Rightarrow> Some n
      | None \<Rightarrow> index_byte ''0123456789ABCDEF'' c)"

section \<open>Base64, URL alphabet, no padding\<close>

definition b64_alphabet :: string where
  "b64_alphabet = ''ABCDEFGHIJKLMNOPQRSTUVWXYZabcdefghijklmnopqrstuvwxyz0123456789-_''"

definition b64_char :: "nat \<Rightarrow> byte" where
  "b64_char n = b64_alphabet ! n"

definition b64_value :: "byte \<Rightarrow> nat option" where
  "b64_value c = index_byte b64_alphabet c"

text \<open>\<open>EncodedLen\<close> without padding.\<close>

definition b64_encoded_len :: "nat \<Rightarrow> nat" where
  "b64_encoded_len n = n div 3 * 4 + (n mod 3 * 8 + 5) div 6"

text \<open>Three bytes are four sextets; a tail of one or two bytes is two or three.\<close>

fun b64_sextets :: "nat list \<Rightarrow> nat list" where
  "b64_sextets (x # y # z # bs) =
     x div 4 # (x mod 4 * 16 + y div 16) # (y mod 16 * 4 + z div 64) # z mod 64 # b64_sextets bs"
| "b64_sextets [x, y] = [x div 4, x mod 4 * 16 + y div 16, y mod 16 * 4]"
| "b64_sextets [x] = [x div 4, x mod 4 * 16]"
| "b64_sextets [] = []"

definition b64_encode :: "string \<Rightarrow> string" where
  "b64_encode s = map b64_char (b64_sextets (map of_char s))"

text \<open>
  The strict decoder: line breaks are skipped, a character outside the alphabet, a lone last
  sextet or nonzero padding bits are errors (\<open>None\<close>).
\<close>

fun b64_bytes :: "nat list \<Rightarrow> nat list option" where
  "b64_bytes (a # b # c # d # ns) =
     map_option (\<lambda>bs. (a * 4 + b div 16) # (b mod 16 * 16 + c div 4) # (c mod 4 * 64 + d) # bs)
       (b64_bytes ns)"
| "b64_bytes [a, b, c] =
     (if c mod 4 \<noteq> 0 then None else Some [a * 4 + b div 16, b mod 16 * 16 + c div 4])"
| "b64_bytes [a, b] = (if b mod 16 \<noteq> 0 then None else Some [a * 4 + b div 16])"
| "b64_bytes [a] = None"
| "b64_bytes [] = Some []"

definition b64_skipped :: "byte \<Rightarrow> bool" where
  "b64_skipped c \<longleftrightarrow> c = CHR 0x0A \<or> c = CHR 0x0D"

fun b64_values :: "string \<Rightarrow> nat list option" where
  "b64_values [] = Some []"
| "b64_values (c # cs) =
     (if b64_skipped c then b64_values cs
      else case b64_value c of None \<Rightarrow> None | Some n \<Rightarrow> map_option ((#) n) (b64_values cs))"

definition b64_decode :: "string \<Rightarrow> string option" where
  "b64_decode s = (case b64_values s of None \<Rightarrow> None | Some ns \<Rightarrow> map_option (map char_of) (b64_bytes ns))"

subsection \<open>The decoder inverts the encoder and accepts nothing else\<close>

lemma b64_value_char_all: "list_all (\<lambda>n. b64_value (b64_char n) = Some n \<and> \<not> b64_skipped (b64_char n)) [0..<64]"
  by code_simp

lemma b64_value_char [simp]:
  "n < 64 \<Longrightarrow> b64_value (b64_char n) = Some n"
  "n < 64 \<Longrightarrow> \<not> b64_skipped (b64_char n)"
  using b64_value_char_all by (simp_all add: list_all_iff)

lemma b64_value_SomeD: "b64_value c = Some n \<Longrightarrow> n < 64 \<and> b64_char n = c"
proof -
  have "index_byte s c = Some n \<Longrightarrow> n < length s \<and> s ! n = c" for s
    by (induction s arbitrary: n) (auto split: if_splits simp: nth_Cons split: nat.splits)
  note nth = this
  have len: "length b64_alphabet = 64" by code_simp
  assume "b64_value c = Some n"
  then show ?thesis using nth [of b64_alphabet] len by (simp add: b64_value_def b64_char_def)
qed

lemma b64_sextets_bound: "\<forall>b\<in>set bs. b < 256 \<Longrightarrow> \<forall>n\<in>set (b64_sextets bs). n < 64"
  by (induction bs rule: b64_sextets.induct) auto

lemma b64_values_map: "\<forall>n\<in>set ns. n < 64 \<Longrightarrow> b64_values (map b64_char ns) = Some ns"
  by (induction ns) auto

lemma b64_bytes_sextets: "\<forall>b\<in>set bs. b < 256 \<Longrightarrow> b64_bytes (b64_sextets bs) = Some bs"
  by (induction bs rule: b64_sextets.induct) auto

lemma map_char_of_of_char [simp]: "map (char_of \<circ> (of_char :: char \<Rightarrow> nat)) s = s"
  by (induction s) auto

theorem b64_decode_encode: "b64_decode (b64_encode s) = Some s"
proof -
  have bd: "\<forall>b\<in>set (map of_char s). b < (256::nat)" by simp
  then have "b64_values (b64_encode s) = Some (b64_sextets (map of_char s))"
    unfolding b64_encode_def by (intro b64_values_map b64_sextets_bound)
  with b64_bytes_sextets [OF bd] show ?thesis by (simp add: b64_decode_def)
qed

lemma b64_encoded_len_step: "b64_encoded_len (Suc (Suc (Suc n))) = b64_encoded_len n + 4"
proof -
  have "Suc (Suc (Suc n)) div 3 = Suc (n div 3)" "Suc (Suc (Suc n)) mod 3 = n mod 3" by presburger+
  then show ?thesis by (simp add: b64_encoded_len_def)
qed

lemma b64_encoded_len_small:
  "b64_encoded_len 0 = 0" "b64_encoded_len (Suc 0) = 2" "b64_encoded_len (Suc (Suc 0)) = 3"
  by (simp_all add: b64_encoded_len_def)

lemma length_b64_sextets: "length (b64_sextets bs) = b64_encoded_len (length bs)"
  by (induction bs rule: b64_sextets.induct) (simp_all add: b64_encoded_len_step b64_encoded_len_small)

lemma length_b64_encode: "length (b64_encode s) = b64_encoded_len (length s)"
  by (simp add: b64_encode_def length_b64_sextets)

lemma b64_sextets_bytes:
  "b64_bytes ns = Some bs \<Longrightarrow> \<forall>n\<in>set ns. n < 64 \<Longrightarrow> b64_sextets bs = ns \<and> (\<forall>b\<in>set bs. b < 256)"
proof (induction ns arbitrary: bs rule: b64_bytes.induct)
  case (1 a b c d ns)
  then obtain bs' where bs': "b64_bytes ns = Some bs'"
    and bs: "bs = (a * 4 + b div 16) # (b mod 16 * 16 + c div 4) # (c mod 4 * 64 + d) # bs'"
    by auto
  from 1 bs' have ih: "b64_sextets bs' = ns" "\<forall>b\<in>set bs'. b < 256" by auto
  from 1 have lt: "a < 64" "b < 64" "c < 64" "d < 64" by auto
  have "(a * 4 + b div 16) div 4 = a" "(a * 4 + b div 16) mod 4 = b div 16"
    "(b mod 16 * 16 + c div 4) div 16 = b mod 16" "(b mod 16 * 16 + c div 4) mod 16 = c div 4"
    "(c mod 4 * 64 + d) div 64 = c mod 4" "(c mod 4 * 64 + d) mod 64 = d"
    "b div 16 * 16 + b mod 16 = b" "c div 4 * 4 + c mod 4 = c"
    using lt by auto
  with ih bs lt show ?case by auto
next
  case (2 a b c)
  then have lt: "a < 64" "b < 64" "c < 64" and c0: "c mod 4 = 0"
    and bs: "bs = [a * 4 + b div 16, b mod 16 * 16 + c div 4]"
    by (auto split: if_splits)
  have "(a * 4 + b div 16) div 4 = a" "(a * 4 + b div 16) mod 4 = b div 16"
    "(b mod 16 * 16 + c div 4) div 16 = b mod 16" "(b mod 16 * 16 + c div 4) mod 16 = c div 4"
    "b div 16 * 16 + b mod 16 = b" "c div 4 * 4 = c"
    using lt c0 by auto
  with bs lt show ?case by auto
next
  case (3 a b)
  then have lt: "a < 64" "b < 64" and b0: "b mod 16 = 0" and bs: "bs = [a * 4 + b div 16]"
    by (auto split: if_splits)
  have "(a * 4 + b div 16) div 4 = a" "(a * 4 + b div 16) mod 4 = b div 16" "b div 16 * 16 = b"
    using lt b0 by auto
  with bs lt show ?case by auto
qed auto

lemma b64_values_SomeD:
  "b64_values s = Some ns \<Longrightarrow> (\<forall>n\<in>set ns. n < 64) \<and> map b64_char ns = filter (\<lambda>c. \<not> b64_skipped c) s"
  by (induction s arbitrary: ns) (auto split: if_splits option.splits dest: b64_value_SomeD)

theorem b64_decode_SomeD:
  assumes "b64_decode s = Some t"
  shows "b64_encode t = filter (\<lambda>c. \<not> b64_skipped c) s"
proof -
  from assms obtain ns bs where ns: "b64_values s = Some ns" and bs: "b64_bytes ns = Some bs"
    and t: "t = map char_of bs"
    by (auto simp: b64_decode_def split: option.splits)
  from b64_values_SomeD [OF ns] have lt: "\<forall>n\<in>set ns. n < 64"
    and eq: "map b64_char ns = filter (\<lambda>c. \<not> b64_skipped c) s" by auto
  from b64_sextets_bytes [OF bs lt] have "b64_sextets bs = ns" and b: "\<forall>b\<in>set bs. b < 256" by auto
  moreover from b have "map of_char t = bs"
    unfolding t by (induction bs) auto
  ultimately show ?thesis using eq by (simp add: b64_encode_def)
qed

end
