(* ===== verification/JsonText.thy ===== *)
theory JsonText
  imports Utf8 Encodings
begin

text \<open>
  JSON texts as \<open>encoding/json\<close> scans and writes them: whitespace, the scanners of the scalar
  literals (which return the literal and the rest of the input), the range check of numbers, the
  string quoting of \<open>Marshal\<close> and its inverse. The error kinds are those that
  \<open>wrapJSONError\<close> tells apart; the byte offset of a syntax error is not kept.
\<close>

datatype json_error =
    JEOF
  | JUnexpectedEOF
  | JSyntax
  | JTypeError "string option"
  | JUnknownField

section \<open>Whitespace\<close>

definition is_space :: "byte \<Rightarrow> bool" where
  "is_space c \<longleftrightarrow> c = CHR '' '' \<or> c = CHR 0x09 \<or> c = CHR 0x0D \<or> c = CHR 0x0A"

definition skip_ws :: "string \<Rightarrow> string" where
  "skip_ws s = dropWhile is_space s"

definition ws :: "string \<Rightarrow> bool" where
  "ws s \<longleftrightarrow> list_all is_space s"

lemma ws_Nil [simp]: "ws []" by (simp add: ws_def)

lemma skip_ws_append [simp]: "ws w \<Longrightarrow> skip_ws (w @ s) = skip_ws s"
  by (induction w) (auto simp: ws_def skip_ws_def)

lemma skip_ws_Cons [simp]: "skip_ws (c # s) = (if is_space c then skip_ws s else c # s)"
  by (simp add: skip_ws_def)

lemma skip_ws_Nil [simp]: "skip_ws [] = []"
  by (simp add: skip_ws_def)

lemma skip_ws_split: "\<exists>w. ws w \<and> s = w @ skip_ws s"
  unfolding ws_def skip_ws_def
  by (metis list_all_iff set_takeWhileD takeWhile_dropWhile_id)

lemma skip_ws_head: "skip_ws s = c # t \<Longrightarrow> \<not> is_space c"
  unfolding skip_ws_def by (metis hd_dropWhile list.distinct(1) list.sel(1))

lemma skip_ws_length: "length (skip_ws s) \<le> length s"
  by (simp add: skip_ws_def length_dropWhile_le)

section \<open>String literals\<close>

definition simple_escape :: "byte \<Rightarrow> bool" where
  "simple_escape c \<longleftrightarrow> c \<in> set [CHR ''b'', CHR ''f'', CHR ''n'', CHR ''r'', CHR ''t'',
     CHR 0x5C, CHR ''/'', CHR 0x22]"

definition is_hex :: "byte \<Rightarrow> bool" where
  "is_hex c \<longleftrightarrow> c \<in> set ''0123456789abcdefABCDEF''"

text \<open>
  The scanner after an opening quote: the body of the literal, still escaped, and the input after
  the closing quote.
\<close>

fun scan_str :: "string \<Rightarrow> json_error + (string \<times> string)" where
  "scan_str [] = Inl JUnexpectedEOF"
| "scan_str (c # s) =
     (if c = CHR 0x22 then Inr ([], s)
      else if c = CHR 0x5C then
        (case s of
           [] \<Rightarrow> Inl JUnexpectedEOF
         | e # s' \<Rightarrow>
             if simple_escape e then
               (case scan_str s' of Inl er \<Rightarrow> Inl er | Inr (b, r) \<Rightarrow> Inr (c # e # b, r))
             else if e = CHR ''u'' then
               (if length s' < 4 then
                  (if list_all is_hex s' then Inl JUnexpectedEOF else Inl JSyntax)
                else if list_all is_hex (take 4 s') then
                  (case scan_str (drop 4 s') of
                     Inl er \<Rightarrow> Inl er | Inr (b, r) \<Rightarrow> Inr (c # e # take 4 s' @ b, r))
                else Inl JSyntax)
             else Inl JSyntax)
      else if bv c < 32 then Inl JSyntax
      else (case scan_str s of Inl er \<Rightarrow> Inl er | Inr (b, r) \<Rightarrow> Inr (c # b, r)))"

declare scan_str.simps(2) [simp del]

text \<open>The bodies of string literals.\<close>

definition str_body :: "string \<Rightarrow> bool" where
  "str_body b \<longleftrightarrow> scan_str (b @ [CHR 0x22]) = Inr (b, [])"

text \<open>
  A scanned literal is the body, a quote and the rest; and the scanner reads that body before any
  other rest as well.
\<close>

lemma scan_str_split:
  "scan_str s = Inr (b, r) \<Longrightarrow> s = b @ CHR 0x22 # r \<and> (\<forall>t. scan_str (b @ CHR 0x22 # t) = Inr (b, t))"
proof (induction s arbitrary: b r rule: scan_str.induct)
  case (2 c s)
  note un = scan_str.simps(2)
  show ?case
  proof (cases "c = CHR 0x22 \<or> c \<noteq> CHR 0x5C")
    case True
    with 2 un [of c s] show ?thesis by (auto simp: un split: if_splits sum.splits)
  next
    case False
    with 2(4) un [of c s] obtain e s' where s: "s = e # s'" by (cases s) auto
    show ?thesis
    proof (cases "simple_escape e")
      case True
      with False s un [of c s] 2 show ?thesis by (auto simp: un split: sum.splits)
    next
      case ne: False
      with False s un [of c s] 2(4) have u: "e = CHR ''u''" and len: "\<not> length s' < 4"
        and hex: "list_all is_hex (take 4 s')"
        by (auto split: if_splits)
      with ne False s un [of c s] 2(4) obtain b' where b': "scan_str (drop 4 s') = Inr (b', r)"
        "b = c # e # take 4 s' @ b'"
        by (auto split: sum.splits)
      have ih: "drop 4 s' = b' @ CHR 0x22 # r" "\<And>t. scan_str (b' @ CHR 0x22 # t) = Inr (b', t)"
        using 2(2) [OF _ _ s ne u len hex b'(1)] False by blast+
      have "s = e # take 4 s' @ b' @ CHR 0x22 # r"
        using s ih(1) by (metis append_take_drop_id)
      moreover have "scan_str (c # e # take 4 s' @ b' @ CHR 0x22 # t) = Inr (c # e # take 4 s' @ b', t)" for t
        using False ne u len hex ih(2) by (simp add: un)
      ultimately show ?thesis using b'(2) by simp
    qed
  qed
qed simp

lemma scan_str_Inr:
  "scan_str s = Inr (b, r) \<longleftrightarrow> str_body b \<and> s = b @ CHR 0x22 # r"
  using scan_str_split [of s b r] scan_str_split [of "b @ [CHR 0x22]" b "[]"]
  unfolding str_body_def by blast

section \<open>Quoting and unquoting\<close>

text \<open>
  \<open>appendString\<close> of \<open>Marshal\<close> with its HTML escaping: the escape of one ASCII byte, and the body of
  a quoted string. Ill-formed bytes are written as \<open>\ufffd\<close>, U+2028 and U+2029 as escapes.
\<close>

definition unicode_escape :: "byte \<Rightarrow> string" where
  "unicode_escape c = [CHR 0x5C, CHR ''u'', CHR ''0'', CHR ''0'', hex_digit (bv c div 16), hex_digit (bv c mod 16)]"

definition short_escape :: "byte \<Rightarrow> byte option" where
  "short_escape c =
     (if c = CHR 0x5C \<or> c = CHR 0x22 then Some c
      else if c = CHR 0x08 then Some (CHR ''b'')
      else if c = CHR 0x0C then Some (CHR ''f'')
      else if c = CHR 0x0A then Some (CHR ''n'')
      else if c = CHR 0x0D then Some (CHR ''r'')
      else if c = CHR 0x09 then Some (CHR ''t'')
      else None)"

definition escape_ascii :: "byte \<Rightarrow> string" where
  "escape_ascii c =
     (case short_escape c of
        Some e \<Rightarrow> [CHR 0x5C, e]
      | None \<Rightarrow>
          if bv c < 32 \<or> c = CHR ''<'' \<or> c = CHR ''>'' \<or> c = CHR ''&'' then unicode_escape c
          else [c])"

definition escape_rune :: "string \<Rightarrow> string" where
  "escape_rune r =
     (if r = [CHR 0xE2, CHR 0x80, CHR 0xA8] then CHR 0x5C # ''u2028''
      else if r = [CHR 0xE2, CHR 0x80, CHR 0xA9] then CHR 0x5C # ''u2029''
      else r)"

fun quote_body :: "string \<Rightarrow> string" where
  "quote_body [] = []"
| "quote_body (c # s) =
     (if bv c < 128 then escape_ascii c @ quote_body s
      else case mb_len (c # s) of
             0 \<Rightarrow> CHR 0x5C # ''ufffd'' @ quote_body s
           | Suc n \<Rightarrow> escape_rune (c # take n s) @ quote_body (drop n s))"

definition json_quote :: "string \<Rightarrow> string" where
  "json_quote s = CHR 0x22 # quote_body s @ [CHR 0x22]"

text \<open>\<open>unquote\<close>: the value of a string literal's body.\<close>

fun hex4 :: "string \<Rightarrow> nat option" where
  "hex4 (a # b # c # d # s) =
     (case (hex_value_any a, hex_value_any b, hex_value_any c, hex_value_any d) of
        (Some w, Some x, Some y, Some z) \<Rightarrow> Some (((w * 16 + x) * 16 + y) * 16 + z)
      | _ \<Rightarrow> None)"
| "hex4 _ = None"

fun escape_value :: "byte \<Rightarrow> byte option" where
  "escape_value c =
     (if c = CHR 0x22 \<or> c = CHR 0x5C \<or> c = CHR ''/'' \<or> c = CHR 0x27 then Some c
      else if c = CHR ''b'' then Some (CHR 0x08)
      else if c = CHR ''f'' then Some (CHR 0x0C)
      else if c = CHR ''n'' then Some (CHR 0x0A)
      else if c = CHR ''r'' then Some (CHR 0x0D)
      else if c = CHR ''t'' then Some (CHR 0x09)
      else None)"

definition is_surrogate :: "nat \<Rightarrow> bool" where
  "is_surrogate r \<longleftrightarrow> 55296 \<le> r \<and> r < 57344"

text \<open>The second half of a surrogate pair, as an escape at the head of the input.\<close>

fun second_half :: "nat \<Rightarrow> string \<Rightarrow> nat option" where
  "second_half hi (b # u # s) =
     (if b = CHR 0x5C \<and> u = CHR ''u'' then
        (case hex4 s of
           Some lo \<Rightarrow>
             (if hi < 56320 \<and> 56320 \<le> lo \<and> lo < 57344
              then Some ((hi - 55296) * 1024 + (lo - 56320) + 65536) else None)
         | None \<Rightarrow> None)
      else None)"
| "second_half hi _ = None"

fun unquote :: "string \<Rightarrow> string option" where
  "unquote [] = Some []"
| "unquote (c # s) =
     (if c = CHR 0x5C then
        (case s of
           [] \<Rightarrow> None
         | e # s' \<Rightarrow>
             if e = CHR ''u'' then
               (case hex4 s' of
                  None \<Rightarrow> None
                | Some r \<Rightarrow>
                    if is_surrogate r then
                      (case second_half r (drop 4 s') of
                         Some r' \<Rightarrow> map_option ((@) (encode_rune r')) (unquote (drop 10 s'))
                       | None \<Rightarrow> map_option ((@) rune_error) (unquote (drop 4 s')))
                    else map_option ((@) (encode_rune r)) (unquote (drop 4 s')))
             else
               (case escape_value e of
                  None \<Rightarrow> None
                | Some x \<Rightarrow> map_option ((#) x) (unquote s')))
      else if c = CHR 0x22 \<or> bv c < 32 then None
      else case mb_len (c # s) of
             0 \<Rightarrow> map_option ((@) rune_error) (unquote s)
           | Suc n \<Rightarrow> map_option ((@) (c # take n s)) (unquote (drop n s)))"

declare unquote.simps(2) [simp del]

subsection \<open>The scanner and \<open>unquote\<close> on quoted text\<close>

definition plain_byte :: "byte \<Rightarrow> bool" where
  "plain_byte c \<longleftrightarrow> 32 \<le> bv c \<and> c \<noteq> CHR 0x22 \<and> c \<noteq> CHR 0x5C"

lemma high_plain: "128 \<le> bv c \<Longrightarrow> plain_byte c"
  by (auto simp: plain_byte_def)

lemma scan_str_plain:
  "list_all plain_byte p \<Longrightarrow> scan_str s = Inr (b, r) \<Longrightarrow> scan_str (p @ s) = Inr (p @ b, r)"
  by (induction p) (auto simp: plain_byte_def scan_str.simps(2))

lemma scan_str_simple:
  "simple_escape e \<Longrightarrow> scan_str s = Inr (b, r) \<Longrightarrow>
   scan_str (CHR 0x5C # e # s) = Inr (CHR 0x5C # e # b, r)"
  by (simp add: scan_str.simps(2))

lemma scan_str_unicode:
  "list_all is_hex [w, x, y, z] \<Longrightarrow> scan_str s = Inr (b, r) \<Longrightarrow>
   scan_str (CHR 0x5C # CHR ''u'' # w # x # y # z # s) = Inr (CHR 0x5C # CHR ''u'' # w # x # y # z # b, r)"
  by (simp add: scan_str.simps(2) simple_escape_def)

lemma hex_digits_is_hex: "n < 16 \<Longrightarrow> is_hex (hex_digit n)"
  using hex_digit_in [of n] by (auto simp: is_hex_def hex_digits_def)

lemma escape_ascii_cases:
  assumes "bv c < 128"
  obtains "escape_ascii c = [c]" "plain_byte c"
  | e where "escape_ascii c = [CHR 0x5C, e]" "simple_escape e" "e \<noteq> CHR ''u''" "escape_value e = Some c"
  | "escape_ascii c = unicode_escape c"
proof (cases "short_escape c")
  case None
  then have "c \<noteq> CHR 0x22 \<and> c \<noteq> CHR 0x5C" by (auto simp: short_escape_def split: if_splits)
  with None show ?thesis
    by (cases "bv c < 32 \<or> c = CHR ''<'' \<or> c = CHR ''>'' \<or> c = CHR ''&''")
      (rule that(3) that(1), simp add: escape_ascii_def, (simp add: plain_byte_def)?)+
next
  case (Some e)
  then have "simple_escape e" "e \<noteq> CHR ''u''" "escape_value e = Some c"
    by (auto simp: short_escape_def simple_escape_def split: if_splits)
  with Some show ?thesis by (intro that(2) [of e]) (simp_all add: escape_ascii_def)
qed

lemma escape_rune_cases:
  obtains "escape_rune r = r"
  | "escape_rune r = CHR 0x5C # ''u2028''" "r = [CHR 0xE2, CHR 0x80, CHR 0xA8]"
  | "escape_rune r = CHR 0x5C # ''u2029''" "r = [CHR 0xE2, CHR 0x80, CHR 0xA9]"
  unfolding escape_rune_def by metis

lemma scan_quote_body: "scan_str (quote_body s @ CHR 0x22 # t) = Inr (quote_body s, t)"
proof (induction s rule: quote_body.induct)
  case 1
  then show ?case by (simp add: scan_str.simps(2))
next
  case (2 c s)
  show ?case
  proof (cases "bv c < 128")
    case True
    with 2(1) have ih: "scan_str (quote_body s @ CHR 0x22 # t) = Inr (quote_body s, t)" by simp
    show ?thesis
      using escape_ascii_cases [OF True]
    proof cases
      case 1
      with True ih scan_str_plain [of "[c]", OF _ ih] show ?thesis by simp
    next
      case (2 e)
      with True scan_str_simple [OF 2(2) ih] show ?thesis by simp
    next
      case 3
      have "list_all is_hex [CHR ''0'', CHR ''0'', hex_digit (bv c div 16), hex_digit (bv c mod 16)]"
        by (simp add: hex_digits_is_hex) (simp add: is_hex_def)
      from scan_str_unicode [OF this ih] 3 True show ?thesis by (simp add: unicode_escape_def)
    qed
  next
    case high: False
    show ?thesis
    proof (cases "mb_len (c # s)")
      case 0
      with 2(2) high have ih: "scan_str (quote_body s @ CHR 0x22 # t) = Inr (quote_body s, t)" by simp
      have "list_all is_hex ''fffd''" by (simp add: is_hex_def)
      from scan_str_unicode [OF this ih] 0 high show ?thesis by simp
    next
      case (Suc n)
      with 2(3) high have ih: "scan_str (quote_body (drop n s) @ CHR 0x22 # t) = Inr (quote_body (drop n s), t)"
        by simp
      have plain: "list_all plain_byte (c # take n s)"
        using mb_len_high [OF Suc high] by (auto simp: list_all_iff intro: high_plain)
      have h: "list_all is_hex ''2028''" "list_all is_hex ''2029''" by (simp_all add: is_hex_def)
      show ?thesis
      proof (cases rule: escape_rune_cases [of "c # take n s"])
        case 1
        with Suc high scan_str_plain [OF plain ih] show ?thesis by simp
      next
        case 2
        with Suc high scan_str_unicode [OF h(1) ih] show ?thesis by simp
      next
        case 3
        with Suc high scan_str_unicode [OF h(2) ih] show ?thesis by simp
      qed
    qed
  qed
qed

lemma str_body_quote [simp, wire_simps]: "str_body (quote_body s)"
  using scan_quote_body [of s "[]"] by (simp add: str_body_def)

lemma unquote_plain_ascii:
  "plain_byte c \<Longrightarrow> bv c < 128 \<Longrightarrow> unquote (c # s) = map_option ((#) c) (unquote s)"
  by (cases "unquote s") (simp_all add: unquote.simps(2) plain_byte_def)

lemma unquote_unicode:
  assumes "hex4 [w, x, y, z] = Some r" "\<not> is_surrogate r"
  shows "unquote (CHR 0x5C # CHR ''u'' # w # x # y # z # s) = map_option ((@) (encode_rune r)) (unquote s)"
proof -
  have "hex4 (w # x # y # z # s) = Some r" using assms(1) by (auto split: option.splits)
  with assms(2) show ?thesis by (simp add: unquote.simps(2))
qed

lemma hex_value_any_digit [simp]: "n < 16 \<Longrightarrow> hex_value_any (hex_digit n) = Some n"
  by (simp add: hex_value_any_def)

lemma unquote_quote_body: "unquote (quote_body s) = Some (to_valid s)"
proof (induction s rule: quote_body.induct)
  case (2 c s)
  show ?case
  proof (cases "bv c < 128")
    case True
    with 2(1) have ih: "unquote (quote_body s) = Some (to_valid s)" by simp
    have tv: "to_valid (c # s) = c # to_valid s" using True by simp
    show ?thesis
      using escape_ascii_cases [OF True]
    proof cases
      case 1
      with True ih tv show ?thesis by (simp add: unquote_plain_ascii)
    next
      case (2 e)
      with True ih tv show ?thesis by (simp add: unquote.simps(2))
    next
      case 3
      have "hex4 [CHR ''0'', CHR ''0'', hex_digit (bv c div 16), hex_digit (bv c mod 16)] = Some (bv c)"
        by (simp add: hex_value_any_def [of "CHR ''0''"] hex_value_def hex_digits_def)
      from unquote_unicode [OF this, of "quote_body s"] 3 True ih tv show ?thesis
        by (simp add: unicode_escape_def is_surrogate_def encode_rune_def)
    qed
  next
    case high: False
    show ?thesis
    proof (cases "mb_len (c # s)")
      case 0
      with 2(2) high have ih: "unquote (quote_body s) = Some (to_valid s)" by simp
      have "hex4 ''fffd'' = Some 65533" by (simp add: hex_value_any_def hex_value_def hex_digits_def)
      from unquote_unicode [OF this, of "quote_body s"] 0 high ih show ?thesis
        by (simp add: is_surrogate_def encode_rune_def rune_error_def char_of_def bit_Suc_0_iff)
    next
      case (Suc n)
      with 2(3) high have ih: "unquote (quote_body (drop n s)) = Some (to_valid (drop n s))" by simp
      have len: "n \<le> length s" using mb_len_le [of "c # s"] Suc by simp
      have tv: "to_valid (c # s) = (c # take n s) @ to_valid (drop n s)" using Suc by simp
      show ?thesis
      proof (cases rule: escape_rune_cases [of "c # take n s"])
        case 1
        have "mb_len ((c # take n s) @ quote_body (drop n s)) = Suc n"
          using mb_len_append [OF mb_len_take [OF Suc]] by simp
        moreover have "plain_byte c" using high by (simp add: high_plain)
        ultimately have "unquote ((c # take n s) @ quote_body (drop n s)) = Some ((c # take n s) @ to_valid (drop n s))"
          using len ih by (simp add: unquote.simps(2) plain_byte_def)
        with 1 Suc high tv show ?thesis by simp
      next
        case 2
        have "hex4 ''2028'' = Some 8232" by (simp add: hex_value_any_def hex_value_def hex_digits_def)
        from unquote_unicode [OF this, of "quote_body (drop n s)"] 2 Suc high ih tv show ?thesis
          by (simp add: is_surrogate_def encode_rune_def char_of_def bit_Suc_0_iff)
      next
        case 3
        have "hex4 ''2029'' = Some 8233" by (simp add: hex_value_any_def hex_value_def hex_digits_def)
        from unquote_unicode [OF this, of "quote_body (drop n s)"] 3 Suc high ih tv show ?thesis
          by (simp add: is_surrogate_def encode_rune_def char_of_def bit_Suc_0_iff)
      qed
    qed
  qed
qed simp

end
