(* ===== verification/Json.thy ===== *)
theory Json
  imports JsonText
begin

text \<open>
  JSON values and the value scanner of \<open>encoding/json\<close>. \<open>spells v t\<close> is the grammar: the text \<open>t\<close>,
  without surrounding whitespace, is a spelling of \<open>v\<close>. \<open>parse_value\<close> is the scanner of \<open>Decode\<close>,
  with its nesting limit; it is proved to return \<open>v\<close> exactly on the spellings of \<open>v\<close> nested at most
  10000 deep, whatever delimiter follows.
\<close>

section \<open>Scalars\<close>

definition is_digit :: "byte \<Rightarrow> bool" where
  "is_digit c \<longleftrightarrow> c \<in> set ''0123456789''"

definition digits1 :: "string \<Rightarrow> json_error + (string \<times> string)" where
  "digits1 s =
     (case takeWhile is_digit s of
        [] \<Rightarrow> Inl (if s = [] then JUnexpectedEOF else JSyntax)
      | ds \<Rightarrow> Inr (ds, dropWhile is_digit s))"

definition scan_exp :: "string \<Rightarrow> json_error + (string \<times> string)" where
  "scan_exp s =
     (case s of
        [] \<Rightarrow> Inr ([], [])
      | c # s1 \<Rightarrow>
          if c = CHR ''e'' \<or> c = CHR ''E'' then
            (case s1 of
               [] \<Rightarrow> Inl JUnexpectedEOF
             | d # s2 \<Rightarrow>
                 if d = CHR ''+'' \<or> d = CHR ''-'' then
                   (case digits1 s2 of Inl e \<Rightarrow> Inl e | Inr (ds, r) \<Rightarrow> Inr (c # d # ds, r))
                 else (case digits1 s1 of Inl e \<Rightarrow> Inl e | Inr (ds, r) \<Rightarrow> Inr (c # ds, r)))
          else Inr ([], s))"

definition scan_frac :: "string \<Rightarrow> json_error + (string \<times> string)" where
  "scan_frac s =
     (case s of
        [] \<Rightarrow> Inr ([], [])
      | c # s1 \<Rightarrow>
          if c = CHR ''.'' then
            (case digits1 s1 of Inl e \<Rightarrow> Inl e | Inr (ds, r) \<Rightarrow> Inr (c # ds, r))
          else Inr ([], s))"

definition scan_int :: "string \<Rightarrow> json_error + (string \<times> string)" where
  "scan_int s =
     (case s of
        [] \<Rightarrow> Inl JUnexpectedEOF
      | c # s1 \<Rightarrow>
          if c = CHR ''0'' then Inr ([c], s1)
          else if is_digit c then Inr (c # takeWhile is_digit s1, dropWhile is_digit s1)
          else Inl JSyntax)"

text \<open>The parts of a number literal: minus sign, integer, fraction, exponent.\<close>

definition scan_num :: "string \<Rightarrow> json_error + (string \<times> string)" where
  "scan_num s =
     (let (m, s0) = (case s of c # s1 \<Rightarrow> if c = CHR ''-'' then ([c], s1) else ([], s) | [] \<Rightarrow> ([], []))
      in case scan_int s0 of
           Inl e \<Rightarrow> Inl e
         | Inr (i, s2) \<Rightarrow>
            (case scan_frac s2 of
               Inl e \<Rightarrow> Inl e
             | Inr (f, s3) \<Rightarrow>
                (case scan_exp s3 of
                   Inl e \<Rightarrow> Inl e
                 | Inr (x, r) \<Rightarrow> Inr (m @ i @ f @ x, r))))"

text \<open>A keyword: the scanner stops at the first wrong byte.\<close>

fun scan_word :: "string \<Rightarrow> string \<Rightarrow> json_error + string" where
  "scan_word [] s = Inr s"
| "scan_word (w # v) [] = Inl JUnexpectedEOF"
| "scan_word (w # v) (c # s) = (if c = w then scan_word v s else Inl JSyntax)"

datatype jval =
    JNull
  | JBool bool
  | JNumber string
  | JString string
  | JArray "jval list"
  | JObject "(string \<times> jval) list"

text \<open>
  Number literals are kept as texts; strings and member names as the escaped bodies of their
  literals. \<open>scan_scalar\<close> expects the first byte of a value that is not a container.
\<close>

definition scan_scalar :: "string \<Rightarrow> json_error + (jval \<times> string)" where
  "scan_scalar s =
     (case s of
        [] \<Rightarrow> Inl JUnexpectedEOF
      | c # r \<Rightarrow>
          if c = CHR 0x22 then
            (case scan_str r of Inl e \<Rightarrow> Inl e | Inr (b, r') \<Rightarrow> Inr (JString b, r'))
          else if c = CHR ''-'' \<or> is_digit c then
            (case scan_num s of Inl e \<Rightarrow> Inl e | Inr (l, r') \<Rightarrow> Inr (JNumber l, r'))
          else if c = CHR ''t'' then
            (case scan_word ''true'' s of Inl e \<Rightarrow> Inl e | Inr r' \<Rightarrow> Inr (JBool True, r'))
          else if c = CHR ''f'' then
            (case scan_word ''false'' s of Inl e \<Rightarrow> Inl e | Inr r' \<Rightarrow> Inr (JBool False, r'))
          else if c = CHR ''n'' then
            (case scan_word ''null'' s of Inl e \<Rightarrow> Inl e | Inr r' \<Rightarrow> Inr (JNull, r'))
          else Inl JSyntax)"

section \<open>Grammar\<close>

definition num_lit :: "string \<Rightarrow> bool" where
  "num_lit l \<longleftrightarrow> (\<exists>c t. l = c # t \<and> (c = CHR ''-'' \<or> is_digit c)) \<and> scan_num l = Inr (l, [])"

inductive spells :: "jval \<Rightarrow> string \<Rightarrow> bool"
  and spells_elems :: "jval list \<Rightarrow> string \<Rightarrow> bool"
  and spells_members :: "(string \<times> jval) list \<Rightarrow> string \<Rightarrow> bool"
where
  sp_null: "spells JNull ''null''"
| sp_true: "spells (JBool True) ''true''"
| sp_false: "spells (JBool False) ''false''"
| sp_num: "num_lit l \<Longrightarrow> spells (JNumber l) l"
| sp_str: "str_body b \<Longrightarrow> spells (JString b) (CHR 0x22 # b @ [CHR 0x22])"
| sp_arr0: "ws w \<Longrightarrow> spells (JArray []) (CHR ''['' # w @ [CHR '']''])"
| sp_arr: "spells_elems vs t \<Longrightarrow> spells (JArray vs) (CHR ''['' # t @ [CHR '']''])"
| sp_obj0: "ws w \<Longrightarrow> spells (JObject []) (CHR ''{'' # w @ [CHR ''}''])"
| sp_obj: "spells_members ms t \<Longrightarrow> spells (JObject ms) (CHR ''{'' # t @ [CHR ''}''])"
| sp_elem1: "spells v t \<Longrightarrow> ws w1 \<Longrightarrow> ws w2 \<Longrightarrow> spells_elems [v] (w1 @ t @ w2)"
| sp_elems: "spells v t \<Longrightarrow> ws w1 \<Longrightarrow> ws w2 \<Longrightarrow> spells_elems vs u \<Longrightarrow>
     spells_elems (v # vs) (w1 @ t @ w2 @ CHR '','' # u)"
| sp_member1: "str_body k \<Longrightarrow> spells v t \<Longrightarrow> ws w0 \<Longrightarrow> ws w1 \<Longrightarrow> ws w2 \<Longrightarrow> ws w3 \<Longrightarrow>
     spells_members [(k, v)] (w0 @ CHR 0x22 # k @ CHR 0x22 # w1 @ CHR '':'' # w2 @ t @ w3)"
| sp_members: "str_body k \<Longrightarrow> spells v t \<Longrightarrow> ws w0 \<Longrightarrow> ws w1 \<Longrightarrow> ws w2 \<Longrightarrow> ws w3 \<Longrightarrow>
     spells_members ms u \<Longrightarrow>
     spells_members ((k, v) # ms)
       (w0 @ CHR 0x22 # k @ CHR 0x22 # w1 @ CHR '':'' # w2 @ t @ w3 @ CHR '','' # u)"

text \<open>Container nesting.\<close>

fun depth :: "jval \<Rightarrow> nat" where
  "depth (JArray vs) = Suc (foldr max (map depth vs) 0)"
| "depth (JObject ms) = Suc (foldr max (map (\<lambda>m. depth (snd m)) ms) 0)"
| "depth _ = 0"

section \<open>The scanner of \<open>Decode\<close>\<close>

definition maxNestingDepth :: nat where
  "maxNestingDepth = 10000"

text \<open>
  \<open>parse_value n d s\<close> reads one value after optional whitespace, \<open>d\<close> containers deep. The fuel
  \<open>n\<close> bounds the recursion; \<open>parse_complete\<close> below shows that twice the length of the input is
  always enough, so that no valid text is refused for want of fuel.
\<close>

fun parse_value :: "nat \<Rightarrow> nat \<Rightarrow> string \<Rightarrow> json_error + (jval \<times> string)"
  and parse_elems :: "nat \<Rightarrow> nat \<Rightarrow> string \<Rightarrow> json_error + (jval list \<times> string)"
  and parse_members :: "nat \<Rightarrow> nat \<Rightarrow> string \<Rightarrow> json_error + ((string \<times> jval) list \<times> string)"
where
  "parse_value 0 d s = Inl JSyntax"
| "parse_value (Suc n) d s =
     (case skip_ws s of
        [] \<Rightarrow> Inl JUnexpectedEOF
      | c # r \<Rightarrow>
          if c = CHR ''['' then
            (if d \<ge> maxNestingDepth then Inl JSyntax
             else case skip_ws r of
               [] \<Rightarrow> Inl JUnexpectedEOF
             | c' # r' \<Rightarrow>
                 if c' = CHR '']'' then Inr (JArray [], r')
                 else case parse_elems n (Suc d) r of
                   Inl e \<Rightarrow> Inl e | Inr (vs, q) \<Rightarrow> Inr (JArray vs, q))
          else if c = CHR ''{'' then
            (if d \<ge> maxNestingDepth then Inl JSyntax
             else case skip_ws r of
               [] \<Rightarrow> Inl JUnexpectedEOF
             | c' # r' \<Rightarrow>
                 if c' = CHR ''}'' then Inr (JObject [], r')
                 else case parse_members n (Suc d) r of
                   Inl e \<Rightarrow> Inl e | Inr (ms, q) \<Rightarrow> Inr (JObject ms, q))
          else scan_scalar (c # r))"
| "parse_elems 0 d s = Inl JSyntax"
| "parse_elems (Suc n) d s =
     (case parse_value n d s of
        Inl e \<Rightarrow> Inl e
      | Inr (v, r) \<Rightarrow>
         (case skip_ws r of
            [] \<Rightarrow> Inl JUnexpectedEOF
          | c # r' \<Rightarrow>
              if c = CHR '','' then
                (case parse_elems n d r' of Inl e \<Rightarrow> Inl e | Inr (vs, q) \<Rightarrow> Inr (v # vs, q))
              else if c = CHR '']'' then Inr ([v], r')
              else Inl JSyntax))"
| "parse_members 0 d s = Inl JSyntax"
| "parse_members (Suc n) d s =
     (case skip_ws s of
        [] \<Rightarrow> Inl JUnexpectedEOF
      | c # r \<Rightarrow>
          if c \<noteq> CHR 0x22 then Inl JSyntax
          else case scan_str r of
            Inl e \<Rightarrow> Inl e
          | Inr (k, r1) \<Rightarrow>
             (case skip_ws r1 of
                [] \<Rightarrow> Inl JUnexpectedEOF
              | c1 # r2 \<Rightarrow>
                  if c1 \<noteq> CHR '':'' then Inl JSyntax
                  else case parse_value n d r2 of
                    Inl e \<Rightarrow> Inl e
                  | Inr (v, r3) \<Rightarrow>
                     (case skip_ws r3 of
                        [] \<Rightarrow> Inl JUnexpectedEOF
                      | c2 # r4 \<Rightarrow>
                          if c2 = CHR '','' then
                            (case parse_members n d r4 of
                               Inl e \<Rightarrow> Inl e | Inr (ms, q) \<Rightarrow> Inr ((k, v) # ms, q))
                          else if c2 = CHR ''}'' then Inr ([(k, v)], r4)
                          else Inl JSyntax)))"

declare parse_value.simps [simp del] parse_elems.simps [simp del] parse_members.simps [simp del]

section \<open>Scalars, sound and complete\<close>

text \<open>What may follow a value inside a text: nothing, whitespace or a structural byte.\<close>

definition delim :: "string \<Rightarrow> bool" where
  "delim r \<longleftrightarrow> (case r of [] \<Rightarrow> True | c # _ \<Rightarrow> is_space c \<or> c \<in> set '',]}:'')"

lemma delim_simps [simp]:
  "delim []" "delim (CHR '','' # r)" "delim (CHR '']'' # r)" "delim (CHR ''}'' # r)" "delim (CHR '':'' # r)"
  by (simp_all add: delim_def)

lemma delim_ws [simp]: "ws w \<Longrightarrow> delim r \<Longrightarrow> delim (w @ r)"
  by (cases w) (simp_all add: delim_def ws_def)

lemma scan_word_Inr: "scan_word w s = Inr r \<longleftrightarrow> s = w @ r"
  by (induction w s rule: scan_word.induct) auto

text \<open>The input \<open>t\<close> does not continue with a digit, or with one of the bytes \<open>cs\<close>.\<close>

definition stops :: "string \<Rightarrow> string \<Rightarrow> bool" where
  "stops cs t \<longleftrightarrow> (case t of [] \<Rightarrow> True | c # _ \<Rightarrow> \<not> is_digit c \<and> c \<notin> set cs)"

lemma stops_Nil [simp]: "stops cs []"
  by (simp add: stops_def)

lemma stops_Cons [simp]: "stops cs (c # t) \<longleftrightarrow> \<not> is_digit c \<and> c \<notin> set cs"
  by (simp add: stops_def)

lemma delim_stops: "delim t \<Longrightarrow> stops ''.eE'' t"
  by (cases t) (auto simp: delim_def is_space_def is_digit_def)

lemma span_digits:
  assumes "list_all is_digit ds" "stops cs r"
  shows "takeWhile is_digit (ds @ r) = ds" "dropWhile is_digit (ds @ r) = r"
  using assms by (induction ds) (auto simp: stops_def split: list.splits)

lemma digits_taken: "list_all is_digit (takeWhile is_digit s)"
  by (auto simp: list_all_iff dest: set_takeWhileD)

lemma digits1_Inr:
  assumes "digits1 s = Inr (ds, r)"
  shows "s = ds @ r \<and> ds \<noteq> [] \<and> (\<forall>r'. stops [] r' \<longrightarrow> digits1 (ds @ r') = Inr (ds, r'))"
proof -
  from assms have ds: "ds = takeWhile is_digit s" "ds \<noteq> []" "r = dropWhile is_digit s"
    by (auto simp: digits1_def split: list.splits)
  have "digits1 (ds @ r') = Inr (ds, r')" if "stops [] r'" for r'
  proof -
    note sp = span_digits [OF digits_taken that, of s, folded ds(1)]
    show ?thesis unfolding digits1_def sp using ds(2) by (cases ds) simp_all
  qed
  with ds show ?thesis by simp
qed

lemma scan_int_Inr:
  assumes "scan_int s = Inr (i, r)"
  shows "s = i @ r \<and> (\<forall>r'. stops [] r' \<longrightarrow> scan_int (i @ r') = Inr (i, r'))"
  using assms span_digits [OF digits_taken, of "[]" _ "tl s"]
  by (cases s) (auto simp: scan_int_def split: if_splits)

lemma scan_frac_Inr:
  assumes "scan_frac s = Inr (f, r)"
  shows "s = f @ r \<and> (\<forall>r'. stops ''.'' r' \<longrightarrow> scan_frac (f @ r') = Inr (f, r')) \<and>
    (\<forall>r'. stops [] r' \<longrightarrow> stops [] (f @ r'))"
proof (cases s)
  case (Cons c s1)
  show ?thesis
  proof (cases "c = CHR ''.''")
    case True
    with assms Cons obtain ds where "digits1 s1 = Inr (ds, r)" "f = c # ds"
      by (auto simp: scan_frac_def split: sum.splits)
    with digits1_Inr [of s1 ds r] True Cons show ?thesis
      by (auto simp: scan_frac_def is_digit_def stops_def split: list.splits)
  next
    case False
    with assms Cons show ?thesis by (auto simp: scan_frac_def stops_def split: list.splits)
  qed
qed (use assms in \<open>auto simp: scan_frac_def stops_def split: list.splits\<close>)

lemma scan_exp_Inr:
  assumes "scan_exp s = Inr (x, r)"
  shows "s = x @ r \<and> (\<forall>r'. stops ''eE'' r' \<longrightarrow> scan_exp (x @ r') = Inr (x, r')) \<and>
    (\<forall>r'. stops ''.'' r' \<longrightarrow> stops ''.'' (x @ r'))"
proof (cases s)
  case (Cons c s1)
  show ?thesis
  proof (cases "c = CHR ''e'' \<or> c = CHR ''E''")
    case True
    with assms Cons obtain d s2 where s1: "s1 = d # s2"
      by (cases s1) (auto simp: scan_exp_def)
    have c: "stops ''.'' (c # t)" for t using True by (auto simp: is_digit_def)
    show ?thesis
    proof (cases "d = CHR ''+'' \<or> d = CHR ''-''")
      case sgn: True
      with assms Cons True s1 obtain ds where "digits1 s2 = Inr (ds, r)" "x = c # d # ds"
        by (auto simp: scan_exp_def split: sum.splits)
      with digits1_Inr [of s2 ds r] sgn True Cons s1 c show ?thesis
        by (auto simp: scan_exp_def stops_def split: list.splits)
    next
      case nosgn: False
      with assms Cons True s1 obtain ds where ds: "digits1 s1 = Inr (ds, r)" "x = c # ds"
        by (auto simp: scan_exp_def split: sum.splits)
      from digits1_Inr [OF ds(1)] obtain ds' where ds': "ds = d # ds'" using s1 by (cases ds) auto
      with digits1_Inr [OF ds(1)] ds nosgn True Cons s1 c show ?thesis
        by (auto simp: scan_exp_def stops_def split: list.splits)
    qed
  next
    case False
    with assms Cons show ?thesis by (auto simp: scan_exp_def stops_def split: list.splits)
  qed
qed (use assms in \<open>auto simp: scan_exp_def stops_def split: list.splits\<close>)

lemma scan_num_split:
  assumes "scan_num s = Inr (l, r)"
  shows "s = l @ r" and "delim r' \<Longrightarrow> scan_num (l @ r') = Inr (l, r')"
proof -
  define m where "m = (case s of c # _ \<Rightarrow> if c = CHR ''-'' then [c] else [] | [] \<Rightarrow> [])"
  define s0 where "s0 = (case s of c # s1 \<Rightarrow> if c = CHR ''-'' then s1 else s | [] \<Rightarrow> [])"
  have s: "s = m @ s0" by (auto simp: m_def s0_def split: list.splits)
  have split: "(case s of c # s1 \<Rightarrow> if c = CHR ''-'' then ([c], s1) else ([], s) | [] \<Rightarrow> ([], [])) = (m, s0)"
    by (auto simp: m_def s0_def split: list.splits)
  from assms obtain i s2 f s3 x where i: "scan_int s0 = Inr (i, s2)" and f: "scan_frac s2 = Inr (f, s3)"
    and x: "scan_exp s3 = Inr (x, r)" and l: "l = m @ i @ f @ x"
    unfolding scan_num_def split by (auto split: sum.splits)
  note I = scan_int_Inr [OF i] and F = scan_frac_Inr [OF f] and X = scan_exp_Inr [OF x]
  show "s = l @ r" using s I F X l by simp
  assume "delim r'"
  then have st: "stops ''.eE'' r'" by (rule delim_stops)
  then have st': "stops ''eE'' r'" "stops ''.'' r'" by (auto simp: stops_def split: list.splits)
  have X': "scan_exp (x @ r') = Inr (x, r')" and x': "stops ''.'' (x @ r')" using X st' by auto
  have F': "scan_frac (f @ x @ r') = Inr (f, x @ r')" using F x' by auto
  have "stops [] (x @ r')" using x' by (auto simp: stops_def split: list.splits)
  with F have "stops [] (f @ x @ r')" by auto
  with I have I': "scan_int (i @ f @ x @ r') = Inr (i, f @ x @ r')" by auto
  have "m = [CHR ''-''] \<or> m = [] \<and> (\<forall>t. i @ t \<noteq> [] \<and> hd (i @ t) \<noteq> CHR ''-'')"
    using i by (auto simp: m_def s0_def scan_int_def is_digit_def split: list.splits if_splits)
  then have "(case l @ r' of c # s1 \<Rightarrow> if c = CHR ''-'' then ([c], s1) else ([], l @ r') | [] \<Rightarrow> ([], []))
     = (m, i @ f @ x @ r')"
  proof
    assume "m = [CHR ''-'']"
    then show ?thesis unfolding l by simp
  next
    assume m: "m = [] \<and> (\<forall>t. i @ t \<noteq> [] \<and> hd (i @ t) \<noteq> CHR ''-'')"
    from m have h: "i @ f @ x @ r' \<noteq> []" "hd (i @ f @ x @ r') \<noteq> CHR ''-''" by blast+
    then obtain c t where ct: "i @ f @ x @ r' = c # t" "c \<noteq> CHR ''-''" by (cases "i @ f @ x @ r'") simp_all
    then have "l @ r' = c # t" using m l by simp
    with ct m show ?thesis by simp
  qed
  then show "scan_num (l @ r') = Inr (l, r')"
    unfolding scan_num_def using I' F' X' l by simp
qed

lemma scan_num_Inr:
  assumes "scan_num (c # s) = Inr (l, r)" "c = CHR ''-'' \<or> is_digit c"
  shows "num_lit l \<and> c # s = l @ r"
proof -
  have eq: "c # s = l @ r" using assms(1) by (rule scan_num_split(1))
  have "scan_num l = Inr (l, [])" using scan_num_split(2) [OF assms(1), of "[]"] by simp
  moreover from this have "l \<noteq> []" by (auto simp: scan_num_def scan_int_def)
  ultimately show ?thesis using eq assms(2) by (cases l) (auto simp: num_lit_def)
qed

lemma scan_num_lit: "num_lit l \<Longrightarrow> delim r \<Longrightarrow> scan_num (l @ r) = Inr (l, r)"
  unfolding num_lit_def using scan_num_split(2) [of l l "[]" r] by simp

text \<open>The scalars of the grammar.\<close>

definition scalar :: "jval \<Rightarrow> bool" where
  "scalar v \<longleftrightarrow> (case v of JArray _ \<Rightarrow> False | JObject _ \<Rightarrow> False | _ \<Rightarrow> True)"

inductive_simps spells_simps:
  "spells JNull t" "spells (JBool b) t" "spells (JNumber l) t" "spells (JString b) t"

lemma scan_scalar_sound:
  assumes "scan_scalar s = Inr (v, r)"
  shows "\<exists>t. s = t @ r \<and> spells v t \<and> scalar v"
proof (cases s)
  case (Cons c q)
  consider "c = CHR 0x22" | "c = CHR ''-'' \<or> is_digit c"
    | "c \<noteq> CHR 0x22" "\<not> (c = CHR ''-'' \<or> is_digit c)" by blast
  then show ?thesis
  proof cases
    case 1
    with assms Cons show ?thesis
      by (auto simp: scan_scalar_def scan_str_Inr scalar_def spells_simps split: sum.splits)
  next
    case 2
    then have "c \<noteq> CHR 0x22" by (auto simp: is_digit_def)
    with 2 assms Cons obtain l where "scan_num s = Inr (l, r)" "v = JNumber l"
      by (auto simp: scan_scalar_def split: sum.splits)
    with scan_num_Inr [of c q l r] 2 Cons show ?thesis by (auto simp: scalar_def spells_simps)
  next
    case 3
    with assms Cons show ?thesis
      unfolding scan_scalar_def
      by (auto simp: scalar_def spells_simps scan_word_Inr split: sum.splits if_splits)
  qed
qed (use assms in \<open>simp add: scan_scalar_def\<close>)

lemma scan_scalar_complete:
  assumes "spells v t" "scalar v" "delim r"
  shows "scan_scalar (t @ r) = Inr (v, r)"
proof (cases v)
  case (JNumber l)
  with assms have l: "t = l" "num_lit l" by (simp_all add: spells_simps)
  then obtain c q where c: "l = c # q" "c = CHR ''-'' \<or> is_digit c" by (auto simp: num_lit_def)
  then have "c \<noteq> CHR 0x22" by (auto simp: is_digit_def)
  with c l scan_num_lit [OF l(2) assms(3)] JNumber show ?thesis by (simp add: scan_scalar_def)
next
  case (JString b)
  with assms have b: "str_body b" "t = CHR 0x22 # b @ [CHR 0x22]" by (simp_all add: spells_simps)
  then have "scan_str (b @ CHR 0x22 # r) = Inr (b, r)" by (simp add: scan_str_Inr)
  with b JString show ?thesis by (simp add: scan_scalar_def)
next
  case JNull
  have "scan_word ''null'' (''null'' @ r) = Inr r" by (simp only: scan_word_Inr)
  with JNull assms show ?thesis by (simp add: spells_simps scan_scalar_def is_digit_def)
next
  case (JBool b)
  have "scan_word ''true'' (''true'' @ r) = Inr r" "scan_word ''false'' (''false'' @ r) = Inr r"
    by (simp_all only: scan_word_Inr)
  with JBool assms show ?thesis by (cases b) (simp_all add: spells_simps scan_scalar_def is_digit_def)
qed (use assms in \<open>simp_all add: scalar_def\<close>)

section \<open>Values, sound and complete\<close>

abbreviation elems_depth :: "jval list \<Rightarrow> nat" where
  "elems_depth vs \<equiv> foldr max (map depth vs) 0"

abbreviation members_depth :: "(string \<times> jval) list \<Rightarrow> nat" where
  "members_depth ms \<equiv> foldr max (map (\<lambda>m. depth (snd m)) ms) 0"

lemma scalar_depth: "scalar v \<Longrightarrow> depth v = 0"
  by (cases v) (simp_all add: scalar_def)

lemma skip_ws_SomeD: "skip_ws s = c # r \<Longrightarrow> \<exists>w. ws w \<and> s = w @ c # r"
  using skip_ws_split [of s] by metis

lemma parse_sound:
  "parse_value n d s = Inr (v, r) \<Longrightarrow> d \<le> maxNestingDepth \<Longrightarrow>
     \<exists>w t. s = w @ t @ r \<and> ws w \<and> spells v t \<and> d + depth v \<le> maxNestingDepth"
  "parse_elems n d s = Inr (vs, r) \<Longrightarrow> d \<le> maxNestingDepth \<Longrightarrow>
     \<exists>t. s = t @ CHR '']'' # r \<and> spells_elems vs t \<and> d + elems_depth vs \<le> maxNestingDepth"
  "parse_members n d s = Inr (ms, r) \<Longrightarrow> d \<le> maxNestingDepth \<Longrightarrow>
     \<exists>t. s = t @ CHR ''}'' # r \<and> spells_members ms t \<and> d + members_depth ms \<le> maxNestingDepth"
proof (induction n d s and n d s and n d s arbitrary: v r and vs r and ms r
    rule: parse_value_parse_elems_parse_members.induct)
  case (2 n d s)
  from 2(3) obtain c q where sk: "skip_ws s = c # q"
    by (auto simp: parse_value.simps split: list.splits)
  then obtain w where w: "ws w" "s = w @ c # q" using skip_ws_SomeD by blast
  consider "c = CHR ''[''" | "c = CHR ''{''" | "c \<noteq> CHR ''[''" "c \<noteq> CHR ''{''" by blast
  then show ?case
  proof cases
    case 1
    with 2(3) sk obtain c' q' where d: "d < maxNestingDepth" and sk': "skip_ws q = c' # q'"
      by (auto simp: parse_value.simps split: list.splits if_splits)
    then obtain w' where w': "ws w'" "q = w' @ c' # q'" using skip_ws_SomeD by blast
    show ?thesis
    proof (cases "c' = CHR '']''")
      case True
      with 2(3) sk sk' d 1 have "v = JArray []" "r = q'" by (auto simp: parse_value.simps)
      moreover have "spells (JArray []) (CHR ''['' # w' @ [CHR '']''])" using w'(1) by (rule sp_arr0)
      ultimately show ?thesis
        using w w' 1 True d by (intro exI [of _ w] exI [of _ "CHR ''['' # w' @ [CHR '']'']"]) auto
    next
      case False
      with 2(3) sk sk' d 1 obtain vs where vs: "parse_elems n (Suc d) q = Inr (vs, r)" "v = JArray vs"
        by (auto simp: parse_value.simps split: sum.splits)
      from 2(1) [OF sk 1 _ sk' False vs(1)] d obtain t where
        t: "q = t @ CHR '']'' # r" "spells_elems vs t" "Suc d + elems_depth vs \<le> maxNestingDepth" by auto
      have "spells v (CHR ''['' # t @ [CHR '']''])" using t(2) vs(2) by (simp add: sp_arr)
      moreover have "s = w @ (CHR ''['' # t @ [CHR '']'']) @ r" using w t 1 by simp
      ultimately show ?thesis using w(1) t(3) vs(2) by (metis depth.simps(1) add_Suc_right add_Suc)
    qed
  next
    case obj: 2
    with 2(3) sk obtain c' q' where d: "d < maxNestingDepth" and sk': "skip_ws q = c' # q'"
      by (auto simp: parse_value.simps split: list.splits if_splits)
    then obtain w' where w': "ws w'" "q = w' @ c' # q'" using skip_ws_SomeD by blast
    have c: "c \<noteq> CHR ''[''" using obj by simp
    show ?thesis
    proof (cases "c' = CHR ''}''")
      case True
      with 2(3) sk sk' d obj have "v = JObject []" "r = q'" by (auto simp: parse_value.simps)
      moreover have "spells (JObject []) (CHR ''{'' # w' @ [CHR ''}''])" using w'(1) by (rule sp_obj0)
      ultimately show ?thesis
        using w w' obj True d by (intro exI [of _ w] exI [of _ "CHR ''{'' # w' @ [CHR ''}'']"]) auto
    next
      case False
      with 2(3) sk sk' d obj obtain ms where ms: "parse_members n (Suc d) q = Inr (ms, r)" "v = JObject ms"
        by (auto simp: parse_value.simps split: sum.splits)
      from 2(2) [OF sk c obj _ sk' False ms(1)] d obtain t where
        t: "q = t @ CHR ''}'' # r" "spells_members ms t" "Suc d + members_depth ms \<le> maxNestingDepth" by auto
      have "spells v (CHR ''{'' # t @ [CHR ''}''])" using t(2) ms(2) by (simp add: sp_obj)
      moreover have "s = w @ (CHR ''{'' # t @ [CHR ''}'']) @ r" using w t obj by simp
      ultimately show ?thesis using w(1) t(3) ms(2) by (metis depth.simps(2) add_Suc_right add_Suc)
    qed
  next
    case 3
    with 2(3) sk have "scan_scalar (c # q) = Inr (v, r)" by (simp add: parse_value.simps)
    with scan_scalar_sound obtain t where t: "c # q = t @ r" "spells v t" "scalar v" by blast
    with w 2(4) show ?thesis by (metis scalar_depth add_0_right)
  qed
next
  case (4 n d s)
  from 4(3) obtain v q where v: "parse_value n d s = Inr (v, q)"
    by (auto simp: parse_elems.simps split: sum.splits)
  with 4(3) obtain c r' where sk: "skip_ws q = c # r'"
    by (auto simp: parse_elems.simps split: list.splits)
  then obtain w2 where w2: "ws w2" "q = w2 @ c # r'" using skip_ws_SomeD by blast
  from 4(1) [OF v 4(4)] obtain w1 t where t: "s = w1 @ t @ q" "ws w1" "spells v t"
    "d + depth v \<le> maxNestingDepth" by blast
  show ?case
  proof (cases "c = CHR '',''")
    case True
    with 4(3) v sk obtain us where us: "parse_elems n d r' = Inr (us, r)" "vs = v # us"
      by (auto simp: parse_elems.simps split: sum.splits)
    from 4(2) [OF v refl sk True us(1) 4(4)] obtain u where u: "r' = u @ CHR '']'' # r"
      "spells_elems us u" "d + elems_depth us \<le> maxNestingDepth" by blast
    have "spells_elems vs (w1 @ t @ w2 @ CHR '','' # u)"
      using us(2) t w2 u by (simp add: sp_elems)
    moreover have "s = (w1 @ t @ w2 @ CHR '','' # u) @ CHR '']'' # r" using t w2 u True by simp
    ultimately show ?thesis using us(2) t(4) u(3) by (intro exI conjI) auto
  next
    case False
    with 4(3) v sk have "c = CHR '']''" "vs = [v]" "r' = r"
      by (auto simp: parse_elems.simps split: if_splits)
    moreover have "spells_elems [v] (w1 @ t @ w2)" using t w2 by (simp add: sp_elem1)
    ultimately show ?thesis using t w2 by (intro exI [of _ "w1 @ t @ w2"]) auto
  qed
next
  case (6 n d s)
  from 6(3) obtain q where sk: "skip_ws s = CHR 0x22 # q"
    by (auto simp: parse_members.simps split: list.splits if_splits)
  then obtain w0 where w0: "ws w0" "s = w0 @ CHR 0x22 # q" using skip_ws_SomeD by blast
  from 6(3) sk obtain k r1 where k: "scan_str q = Inr (k, r1)"
    by (auto simp: parse_members.simps split: sum.splits)
  with 6(3) sk obtain r2 where sk1: "skip_ws r1 = CHR '':'' # r2"
    by (auto simp: parse_members.simps split: list.splits if_splits)
  then obtain w1 where w1: "ws w1" "r1 = w1 @ CHR '':'' # r2" using skip_ws_SomeD by blast
  from 6(3) sk k sk1 obtain v r3 where v: "parse_value n d r2 = Inr (v, r3)"
    by (auto simp: parse_members.simps split: sum.splits)
  with 6(3) sk k sk1 obtain c r4 where sk3: "skip_ws r3 = c # r4"
    by (auto simp: parse_members.simps split: list.splits)
  then obtain w3 where w3: "ws w3" "r3 = w3 @ c # r4" using skip_ws_SomeD by blast
  have nn: "\<not> CHR 0x22 \<noteq> CHR 0x22" "\<not> CHR '':'' \<noteq> CHR '':''" by simp_all
  from 6(1) [OF sk nn(1) k refl sk1 nn(2) v 6(4)] obtain w2 t where
    t: "r2 = w2 @ t @ r3" "ws w2" "spells v t" "d + depth v \<le> maxNestingDepth" by blast
  have kb: "str_body k" "q = k @ CHR 0x22 # r1" using k by (simp_all add: scan_str_Inr)
  show ?case
  proof (cases "c = CHR '',''")
    case True
    with 6(3) sk k sk1 v sk3 obtain us where us: "parse_members n d r4 = Inr (us, r)" "ms = (k, v) # us"
      by (auto simp: parse_members.simps split: sum.splits)
    from 6(2) [OF sk nn(1) k refl sk1 nn(2) v refl sk3 True us(1) 6(4)] obtain u where
      u: "r4 = u @ CHR ''}'' # r" "spells_members us u" "d + members_depth us \<le> maxNestingDepth" by blast
    have "spells_members ms (w0 @ CHR 0x22 # k @ CHR 0x22 # w1 @ CHR '':'' # w2 @ t @ w3 @ CHR '','' # u)"
      using us(2) t w0 w1 w3 u kb by (simp add: sp_members)
    moreover have "s = (w0 @ CHR 0x22 # k @ CHR 0x22 # w1 @ CHR '':'' # w2 @ t @ w3 @ CHR '','' # u) @ CHR ''}'' # r"
      using t w0 w1 w3 u kb True by simp
    ultimately show ?thesis using us(2) t(4) u(3) by (intro exI conjI) auto
  next
    case False
    with 6(3) sk k sk1 v sk3 have c: "c = CHR ''}''" "ms = [(k, v)]" "r4 = r"
      by (auto simp: parse_members.simps split: if_splits)
    have "spells_members [(k, v)] (w0 @ CHR 0x22 # k @ CHR 0x22 # w1 @ CHR '':'' # w2 @ t @ w3)"
      using t w0 w1 w3 kb by (simp add: sp_member1)
    moreover have "s = (w0 @ CHR 0x22 # k @ CHR 0x22 # w1 @ CHR '':'' # w2 @ t @ w3) @ CHR ''}'' # r"
      using t w0 w1 w3 kb c by simp
    ultimately show ?thesis using c t(4) by (intro exI conjI) auto
  qed
qed (simp_all add: parse_value.simps parse_elems.simps parse_members.simps)

lemma spells_head:
  "spells v t \<Longrightarrow> \<exists>c q. t = c # q \<and> \<not> is_space c \<and> c \<notin> set '',]}:''"
proof (induction rule: spells_spells_elems_spells_members.inducts(1)
    [where ?P2.0 = "\<lambda>_ _. True" and ?P3.0 = "\<lambda>_ _. True"])
  case (sp_num l)
  then show ?case by (auto simp: num_lit_def is_space_def is_digit_def)
qed (simp_all add: is_space_def)

lemma spells_elems_head:
  assumes "spells_elems vs t"
  shows "\<exists>c q. skip_ws (t @ r) = c # q \<and> c \<noteq> CHR '']''"
  using assms
proof cases
  case (sp_elem1 v t w1 w2)
  then show ?thesis using spells_head [of v t] by auto
next
  case (sp_elems v t w1 w2 vs u)
  then show ?thesis using spells_head [of v t] by auto
qed

lemma spells_members_head:
  assumes "spells_members ms t"
  shows "\<exists>q. skip_ws (t @ r) = CHR 0x22 # q"
  using assms by cases (simp_all add: is_space_def)

lemma parse_scalar:
  assumes "spells v t" "scalar v" "ws w" "delim r" "2 * length t \<le> n"
  shows "parse_value n d (w @ t @ r) = Inr (v, r)"
proof -
  from spells_head [OF assms(1)] obtain c q where t: "t = c # q" "\<not> is_space c" by auto
  with assms(5) obtain m where n: "n = Suc m" by (cases n) auto
  have sc: "scan_scalar (t @ r) = Inr (v, r)" using assms by (intro scan_scalar_complete)
  then have "c \<noteq> CHR ''['' \<and> c \<noteq> CHR ''{''" using t by (auto simp: scan_scalar_def is_digit_def)
  with sc t n assms(3) show ?thesis by (simp add: parse_value.simps)
qed

lemma parse_complete:
  "spells v t \<Longrightarrow> ws w \<Longrightarrow> delim r \<Longrightarrow> 2 * length t \<le> n \<Longrightarrow> d + depth v \<le> maxNestingDepth \<Longrightarrow>
     parse_value n d (w @ t @ r) = Inr (v, r)"
  "spells_elems vs t \<Longrightarrow> 2 * length t < n \<Longrightarrow> d + elems_depth vs \<le> maxNestingDepth \<Longrightarrow>
     parse_elems n d (t @ CHR '']'' # r) = Inr (vs, r)"
  "spells_members ms t \<Longrightarrow> 2 * length t < n \<Longrightarrow> d + members_depth ms \<le> maxNestingDepth \<Longrightarrow>
     parse_members n d (t @ CHR ''}'' # r) = Inr (ms, r)"
proof (induction arbitrary: n d w r and n d r and n d r rule: spells_spells_elems_spells_members.inducts)
  case sp_null
  then show ?case by (intro parse_scalar) (simp_all add: scalar_def spells_simps)
next
  case sp_true
  then show ?case by (intro parse_scalar) (simp_all add: scalar_def spells_simps)
next
  case sp_false
  then show ?case by (intro parse_scalar) (simp_all add: scalar_def spells_simps)
next
  case (sp_num l)
  then show ?case by (intro parse_scalar) (simp_all add: scalar_def spells_simps)
next
  case (sp_str b)
  then show ?case by (intro parse_scalar) (simp_all add: scalar_def spells_simps)
next
  case (sp_arr0 w')
  then show ?case by (cases n) (simp_all add: parse_value.simps is_space_def)
next
  case (sp_arr vs t)
  from sp_arr(5) obtain m where m: "n = Suc m" "2 * length t < m" by (cases n) auto
  have d: "Suc d + elems_depth vs \<le> maxNestingDepth" using sp_arr(6) by simp
  from sp_arr(2) [OF m(2) d, of r] spells_elems_head [OF sp_arr(1), of "CHR '']'' # r"] m d sp_arr(3)
  show ?case by (auto simp: parse_value.simps is_space_def)
next
  case (sp_obj0 w')
  then show ?case by (cases n) (simp_all add: parse_value.simps is_space_def)
next
  case (sp_obj ms t)
  from sp_obj(5) obtain m where m: "n = Suc m" "2 * length t < m" by (cases n) auto
  have d: "Suc d + members_depth ms \<le> maxNestingDepth" using sp_obj(6) by simp
  from sp_obj(2) [OF m(2) d, of r] spells_members_head [OF sp_obj(1), of "CHR ''}'' # r"] m d sp_obj(3)
  show ?case by (auto simp: parse_value.simps is_space_def)
next
  case (sp_elem1 v t w1 w2)
  from sp_elem1.prems(1) obtain m where m: "n = Suc m" "2 * length t \<le> m" by (cases n) auto
  have "parse_value m d (w1 @ t @ w2 @ CHR '']'' # r) = Inr (v, w2 @ CHR '']'' # r)"
    using sp_elem1.hyps sp_elem1.prems m by (intro sp_elem1.IH) simp_all
  with m sp_elem1.hyps show ?case by (simp add: parse_elems.simps is_space_def)
next
  case (sp_elems v t w1 w2 vs u)
  from sp_elems.prems(1) obtain m where m: "n = Suc m" "2 * length t \<le> m" "2 * length u < m" by (cases n) auto
  have "parse_value m d (w1 @ t @ w2 @ CHR '','' # u @ CHR '']'' # r) = Inr (v, w2 @ CHR '','' # u @ CHR '']'' # r)"
    using sp_elems.hyps sp_elems.prems m by (intro sp_elems.IH(1)) simp_all
  moreover have "parse_elems m d (u @ CHR '']'' # r) = Inr (vs, r)"
    using sp_elems.prems m by (intro sp_elems.IH(2)) simp_all
  ultimately show ?case using m sp_elems.hyps by (simp add: parse_elems.simps is_space_def)
next
  case (sp_member1 k v t w0 w1 w2 w3)
  from sp_member1.prems(1) obtain m where m: "n = Suc m" "2 * length t \<le> m" by (cases n) auto
  have "parse_value m d (w2 @ t @ w3 @ CHR ''}'' # r) = Inr (v, w3 @ CHR ''}'' # r)"
    using sp_member1.hyps sp_member1.prems m by (intro sp_member1.IH) simp_all
  moreover have "scan_str (k @ CHR 0x22 # q) = Inr (k, q)" for q
    using sp_member1.hyps(1) by (simp add: scan_str_Inr)
  ultimately show ?case using m sp_member1.hyps   by (simp add: parse_members.simps is_space_def)
next
  case (sp_members k v t w0 w1 w2 w3 ms u)
  from sp_members.prems(1) obtain m where m: "n = Suc m" "2 * length t \<le> m" "2 * length u < m" by (cases n) auto
  have "parse_value m d (w2 @ t @ w3 @ CHR '','' # u @ CHR ''}'' # r) = Inr (v, w3 @ CHR '','' # u @ CHR ''}'' # r)"
    using sp_members.hyps  sp_members.prems m by (intro sp_members.IH(1)) simp_all
  moreover have "parse_members m d (u @ CHR ''}'' # r) = Inr (ms, r)"
    using sp_members.prems m by (intro sp_members.IH(2)) simp_all
  moreover have "scan_str (k @ CHR 0x22 # q) = Inr (k, q)" for q
    using sp_members.hyps(1) by (simp add: scan_str_Inr)
  ultimately show ?case using m sp_members.hyps   by (simp add: parse_members.simps is_space_def)
qed

section \<open>One decoded value\<close>

text \<open>
  \<open>Decode\<close> on a reader that holds \<open>s\<close>: the first value and the unread input, or \<open>io.EOF\<close> when
  nothing but whitespace is left.
\<close>

definition json_decode :: "string \<Rightarrow> json_error + (jval \<times> string)" where
  "json_decode s = (if skip_ws s = [] then Inl JEOF else parse_value (Suc (2 * length s)) 0 s)"

lemma json_decode_Inr:
  assumes "delim r"
  shows "json_decode s = Inr (v, r) \<longleftrightarrow>
    (\<exists>w t. s = w @ t @ r \<and> ws w \<and> spells v t \<and> depth v \<le> maxNestingDepth)"
proof
  assume "json_decode s = Inr (v, r)"
  then show "\<exists>w t. s = w @ t @ r \<and> ws w \<and> spells v t \<and> depth v \<le> maxNestingDepth"
    using parse_sound(1) [of "Suc (2 * length s)" 0 s v r] by (auto simp: json_decode_def split: if_splits)
next
  assume "\<exists>w t. s = w @ t @ r \<and> ws w \<and> spells v t \<and> depth v \<le> maxNestingDepth"
  then obtain w t where s: "s = w @ t @ r" "ws w" "spells v t" "depth v \<le> maxNestingDepth" by blast
  with spells_head [OF s(3)] have "skip_ws s \<noteq> []" by auto
  with s assms parse_complete(1) [of v t w r "Suc (2 * length s)" 0]
  show "json_decode s = Inr (v, r)" by (simp add: json_decode_def)
qed

lemma json_decode_sound:
  "json_decode s = Inr (v, r) \<Longrightarrow>
    \<exists>w t. s = w @ t @ r \<and> ws w \<and> spells v t \<and> depth v \<le> maxNestingDepth"
  using parse_sound(1) [of "Suc (2 * length s)" 0 s v r] by (auto simp: json_decode_def split: if_splits)

end
