(* ===== verification/JsonDecoder.thy ===== *)
theory JsonDecoder
  imports Json
begin

text \<open>
  The parts of \<open>encoding/json\<close> the wire package calls: the token stream of a \<open>Decoder\<close>
  (\<open>Token\<close>, \<open>More\<close>, \<open>Decode\<close> to a raw message), the conversion of decoded values to Go strings,
  integers and structs with \<open>DisallowUnknownFields\<close>, and the compact text of \<open>Marshal\<close>.
  A \<open>json.RawMessage\<close> is represented by the value it spells; \<open>redecode\<close> shows that decoding any
  spelling again gives that value, so nothing is lost.
\<close>

section \<open>Numbers\<close>

text \<open>
  \<open>strconv.ParseFloat\<close>, as far as its range error goes: the digits of the mantissa, the digits after
  the point and the exponent, which Go stops accumulating at 10000. A magnitude of at least
  2^1024 - 2^970 rounds to infinity.
\<close>

definition digit_val :: "byte \<Rightarrow> nat" where
  "digit_val c = bv c - 48"

definition digits_val :: "string \<Rightarrow> nat" where
  "digits_val ds = foldl (\<lambda>a c. a * 10 + digit_val c) 0 ds"

definition exp_val :: "string \<Rightarrow> nat" where
  "exp_val ds = foldl (\<lambda>a c. if a < 10000 then a * 10 + digit_val c else a) 0 ds"

definition number_in_range :: "string \<Rightarrow> bool" where
  "number_in_range l =
     (let u = (case l of c # t \<Rightarrow> if c = CHR ''-'' then t else l | [] \<Rightarrow> []);
          ip = takeWhile is_digit u;
          r = dropWhile is_digit u;
          fp = (case r of c # t \<Rightarrow> if c = CHR ''.'' then takeWhile is_digit t else [] | [] \<Rightarrow> []);
          x = dropWhile (\<lambda>c. is_digit c \<or> c = CHR ''.'') r;
          neg = (case x of _ # d # _ \<Rightarrow> d = CHR ''-'' | _ \<Rightarrow> False);
          e = exp_val (filter is_digit x);
          m = digits_val (ip @ fp);
          up = (if neg then 0 else e);
          down = length fp + (if neg then e else 0);
          bound = 2 ^ 1024 - 2 ^ 970
      in m = 0 \<or> m * 10 ^ (up - down) < bound * 10 ^ (down - up))"

text \<open>\<open>strconv.ParseInt(s, 10, 64)\<close> on a JSON number.\<close>

definition parse_int64 :: "string \<Rightarrow> int option" where
  "parse_int64 l =
     (let neg = (case l of c # _ \<Rightarrow> c = CHR ''-'' | [] \<Rightarrow> False);
          ds = (if neg then tl l else l);
          n = (if neg then - int (digits_val ds) else int (digits_val ds))
      in if ds \<noteq> [] \<and> list_all is_digit ds \<and> - (2 ^ 63) \<le> n \<and> n < 2 ^ 63 then Some n else None)"

section \<open>The token stream\<close>

datatype tok_state =
    TopValue | ArrayStart | ArrayValue | ArrayComma
  | ObjectStart | ObjectKey | ObjectColon | ObjectValue | ObjectComma

record decoder =
  dec_buf :: string
  dec_state :: tok_state
  dec_stack :: "tok_state list"

lemma skip_ws_less: "skip_ws s = c # r \<Longrightarrow> length r < length s"
  using skip_ws_length [of s] by simp

datatype json_token = TDelim byte | TString string | TOther

definition NewDecoder :: "string \<Rightarrow> decoder" where
  "NewDecoder s = \<lparr>dec_buf = s, dec_state = TopValue, dec_stack = []\<rparr>"

fun tokenValueAllowed :: "tok_state \<Rightarrow> bool" where
  "tokenValueAllowed TopValue = True"
| "tokenValueAllowed ArrayStart = True"
| "tokenValueAllowed ArrayValue = True"
| "tokenValueAllowed ObjectValue = True"
| "tokenValueAllowed _ = False"

fun tokenValueEnd :: "tok_state \<Rightarrow> tok_state" where
  "tokenValueEnd ArrayStart = ArrayComma"
| "tokenValueEnd ArrayValue = ArrayComma"
| "tokenValueEnd ObjectValue = ObjectComma"
| "tokenValueEnd s = s"

text \<open>Leaving a container: the saved state, advanced past the value.\<close>

definition close_container :: "string \<Rightarrow> decoder \<Rightarrow> decoder" where
  "close_container r d =
     (case dec_stack d of
        [] \<Rightarrow> d\<lparr>dec_buf := r\<rparr>
      | st # stk \<Rightarrow> \<lparr>dec_buf = r, dec_state = tokenValueEnd st, dec_stack = stk\<rparr>)"

text \<open>Decoding a scalar into \<open>any\<close>: only a number can fail, by its range.\<close>

definition scalar_token :: "jval \<Rightarrow> json_error + json_token" where
  "scalar_token v =
     (case v of
        JNumber l \<Rightarrow> if number_in_range l then Inr TOther else Inl (JTypeError None)
      | JString b \<Rightarrow> (case unquote b of None \<Rightarrow> Inl JSyntax | Some s \<Rightarrow> Inr (TString s))
      | _ \<Rightarrow> Inr TOther)"

text \<open>\<open>Token\<close>; commas and colons are consumed on the way to the token they introduce.\<close>

function token :: "decoder \<Rightarrow> json_error + (json_token \<times> decoder)" where
  "token d =
     (case skip_ws (dec_buf d) of
        [] \<Rightarrow> Inl JEOF
      | c # r \<Rightarrow>
          (let st = dec_state d in
           if c = CHR ''['' \<or> c = CHR ''{'' then
             (if tokenValueAllowed st then
                Inr (TDelim c, \<lparr>dec_buf = r,
                  dec_state = (if c = CHR ''['' then ArrayStart else ObjectStart), dec_stack = st # dec_stack d\<rparr>)
              else Inl JSyntax)
           else if c = CHR '']'' then
             (if st = ArrayStart \<or> st = ArrayComma then Inr (TDelim c, close_container r d) else Inl JSyntax)
           else if c = CHR ''}'' then
             (if st = ObjectStart \<or> st = ObjectComma then Inr (TDelim c, close_container r d) else Inl JSyntax)
           else if c = CHR '':'' then
             (if st = ObjectColon then token (d\<lparr>dec_buf := r, dec_state := ObjectValue\<rparr>) else Inl JSyntax)
           else if c = CHR '','' then
             (if st = ArrayComma then token (d\<lparr>dec_buf := r, dec_state := ArrayValue\<rparr>)
              else if st = ObjectComma then token (d\<lparr>dec_buf := r, dec_state := ObjectKey\<rparr>)
              else Inl JSyntax)
           else if c = CHR 0x22 \<and> (st = ObjectStart \<or> st = ObjectKey) then
             (case scan_str r of
                Inl e \<Rightarrow> Inl e
              | Inr (b, r') \<Rightarrow>
                  (case unquote b of
                     None \<Rightarrow> Inl JSyntax
                   | Some k \<Rightarrow> Inr (TString k, d\<lparr>dec_buf := r', dec_state := ObjectColon\<rparr>)))
           else if \<not> tokenValueAllowed st then Inl JSyntax
           else
             (case scan_scalar (c # r) of
                Inl e \<Rightarrow> Inl e
              | Inr (v, r') \<Rightarrow>
                  (case scalar_token v of
                     Inl e \<Rightarrow> Inl e
                   | Inr t \<Rightarrow> Inr (t, d\<lparr>dec_buf := r', dec_state := tokenValueEnd st\<rparr>)))))"
  by pat_completeness auto
termination
  by (relation "measure (\<lambda>d. length (dec_buf d))") (simp_all add: skip_ws_less)

declare token.simps [simp del]

definition decoder_more :: "decoder \<Rightarrow> bool" where
  "decoder_more d =
     (case skip_ws (dec_buf d) of
        [] \<Rightarrow> False
      | c # _ \<Rightarrow> c \<noteq> CHR '']'' \<and> c \<noteq> CHR ''}'')"

text \<open>\<open>Decode\<close> of a raw message, which follows the same token states.\<close>

definition prepare_decode :: "decoder \<Rightarrow> json_error + decoder" where
  "prepare_decode d =
     (let want = (case dec_state d of ArrayComma \<Rightarrow> Some (CHR '','', ArrayValue)
                    | ObjectColon \<Rightarrow> Some (CHR '':'', ObjectValue) | _ \<Rightarrow> None)
      in case want of
           None \<Rightarrow> Inr d
         | Some (c, st) \<Rightarrow>
            (case skip_ws (dec_buf d) of
               [] \<Rightarrow> Inl JEOF
             | c' # r \<Rightarrow> if c' = c then Inr (d\<lparr>dec_buf := r, dec_state := st\<rparr>) else Inl JSyntax))"

definition decode_raw_message :: "decoder \<Rightarrow> json_error + (jval \<times> decoder)" where
  "decode_raw_message d =
     (case prepare_decode d of
        Inl e \<Rightarrow> Inl e
      | Inr d1 \<Rightarrow>
          if \<not> tokenValueAllowed (dec_state d1) then Inl JSyntax
          else case json_decode (dec_buf d1) of
            Inl e \<Rightarrow> Inl e
          | Inr (v, r) \<Rightarrow> Inr (v, d1\<lparr>dec_buf := r, dec_state := tokenValueEnd (dec_state d1)\<rparr>))"

section \<open>Structs\<close>

text \<open>
  The name matching of \<open>Unmarshal\<close>: exact, else case-folded. The field names are ASCII, so of the
  foldings of other runes only those to ASCII matter: U+017F to S and U+212A to K.
\<close>

definition upper_ascii :: "byte \<Rightarrow> byte" where
  "upper_ascii c = (if 97 \<le> bv c \<and> bv c \<le> 122 then char_of (bv c - 32) else c)"

fun fold_name :: "string \<Rightarrow> string" where
  "fold_name [] = []"
| "fold_name (c # s) =
     (case s of
        d # s' \<Rightarrow>
          if c = CHR 0xC5 \<and> d = CHR 0xBF then CHR ''S'' # fold_name s'
          else (case s' of
                  e # s'' \<Rightarrow>
                    if c = CHR 0xE2 \<and> d = CHR 0x84 \<and> e = CHR 0xAA then CHR ''K'' # fold_name s''
                    else upper_ascii c # fold_name s
                | [] \<Rightarrow> upper_ascii c # fold_name s)
      | [] \<Rightarrow> [upper_ascii c])"

text \<open>A destination field: its name and the assignment of a value to it.\<close>

type_synonym 'r setter = "string \<Rightarrow> jval \<Rightarrow> 'r \<Rightarrow> json_error + 'r"

definition find_field :: "(string \<times> 'r setter) list \<Rightarrow> string \<Rightarrow> (string \<times> 'r setter) option" where
  "find_field fs k =
     (case List.find (\<lambda>f. fst f = k) fs of
        Some f \<Rightarrow> Some f
      | None \<Rightarrow> List.find (\<lambda>f. fold_name (fst f) = fold_name k) fs)"

fun unmarshal_members ::
    "(string \<times> 'r setter) list \<Rightarrow> (string \<times> jval) list \<Rightarrow> 'r \<Rightarrow> json_error + 'r" where
  "unmarshal_members fs [] r = Inr r"
| "unmarshal_members fs ((b, v) # ms) r =
     (case unquote b of
        None \<Rightarrow> Inl JSyntax
      | Some k \<Rightarrow>
         (case find_field fs k of
            None \<Rightarrow> Inl JUnknownField
          | Some (name, set_field) \<Rightarrow>
             (case set_field name v r of
                Inl e \<Rightarrow> Inl e
              | Inr r' \<Rightarrow> unmarshal_members fs ms r')))"

definition unmarshal_struct :: "(string \<times> 'r setter) list \<Rightarrow> 'r \<Rightarrow> jval \<Rightarrow> json_error + 'r" where
  "unmarshal_struct fs zero v =
     (case v of
        JObject ms \<Rightarrow> unmarshal_members fs ms zero
      | JNull \<Rightarrow> Inr zero
      | _ \<Rightarrow> Inl (JTypeError None))"

definition unmarshal_string :: "jval \<Rightarrow> json_error + string" where
  "unmarshal_string v =
     (case v of
        JString b \<Rightarrow> (case unquote b of None \<Rightarrow> Inl JSyntax | Some s \<Rightarrow> Inr s)
      | JNull \<Rightarrow> Inr []
      | _ \<Rightarrow> Inl (JTypeError None))"

definition unmarshal_raw_list :: "jval \<Rightarrow> json_error + jval list" where
  "unmarshal_raw_list v =
     (case v of JArray vs \<Rightarrow> Inr vs | JNull \<Rightarrow> Inr [] | _ \<Rightarrow> Inl (JTypeError None))"

text \<open>Fields of type \<open>string\<close>, \<open>*string\<close>, \<open>*int\<close> and \<open>json.RawMessage\<close>.\<close>

definition string_field :: "(string \<Rightarrow> 'r \<Rightarrow> 'r) \<Rightarrow> 'r setter" where
  "string_field put name v r =
     (case v of
        JString b \<Rightarrow> (case unquote b of None \<Rightarrow> Inl JSyntax | Some s \<Rightarrow> Inr (put s r))
      | JNull \<Rightarrow> Inr r
      | _ \<Rightarrow> Inl (JTypeError (Some name)))"

definition string_ptr_field :: "(string option \<Rightarrow> 'r \<Rightarrow> 'r) \<Rightarrow> 'r setter" where
  "string_ptr_field put name v r =
     (case v of
        JString b \<Rightarrow> (case unquote b of None \<Rightarrow> Inl JSyntax | Some s \<Rightarrow> Inr (put (Some s) r))
      | JNull \<Rightarrow> Inr (put None r)
      | _ \<Rightarrow> Inl (JTypeError (Some name)))"

definition int_ptr_field :: "(int option \<Rightarrow> 'r \<Rightarrow> 'r) \<Rightarrow> 'r setter" where
  "int_ptr_field put name v r =
     (case v of
        JNumber l \<Rightarrow>
          (case parse_int64 l of None \<Rightarrow> Inl (JTypeError (Some name)) | Some n \<Rightarrow> Inr (put (Some n) r))
      | JNull \<Rightarrow> Inr (put None r)
      | _ \<Rightarrow> Inl (JTypeError (Some name)))"

definition raw_field :: "(jval option \<Rightarrow> 'r \<Rightarrow> 'r) \<Rightarrow> 'r setter" where
  "raw_field put name v r = Inr (put (Some v) r)"

section \<open>Compact text\<close>

fun join_comma :: "string list \<Rightarrow> string" where
  "join_comma [] = []"
| "join_comma [x] = x"
| "join_comma (x # xs) = x @ CHR '','' # join_comma xs"

fun compact :: "jval \<Rightarrow> string" where
  "compact JNull = ''null''"
| "compact (JBool b) = (if b then ''true'' else ''false'')"
| "compact (JNumber l) = l"
| "compact (JString b) = CHR 0x22 # b @ [CHR 0x22]"
| "compact (JArray vs) = CHR ''['' # join_comma (map compact vs) @ [CHR '']'']"
| "compact (JObject ms) =
     CHR ''{'' # join_comma (map (\<lambda>m. CHR 0x22 # fst m @ CHR 0x22 # CHR '':'' # compact (snd m)) ms) @ [CHR ''}'']"

section \<open>Spellings\<close>

text \<open>Every scanned literal has a value, so \<open>unquote\<close> cannot fail on decoded text.\<close>

lemma hex_value_any_is_hex: "is_hex c \<Longrightarrow> \<exists>n. hex_value_any c = Some n"
  by (auto simp: is_hex_def hex_value_any_def hex_value_def hex_digits_def)

lemma hex4_is_hex:
  assumes "list_all is_hex (take 4 s)" "\<not> length s < 4"
  shows "\<exists>n. hex4 s = Some n"
proof -
  from assms(2) obtain a b c d t where s: "s = a # b # c # d # t"
    by (cases s; cases "tl s"; cases "tl (tl s)"; cases "tl (tl (tl s))") auto
  with assms(1) have "is_hex a" "is_hex b" "is_hex c" "is_hex d" by simp_all
  then obtain w x y z where "hex_value_any a = Some w" "hex_value_any b = Some x"
    "hex_value_any c = Some y" "hex_value_any d = Some z"
    using hex_value_any_is_hex by metis
  with s show ?thesis by simp
qed

lemma str_body_plain: "plain_byte c \<Longrightarrow> str_body (c # b) \<Longrightarrow> str_body b"
  by (auto simp: str_body_def plain_byte_def scan_str.simps(2) split: sum.splits if_splits)

lemma str_body_plains: "list_all plain_byte p \<Longrightarrow> str_body (p @ b) \<Longrightarrow> str_body b"
  by (induction p) (auto dest: str_body_plain)

lemma str_body_bad: "str_body (c # b) \<Longrightarrow> plain_byte c \<or> c = CHR 0x5C"
  by (auto simp: str_body_def plain_byte_def scan_str.simps(2) split: if_splits)

lemma str_body_escape:
  assumes "str_body (CHR 0x5C # s)"
  shows "(\<exists>e b. s = e # b \<and> e \<noteq> CHR ''u'' \<and> escape_value e \<noteq> None \<and> str_body b) \<or>
    (\<exists>b. s = CHR ''u'' # b \<and> (\<exists>n. hex4 b = Some n) \<and> str_body (drop 4 b))"
proof (cases s)
  case Nil
  with assms show ?thesis by (simp add: str_body_def scan_str.simps(2) simple_escape_def)
next
  case (Cons e b)
  show ?thesis
  proof (cases "simple_escape e")
    case True
    then have "e \<noteq> CHR ''u''" "escape_value e \<noteq> None" by (auto simp: simple_escape_def)
    with assms Cons True show ?thesis
      by (auto simp: str_body_def scan_str.simps(2) split: sum.splits)
  next
    case False
    with assms Cons have e: "e = CHR ''u''" by (auto simp: str_body_def scan_str.simps(2) split: if_splits)
    let ?s = "b @ [CHR 0x22]"
    from assms Cons False e have h: "\<not> length ?s < 4" "list_all is_hex (take 4 ?s)"
      "scan_str (drop 4 ?s) \<noteq> Inl x" for x
      by (auto simp: str_body_def scan_str.simps(2) split: if_splits)
    have len: "\<not> length b < 4"
    proof
      assume "length b < 4"
      with h(1) have "take 4 ?s = ?s" by (intro take_all) simp
      with h(2) have "list_all is_hex ?s" by metis
      then show False by (simp add: is_hex_def)
    qed
    then have eq: "take 4 ?s = take 4 b" "drop 4 ?s = drop 4 b @ [CHR 0x22]" by simp_all
    with assms Cons False e h len obtain a where a: "scan_str (drop 4 b @ [CHR 0x22]) = Inr (a, [])"
      "take 4 b @ a = b"
      by (auto simp: str_body_def scan_str.simps(2) split: sum.splits)
    then have "take 4 b @ a = take 4 b @ drop 4 b" by simp
    then have "a = drop 4 b" by (simp only: same_append_eq)
    with a(1) have "str_body (drop 4 b)" by (simp add: str_body_def)
    moreover have "\<exists>n. hex4 b = Some n" using h(2) len by (intro hex4_is_hex) (simp_all add: eq)
    ultimately show ?thesis using Cons e by (intro disjI2 exI [of _ b] conjI) simp_all
  qed
qed

lemma second_half_skips:
  assumes "second_half r s = Some n" "str_body s"
  shows "str_body (drop 6 s)"
proof -
  from assms(1) obtain s' where s: "s = CHR 0x5C # CHR ''u'' # s'"
    by (cases "(r, s)" rule: second_half.cases) (auto split: if_splits)
  from str_body_escape [of "CHR ''u'' # s'"] assms(2) s show ?thesis by auto
qed

lemma unquote_str_body: "str_body b \<Longrightarrow> \<exists>s. unquote b = Some s"
proof (induction b rule: length_induct)
  case (1 b)
  then have ih: "\<exists>s. unquote t = Some s" if "length t < length b" "str_body t" for t
    using that by blast
  show ?case
  proof (cases b)
    case (Cons c q)
    show ?thesis
    proof (cases "c = CHR 0x5C")
      case True
      from 1(2) Cons True have "str_body (CHR 0x5C # q)" by simp
      from str_body_escape [OF this] show ?thesis
      proof (elim disjE exE conjE)
        fix e t assume q: "q = e # t" "e \<noteq> CHR ''u''" "escape_value e \<noteq> None" "str_body t"
        with ih [of t] Cons obtain s where s: "unquote t = Some s" by auto
        from q(3) obtain x where "escape_value e = Some x" by blast
        with q(1,2) s Cons True show ?thesis
          by (simp add: unquote.simps(2) del: escape_value.simps)
      next
        fix t r assume q: "q = CHR ''u'' # t" "hex4 t = Some r" "str_body (drop 4 t)"
        from Cons q(1) have "length (drop 4 t) < length b" by simp
        from ih [OF this q(3)] obtain s where s: "unquote (drop 4 t) = Some s" by blast
        show ?thesis
        proof (cases "second_half r (drop 4 t)")
          case None
          with q s Cons True show ?thesis by (auto simp: unquote.simps(2))
        next
          case (Some r')
          from second_half_skips [OF Some q(3)] have "str_body (drop 10 t)" by simp
          moreover from Cons q(1) have "length (drop 10 t) < length b" by simp
          ultimately obtain s' where "unquote (drop 10 t) = Some s'" using ih by blast
          with q s Some Cons True show ?thesis by (auto simp: unquote.simps(2))
        qed
      qed
    next
      case False
      with str_body_bad [of c q] 1(2) Cons have p: "plain_byte c" by simp
      then have pc: "\<not> (c = CHR 0x22 \<or> bv c < 32)" by (auto simp: plain_byte_def)
      show ?thesis
      proof (cases "mb_len b")
        case 0
        from str_body_plain [OF p] 1(2) Cons have "str_body q" by simp
        with ih [of q] Cons obtain s where "unquote q = Some s" by auto
        with 0 False pc Cons show ?thesis by (simp add: unquote.simps(2))
      next
        case (Suc n)
        have "list_all plain_byte (c # take n q)"
        proof (cases "bv c < 128")
          case True
          then have "n = 0" using Suc Cons by simp
          with p show ?thesis by simp
        next
          case False
          with mb_len_high [of c q n] Suc Cons show ?thesis by (auto simp: list_all_iff intro: high_plain)
        qed
        from str_body_plains [OF this, of "drop n q"] 1(2) Cons have "str_body (drop n q)" by simp
        moreover from Cons have "length (drop n q) < length b" by simp
        ultimately obtain s where "unquote (drop n q) = Some s" using ih by blast
        with Suc False pc Cons show ?thesis by (simp add: unquote.simps(2))
      qed
    qed
  qed simp
qed

text \<open>Values whose literals are well formed are those with a spelling; \<open>compact\<close> is one.\<close>

fun jval_ok :: "jval \<Rightarrow> bool" where
  "jval_ok (JNumber l) = num_lit l"
| "jval_ok (JString b) = str_body b"
| "jval_ok (JArray vs) = list_all jval_ok vs"
| "jval_ok (JObject ms) = list_all (\<lambda>m. str_body (fst m) \<and> jval_ok (snd m)) ms"
| "jval_ok _ = True"

lemma spells_jval_ok:
  "spells v t \<Longrightarrow> jval_ok v"
  "spells_elems vs t \<Longrightarrow> list_all jval_ok vs"
  "spells_members ms t \<Longrightarrow> list_all (\<lambda>m. str_body (fst m) \<and> jval_ok (snd m)) ms"
  by (induction rule: spells_spells_elems_spells_members.inducts) simp_all

lemma spells_elems_compact:
  "vs \<noteq> [] \<Longrightarrow> (\<And>v. v \<in> set vs \<Longrightarrow> spells v (compact v)) \<Longrightarrow> spells_elems vs (join_comma (map compact vs))"
proof (induction vs)
  case (Cons v vs)
  show ?case
  proof (cases vs)
    case Nil
    with Cons sp_elem1 [of v "compact v" "[]" "[]"] show ?thesis by simp
  next
    case (Cons u us)
    with Cons.IH Cons.prems(2) sp_elems [of v "compact v" "[]" "[]" vs] show ?thesis by simp
  qed
qed simp

lemma spells_members_compact:
  "ms \<noteq> [] \<Longrightarrow> (\<And>m. m \<in> set ms \<Longrightarrow> str_body (fst m) \<and> spells (snd m) (compact (snd m))) \<Longrightarrow>
   spells_members ms
     (join_comma (map (\<lambda>m. CHR 0x22 # fst m @ CHR 0x22 # CHR '':'' # compact (snd m)) ms))"
proof (induction ms)
  case (Cons m ms)
  obtain k v where m: "m = (k, v)" by fastforce
  show ?case
  proof (cases ms)
    case Nil
    with Cons m sp_member1 [of k v "compact v" "[]" "[]" "[]" "[]"] show ?thesis by simp
  next
    case (Cons u us)
    with Cons.IH Cons.prems(2) Cons.prems(2) [of m] m sp_members [of k v "compact v" "[]" "[]" "[]" "[]" ms] show ?thesis by simp
  qed
qed simp

lemma spells_compact: "jval_ok v \<Longrightarrow> spells v (compact v)"
proof (induction v rule: compact.induct)
  case (5 vs)
  then show ?case
    using sp_arr0 [of "[]"] sp_arr [OF spells_elems_compact, of vs] by (cases "vs = []") (auto simp: list_all_iff)
next
  case (6 ms)
  then have "\<And>m. m \<in> set ms \<Longrightarrow> str_body (fst m) \<and> spells (snd m) (compact (snd m))"
    by (auto simp: list_all_iff)
  then show ?case
    using sp_obj0 [of "[]"] sp_obj [OF spells_members_compact, of ms] by (cases "ms = []") auto
qed (auto simp: spells_simps)

lemma json_decode_spelling: "spells v t \<Longrightarrow> depth v \<le> maxNestingDepth \<Longrightarrow> delim r \<Longrightarrow> json_decode (t @ r) = Inr (v, r)"
  using json_decode_Inr [of r "t @ r" v] by (metis append_Nil ws_Nil)

lemma redecode: "spells v t \<Longrightarrow> depth v \<le> maxNestingDepth \<Longrightarrow> json_decode t = Inr (v, [])"
  using json_decode_spelling [of v t "[]"] by simp

end
