(* ===== verification/GoErrors.thy ===== *)
theory GoErrors
  imports Prelude
begin

text \<open>
  Go error values as the program builds and inspects them. An error is a tree: sentinels
  (\<open>errors.New\<close> values compared by identity), formatted errors with the operands of their
  \<open>%w\<close> verbs, \<open>errors.Join\<close>, the repository's wrapper types and errors that arrive from outside.
  \<open>err_is\<close> is \<open>errors.Is\<close> and \<open>err_as\<close> the pre-order search of \<open>errors.As\<close>. A text is a list of
  fragments, so that the verbs \<open>%q\<close> and \<open>%d\<close> keep their operands without a rendering.
\<close>

section \<open>Texts\<close>

datatype frag = Txt string | Quo string | Num int

type_synonym msg = "frag list"

section \<open>Error trees\<close>

datatype sentinel =
    AttestDenied | WireInvalid | WireUnsupported | ConfigInvalid
  | CtxCanceled | CtxDeadlineExceeded | ReplacedTarget | MissingContext

text \<open>
  What the code can observe of an error built outside the repository: its text, the sentinels its
  \<open>Is\<close> method answers to, what its \<open>Timeout()\<close> and \<open>Temporary()\<close> methods return where it has
  them, and whether it is a \<open>*net.OpError\<close>.
\<close>

record err_attrs =
  attr_text :: msg
  attr_is :: "sentinel list"
  attr_timeout :: "bool option"
  attr_temporary :: "bool option"
  attr_op_error :: bool

datatype goerr =
    Sentinel sentinel
  | Plain msg
  | Wrapf msg goerr msg
  | Wrapf2 msg goerr msg goerr msg
  | Join "goerr list"
  | SecretSafe msg goerr
  | Transient msg "goerr option" bool
  | Foreign err_attrs "goerr option"

type_synonym 'a result = "goerr + 'a"

fun sentinel_text :: "sentinel \<Rightarrow> msg" where
  "sentinel_text AttestDenied = [Txt ''attestation denied'']"
| "sentinel_text WireInvalid = [Txt ''invalid wire message'']"
| "sentinel_text WireUnsupported = [Txt ''unsupported wire message'']"
| "sentinel_text ConfigInvalid = [Txt ''invalid configuration'']"
| "sentinel_text CtxCanceled = [Txt ''context canceled'']"
| "sentinel_text CtxDeadlineExceeded = [Txt ''context deadline exceeded'']"
| "sentinel_text ReplacedTarget = [Txt ''instance was replaced'']"
| "sentinel_text MissingContext = [Txt ''incus client does not support request context'']"

fun join_lines :: "msg list \<Rightarrow> msg" where
  "join_lines [] = []"
| "join_lines [m] = m"
| "join_lines (m # ms) = m @ Txt (''\<newline>'') # join_lines ms"

text \<open>The \<open>Error()\<close> method.\<close>

fun err_text :: "goerr \<Rightarrow> msg" where
  "err_text (Sentinel s) = sentinel_text s"
| "err_text (Plain m) = m"
| "err_text (Wrapf a e b) = a @ err_text e @ b"
| "err_text (Wrapf2 a e b f c) = a @ err_text e @ b @ err_text f @ c"
| "err_text (Join es) = join_lines (map err_text es)"
| "err_text (SecretSafe m _) = m"
| "err_text (Transient m _ _) = m"
| "err_text (Foreign a _) = attr_text a"

text \<open>\<open>errors.Is(err, sentinel)\<close>.\<close>

fun err_is :: "goerr \<Rightarrow> sentinel \<Rightarrow> bool" where
  "err_is (Sentinel t) s \<longleftrightarrow> t = s"
| "err_is (Plain _) s \<longleftrightarrow> False"
| "err_is (Wrapf _ e _) s \<longleftrightarrow> err_is e s"
| "err_is (Wrapf2 _ e _ f _) s \<longleftrightarrow> err_is e s \<or> err_is f s"
| "err_is (Join es) s \<longleftrightarrow> list_ex (\<lambda>e. err_is e s) es"
| "err_is (SecretSafe _ e) s \<longleftrightarrow> err_is e s"
| "err_is (Transient _ e _) s \<longleftrightarrow> (case e of None \<Rightarrow> False | Some e' \<Rightarrow> err_is e' s)"
| "err_is (Foreign a e) s \<longleftrightarrow> s \<in> set (attr_is a) \<or> (case e of None \<Rightarrow> False | Some e' \<Rightarrow> err_is e' s)"

text \<open>\<open>errors.As\<close>: the first node, in pre-order, that the probe accepts.\<close>

definition or_else :: "'a option \<Rightarrow> 'a option \<Rightarrow> 'a option" where
  "or_else a b = (case a of None \<Rightarrow> b | Some x \<Rightarrow> Some x)"

lemma or_else_simps [simp]: "or_else None b = b" "or_else (Some x) b = Some x"
  by (simp_all add: or_else_def)

fun err_as :: "(goerr \<Rightarrow> 'a option) \<Rightarrow> goerr \<Rightarrow> 'a option" where
  "err_as p (Sentinel s) = p (Sentinel s)"
| "err_as p (Plain m) = p (Plain m)"
| "err_as p (Wrapf a e b) = or_else (p (Wrapf a e b)) (err_as p e)"
| "err_as p (Wrapf2 a e b f c) =
     or_else (p (Wrapf2 a e b f c)) (or_else (err_as p e) (err_as p f))"
| "err_as p (Join es) =
     or_else (p (Join es)) (foldr or_else (map (err_as p) es) None)"
| "err_as p (SecretSafe m e) = or_else (p (SecretSafe m e)) (err_as p e)"
| "err_as p (Transient m e t) =
     or_else (p (Transient m e t)) (case e of None \<Rightarrow> None | Some e' \<Rightarrow> err_as p e')"
| "err_as p (Foreign a e) =
     or_else (p (Foreign a e)) (case e of None \<Rightarrow> None | Some e' \<Rightarrow> err_as p e')"

text \<open>
  The methods of single nodes. \<open>context.DeadlineExceeded\<close> has \<open>Timeout()\<close> and \<open>Temporary()\<close>, both
  true; \<open>transientError\<close> is always temporary.
\<close>

fun node_timeout :: "goerr \<Rightarrow> bool option" where
  "node_timeout (Sentinel CtxDeadlineExceeded) = Some True"
| "node_timeout (Transient _ _ t) = Some t"
| "node_timeout (Foreign a _) = attr_timeout a"
| "node_timeout _ = None"

fun node_temporary :: "goerr \<Rightarrow> bool option" where
  "node_temporary (Sentinel CtxDeadlineExceeded) = Some True"
| "node_temporary (Transient _ _ _) = Some True"
| "node_temporary (Foreign a _) = attr_temporary a"
| "node_temporary _ = None"

text \<open>\<open>net.Error\<close> has both methods; its answer to \<open>Timeout()\<close>.\<close>

fun node_net_timeout :: "goerr \<Rightarrow> bool option" where
  "node_net_timeout e =
     (case node_temporary e of None \<Rightarrow> None | Some _ \<Rightarrow> node_timeout e)"

fun node_op_error :: "goerr \<Rightarrow> unit option" where
  "node_op_error (Foreign a _) = (if attr_op_error a then Some () else None)"
| "node_op_error _ = None"

text \<open>\<open>errors.Join\<close> drops nil errors and is nil when nothing is left.\<close>

definition errors_join :: "goerr option list \<Rightarrow> goerr option" where
  "errors_join es = (case List.map_filter id es of [] \<Rightarrow> None | es' \<Rightarrow> Some (Join es'))"

text \<open>\<open>isContextError\<close>, written alike in the packages that use it.\<close>

definition context_error :: "goerr \<Rightarrow> bool" where
  "context_error e \<longleftrightarrow> err_is e CtxCanceled \<or> err_is e CtxDeadlineExceeded"

section \<open>Classification lemmas\<close>

declare list_ex_iff [simp]

lemma errors_join_None [simp]: "errors_join es = None \<longleftrightarrow> (\<forall>e\<in>set es. e = None)"
  by (induction es) (auto simp: errors_join_def map_filter_def split: list.splits if_splits)

lemma map_filter_id_set: "set (List.map_filter id es) = {e. Some e \<in> set es}"
  by (induction es) (auto simp: map_filter_def)

lemma errors_join_is:
  "errors_join es = Some e \<Longrightarrow> err_is e s \<longleftrightarrow> (\<exists>x. Some x \<in> set es \<and> err_is x s)"
  using map_filter_id_set [of es]
  by (auto simp: errors_join_def split: list.splits)

lemma wrap_keeps_class [simp, err_simps]:
  "err_is (Wrapf a e b) = err_is e"
  "err_is (SecretSafe m e) = err_is e"
  by (auto simp: fun_eq_iff)

end
