(* ===== verification/WireDecode.thy ===== *)
theory WireDecode
  imports JsonDecoder GoErrors
begin

text \<open>
  The shared decoder of \<open>internal/wire\<close> (\<open>decode.go\<close>, \<open>errors.go\<close>): the size and UTF-8 bounds, the
  walk that rejects duplicate member names at every nesting, strict decoding into a struct, the
  type/version envelope and the size bound on encoding. \<open>decodeRaw_exact\<close> states what the walk
  accepts in terms of the grammar.
\<close>

section \<open>Errors and bounds\<close>

definition ErrInvalid :: goerr where
  "ErrInvalid = Sentinel WireInvalid"

definition ErrUnsupported :: goerr where
  "ErrUnsupported = Sentinel WireUnsupported"

definition invalid :: "string \<Rightarrow> goerr" where
  "invalid m = Wrapf [] ErrInvalid [Txt ('': '' @ m)]"

definition maxMessageSize :: nat where
  "maxMessageSize = 65536"

definition envelopeVersion :: int where
  "envelopeVersion = 1"

definition guestClaimsType :: string where
  "guestClaimsType = ''incus-guest-claims''"

definition guestClaimsVersion :: int where
  "guestClaimsVersion = 1"

definition configNonceType :: string where
  "configNonceType = ''incus-config-nonce''"

definition configNonceVersion :: int where
  "configNonceVersion = 1"

text \<open>The offset of a syntax error is not kept by the model.\<close>

definition wrapJSONError :: "json_error \<Rightarrow> goerr" where
  "wrapJSONError e =
     (case e of
        JEOF \<Rightarrow> invalid ''empty JSON message''
      | JSyntax \<Rightarrow> invalid ''invalid JSON at offset''
      | JTypeError (Some name) \<Rightarrow> invalid (''invalid type for field '' @ name)
      | JTypeError None \<Rightarrow> invalid ''invalid JSON type''
      | JUnknownField \<Rightarrow> invalid ''unknown field''
      | JUnexpectedEOF \<Rightarrow> invalid ''invalid JSON'')"

definition message_too_long :: goerr where
  "message_too_long = Wrapf [] ErrInvalid [Txt '': message exceeds '', Num (int maxMessageSize), Txt '' bytes'']"

text \<open>\<open>json.Marshal\<close> of the message structs cannot fail; \<open>v\<close> is the encoded value.\<close>

definition encodeMessage :: "jval \<Rightarrow> string result" where
  "encodeMessage v =
     (let raw = compact v in if length raw > maxMessageSize then Inl message_too_long else Inr raw)"

section \<open>Duplicate member names\<close>

definition requireJSONEOF :: "decoder \<Rightarrow> goerr option" where
  "requireJSONEOF d =
     (case decode_raw_message d of
        Inl JEOF \<Rightarrow> None
      | _ \<Rightarrow> Some (invalid ''trailing JSON data''))"

text \<open>
  The walk. The fuel bounds the recursion; \<open>walk_complete\<close> shows that twice the number of unread
  bytes is enough for everything the grammar allows, so running out never refuses a message.
\<close>

fun rejectDuplicateValue :: "nat \<Rightarrow> decoder \<Rightarrow> decoder result"
and rejectDuplicateObject :: "nat \<Rightarrow> string list \<Rightarrow> decoder \<Rightarrow> decoder result"
and rejectDuplicateArray :: "nat \<Rightarrow> decoder \<Rightarrow> decoder result"
where
  "rejectDuplicateValue 0 d = Inl ErrInvalid"
| "rejectDuplicateValue (Suc n) d =
     (case token d of
        Inl e \<Rightarrow> Inl (wrapJSONError e)
      | Inr (TDelim c, d') \<Rightarrow>
          if c = CHR ''{'' then rejectDuplicateObject n [] d'
          else if c = CHR ''['' then rejectDuplicateArray n d'
          else Inl (invalid ''invalid JSON delimiter'')
      | Inr (_, d') \<Rightarrow> Inr d')"
| "rejectDuplicateObject 0 seen d = Inl ErrInvalid"
| "rejectDuplicateObject (Suc n) seen d =
     (if decoder_more d then
        (case token d of
           Inl e \<Rightarrow> Inl (wrapJSONError e)
         | Inr (TString key, d') \<Rightarrow>
             if key \<in> set seen then Inl (invalid ''duplicate field'')
             else (case rejectDuplicateValue n d' of
                     Inl e \<Rightarrow> Inl e
                   | Inr d'' \<Rightarrow> rejectDuplicateObject n (key # seen) d'')
         | Inr (_, d') \<Rightarrow> Inl (invalid ''object key is not a string''))
      else
        (case token d of
           Inl e \<Rightarrow> Inl (wrapJSONError e)
         | Inr (_, d') \<Rightarrow> Inr d'))"
| "rejectDuplicateArray 0 d = Inl ErrInvalid"
| "rejectDuplicateArray (Suc n) d =
     (if decoder_more d then
        (case rejectDuplicateValue n d of
           Inl e \<Rightarrow> Inl e
         | Inr d' \<Rightarrow> rejectDuplicateArray n d')
      else
        (case token d of
           Inl e \<Rightarrow> Inl (wrapJSONError e)
         | Inr (_, d') \<Rightarrow> Inr d'))"

declare rejectDuplicateValue.simps [simp del] rejectDuplicateObject.simps [simp del]
  rejectDuplicateArray.simps [simp del]

definition walk_fuel :: "string \<Rightarrow> nat" where
  "walk_fuel raw = 2 * length raw + 2"

definition rejectDuplicateNames :: "string \<Rightarrow> goerr option" where
  "rejectDuplicateNames raw =
     (case rejectDuplicateValue (walk_fuel raw) (NewDecoder raw) of
        Inl e \<Rightarrow> Some e
      | Inr d \<Rightarrow> requireJSONEOF d)"

definition decodeRaw :: "string \<Rightarrow> string result" where
  "decodeRaw raw =
     (if length raw > maxMessageSize then Inl message_too_long
      else if \<not> utf8_valid raw then Inl (invalid ''message is not valid UTF-8'')
      else case rejectDuplicateNames raw of
        Some e \<Rightarrow> Inl e
      | None \<Rightarrow> Inr raw)"

section \<open>Strict decoding\<close>

text \<open>\<open>decodeStrict\<close> of a byte slice; \<open>unmarshal\<close> is the conversion of the destination type.\<close>

definition decodeStrict :: "(jval \<Rightarrow> json_error + 'r) \<Rightarrow> string \<Rightarrow> 'r result" where
  "decodeStrict unmarshal raw =
     (case json_decode raw of
        Inl e \<Rightarrow> Inl (wrapJSONError e)
      | Inr (v, rest) \<Rightarrow>
         (case unmarshal v of
            Inl e \<Rightarrow> Inl (wrapJSONError e)
          | Inr r \<Rightarrow>
             (case requireJSONEOF (NewDecoder rest) of
                Some e \<Rightarrow> Inl e
              | None \<Rightarrow> Inr r)))"

text \<open>\<open>decodeStrict\<close> of a raw message that an outer decoding kept (\<open>decodeStrict_redecode\<close>).\<close>

definition decodeStrictRaw :: "(jval \<Rightarrow> json_error + 'r) \<Rightarrow> jval \<Rightarrow> 'r result" where
  "decodeStrictRaw unmarshal v =
     (case unmarshal v of Inl e \<Rightarrow> Inl (wrapJSONError e) | Inr r \<Rightarrow> Inr r)"

definition decodeMessage :: "(jval \<Rightarrow> json_error + 'r) \<Rightarrow> string \<Rightarrow> 'r result" where
  "decodeMessage unmarshal raw =
     (case decodeRaw raw of
        Inl e \<Rightarrow> Inl e
      | Inr msg \<Rightarrow> decodeStrict unmarshal msg)"

record typedObject =
  to_type :: "string option"
  to_version :: "int option"
  to_data :: "jval option"

definition typedObject_fields :: "(string \<times> typedObject setter) list" where
  "typedObject_fields =
     [(''type'', string_ptr_field (\<lambda>x r. r\<lparr>to_type := x\<rparr>)),
      (''version'', int_ptr_field (\<lambda>x r. r\<lparr>to_version := x\<rparr>)),
      (''data'', raw_field (\<lambda>x r. r\<lparr>to_data := x\<rparr>))]"

definition requireVersion :: "int option \<Rightarrow> string \<Rightarrow> goerr option" where
  "requireVersion got what =
     (case got of
        None \<Rightarrow> Some (invalid (what @ '' version is required''))
      | Some n \<Rightarrow>
          if n \<noteq> 1 then Some (Wrapf [] ErrUnsupported [Txt ('': '' @ what @ '' version ''), Num n]) else None)"

definition requireType :: "string option \<Rightarrow> string \<Rightarrow> string \<Rightarrow> goerr option" where
  "requireType got want what =
     (case got of
        None \<Rightarrow> Some (invalid (what @ '' type is required''))
      | Some t \<Rightarrow>
          if t = [] then Some (invalid (what @ '' type is required''))
          else if t \<noteq> want then Some (Wrapf [] ErrUnsupported [Txt ('': unsupported '' @ what @ '' type'')])
          else None)"

definition requireNonEmpty :: "string \<Rightarrow> string \<Rightarrow> goerr option" where
  "requireNonEmpty value name = (if value = [] then Some (invalid (name @ '' is required'')) else None)"

definition decodeTypedObject :: "jval option \<Rightarrow> string \<Rightarrow> string \<Rightarrow> jval result" where
  "decodeTypedObject raw wantType what =
     (case raw of
        None \<Rightarrow> Inl (invalid (what @ '' is required''))
      | Some v \<Rightarrow>
         (case decodeStrictRaw
                 (unmarshal_struct typedObject_fields \<lparr>to_type = None, to_version = None, to_data = None\<rparr>) v of
            Inl e \<Rightarrow> Inl e
          | Inr obj \<Rightarrow>
             (case requireType (to_type obj) wantType what of
                Some e \<Rightarrow> Inl e
              | None \<Rightarrow>
                 (case requireVersion (to_version obj) what of
                    Some e \<Rightarrow> Inl e
                  | None \<Rightarrow>
                     (case to_data obj of
                        None \<Rightarrow> Inl (invalid (what @ '' data is required''))
                      | Some d \<Rightarrow> Inr d)))))"

section \<open>Tokens on spelled text\<close>

abbreviation dec :: "string \<Rightarrow> tok_state \<Rightarrow> tok_state list \<Rightarrow> decoder" where
  "dec b st stk \<equiv> \<lparr>dec_buf = b, dec_state = st, dec_stack = stk\<rparr>"

lemma token_ws: "ws w \<Longrightarrow> token (dec (w @ b) st stk) = token (dec b st stk)"
  by (subst (1 2) token.simps, cases "skip_ws b") (auto simp: close_container_def Let_def split: sum.splits option.splits list.splits)

lemma token_open:
  "tokenValueAllowed st \<Longrightarrow> token (dec (CHR ''['' # b) st stk) = Inr (TDelim (CHR ''[''), dec b ArrayStart (st # stk))"
  "tokenValueAllowed st \<Longrightarrow> token (dec (CHR ''{'' # b) st stk) = Inr (TDelim (CHR ''{''), dec b ObjectStart (st # stk))"
  by (simp_all add: token.simps is_space_def)

lemma token_close:
  "st = ArrayStart \<or> st = ArrayComma \<Longrightarrow>
   token (dec (CHR '']'' # b) st (st0 # stk)) = Inr (TDelim (CHR '']''), dec b (tokenValueEnd st0) stk)"
  "st = ObjectStart \<or> st = ObjectComma \<Longrightarrow>
   token (dec (CHR ''}'' # b) st (st0 # stk)) = Inr (TDelim (CHR ''}''), dec b (tokenValueEnd st0) stk)"
  by (auto simp add: token.simps is_space_def close_container_def)

lemma token_sep:
  "token (dec (CHR '','' # b) ArrayComma stk) = token (dec b ArrayValue stk)"
  "token (dec (CHR '','' # b) ObjectComma stk) = token (dec b ObjectKey stk)"
  "token (dec (CHR '':'' # b) ObjectColon stk) = token (dec b ObjectValue stk)"
  by (subst token.simps, simp add: is_space_def)+

definition key_text :: "string \<times> jval \<Rightarrow> string" where
  "key_text m = the (unquote (fst m))"

lemma unquote_key: "str_body k \<Longrightarrow> unquote k = Some (key_text (k, v))"
  using unquote_str_body [of k] by (auto simp: key_text_def)

lemma token_key:
  assumes "st = ObjectStart \<or> st = ObjectKey" "str_body k"
  shows "token (dec (CHR 0x22 # k @ CHR 0x22 # b) st stk) = Inr (TString (key_text (k, v)), dec b ObjectColon stk)"
proof -
  have "scan_str (k @ CHR 0x22 # b) = Inr (k, b)" using assms(2) by (simp add: scan_str_Inr)
  with assms(1) unquote_key [OF assms(2), of v] show ?thesis
    by (auto simp: token.simps is_space_def)
qed

text \<open>The values the walk lets through: distinct names after unquoting, numbers within range.\<close>

fun clean :: "jval \<Rightarrow> bool" where
  "clean (JNumber l) = number_in_range l"
| "clean (JArray vs) = list_all clean vs"
| "clean (JObject ms) = (distinct (map key_text ms) \<and> list_all (\<lambda>m. clean (snd m)) ms)"
| "clean _ = True"

lemma scalar_token_ok:
  assumes "spells v t" "scalar v" "clean v"
  shows "\<exists>k. scalar_token v = Inr k \<and> (\<forall>c. k \<noteq> TDelim c)"
proof (cases v)
  case (JString b)
  with assms unquote_str_body [of b] show ?thesis by (auto simp: spells_simps scalar_token_def)
qed (use assms in \<open>auto simp: scalar_token_def scalar_def\<close>)

lemma token_scalar:
  assumes "spells v t" "scalar v" "clean v" "delim r" "tokenValueAllowed st"
    "st \<noteq> ObjectStart" "st \<noteq> ObjectKey"
  shows "\<exists>k. token (dec (t @ r) st stk) = Inr (k, dec r (tokenValueEnd st) stk) \<and> (\<forall>c. k \<noteq> TDelim c)"
proof -
  from spells_head [OF assms(1)] obtain c q where t: "t = c # q" "\<not> is_space c" "c \<notin> set '',]}:''" by blast
  have sc: "scan_scalar (t @ r) = Inr (v, r)" using assms by (intro scan_scalar_complete)
  then have "c \<noteq> CHR ''['' \<and> c \<noteq> CHR ''{''" using t by (auto simp: scan_scalar_def is_digit_def)
  with sc t assms(5-7) scalar_token_ok [OF assms(1-3)] show ?thesis by (auto simp: token.simps)
qed

section \<open>What the walk accepts\<close>

lemma walk_ws: "ws w \<Longrightarrow> rejectDuplicateValue n (dec (w @ b) st stk) = rejectDuplicateValue n (dec b st stk)"
  by (cases n) (simp_all add: rejectDuplicateValue.simps token_ws)

lemma walk_sep:
  "rejectDuplicateValue n (dec (CHR '','' # b) ArrayComma stk) = rejectDuplicateValue n (dec b ArrayValue stk)"
  "rejectDuplicateValue n (dec (CHR '':'' # b) ObjectColon stk) = rejectDuplicateValue n (dec b ObjectValue stk)"
  by (cases n; simp add: rejectDuplicateValue.simps token_sep)+

lemma more_simps:
  "ws w \<Longrightarrow> decoder_more (dec (w @ b) st stk) = decoder_more (dec b st stk)"
  "\<not> is_space c \<Longrightarrow> decoder_more (dec (c # b) st stk) \<longleftrightarrow> c \<noteq> CHR '']'' \<and> c \<noteq> CHR ''}''"
  by (simp_all add: decoder_more_def)

lemma array_close:
  assumes "ws w" "0 < n" "st = ArrayStart \<or> st = ArrayComma"
  shows "rejectDuplicateArray n (dec (w @ CHR '']'' # r) st (st0 # stk)) = Inr (dec r (tokenValueEnd st0) stk)"
  using assms token_close(1) [OF assms(3), of r st0 stk]
  by (cases n) (simp_all add: rejectDuplicateArray.simps more_simps token_ws is_space_def)

lemma object_close:
  assumes "ws w" "0 < n" "st = ObjectStart \<or> st = ObjectComma"
  shows "rejectDuplicateObject n seen (dec (w @ CHR ''}'' # r) st (st0 # stk)) = Inr (dec r (tokenValueEnd st0) stk)"
  using assms token_close(2) [OF assms(3), of r st0 stk]
  by (cases n) (simp_all add: rejectDuplicateObject.simps more_simps token_ws is_space_def)

text \<open>One member of an object, entered at its key; \<open>p\<close> is the comma before it, if any.\<close>

lemma object_member:
  assumes "(st, p) = (ObjectStart, []) \<or> (st, p) = (ObjectComma, [CHR '',''])"
    "ws w0" "ws w1" "str_body k"
  shows "rejectDuplicateObject (Suc n) seen
      (dec (p @ w0 @ CHR 0x22 # k @ CHR 0x22 # w1 @ CHR '':'' # b) st stk) =
    (if key_text (k, v) \<in> set seen then Inl (invalid ''duplicate field'')
     else case rejectDuplicateValue n (dec b ObjectValue stk) of
       Inl e \<Rightarrow> Inl e
     | Inr d \<Rightarrow> rejectDuplicateObject n (key_text (k, v) # seen) d)"
proof -
  let ?b = "CHR 0x22 # k @ CHR 0x22 # w1 @ CHR '':'' # b"
  have "decoder_more (dec (p @ w0 @ ?b) st stk)"
    using assms by (auto simp: more_simps is_space_def)
  moreover have "token (dec (p @ w0 @ ?b) st stk) = Inr (TString (key_text (k, v)), dec (w1 @ CHR '':'' # b) ObjectColon stk)"
    using assms by (auto simp: token_ws token_sep token_key [OF _ assms(4)])
  ultimately show ?thesis
    using assms(3) by (simp add: rejectDuplicateObject.simps walk_ws walk_sep)
qed

lemma array_elem:
  assumes "(st, p, st') = (ArrayStart, [], ArrayStart) \<or> (st, p, st') = (ArrayComma, [CHR '',''], ArrayValue)"
    "ws w" "spells v t"
  shows "rejectDuplicateArray (Suc n) (dec (p @ w @ t @ b) st stk) =
    (case rejectDuplicateValue n (dec (t @ b) st' stk) of
       Inl e \<Rightarrow> Inl e
     | Inr d \<Rightarrow> rejectDuplicateArray n d)"
proof -
  from spells_head [OF assms(3)] obtain c q where t: "t = c # q" "\<not> is_space c" "c \<notin> set '',]}:''" by blast
  then have "decoder_more (dec (p @ w @ t @ b) st stk)"
    using assms by (auto simp: more_simps is_space_def)
  moreover have "rejectDuplicateValue n (dec (p @ w @ t @ b) st stk) = rejectDuplicateValue n (dec (t @ b) st' stk)"
    using assms by (auto simp: walk_ws walk_sep)
  ultimately show ?thesis by (simp add: rejectDuplicateArray.simps)
qed

lemma walk_scalar:
  assumes "spells v t" "scalar v" "clean v" "delim r" "tokenValueAllowed st" "0 < n"
  shows "rejectDuplicateValue n (dec (t @ r) st stk) = Inr (dec r (tokenValueEnd st) stk)"
proof -
  from assms(6) obtain m where n: "n = Suc m" by (cases n) auto
  have "st \<noteq> ObjectStart" "st \<noteq> ObjectKey" using assms(5) by auto
  from token_scalar [OF assms(1-5) this, of stk] obtain k where
    k: "token (dec (t @ r) st stk) = Inr (k, dec r (tokenValueEnd st) stk)" "\<forall>c. k \<noteq> TDelim c" by blast
  with n show ?thesis by (cases k) (simp_all add: rejectDuplicateValue.simps)
qed

lemma spells_nonempty: "spells v t \<Longrightarrow> 0 < length t"
  using spells_head [of v t] by auto

lemma walk_complete:
  "spells v t \<Longrightarrow> clean v \<Longrightarrow> delim r \<Longrightarrow> tokenValueAllowed st \<Longrightarrow> 2 * length t \<le> n \<Longrightarrow>
     rejectDuplicateValue n (dec (t @ r) st stk) = Inr (dec r (tokenValueEnd st) stk)"
  "spells_elems vs t \<Longrightarrow> list_all clean vs \<Longrightarrow> 2 * length t + 2 \<le> n \<Longrightarrow>
     (st, p) = (ArrayStart, []) \<or> (st, p) = (ArrayComma, [CHR '','']) \<Longrightarrow>
     rejectDuplicateArray n (dec (p @ t @ CHR '']'' # r) st (st0 # stk)) = Inr (dec r (tokenValueEnd st0) stk)"
  "spells_members ms t \<Longrightarrow> distinct (map key_text ms) \<Longrightarrow> list_all (\<lambda>m. clean (snd m)) ms \<Longrightarrow>
     set seen \<inter> key_text ` set ms = {} \<Longrightarrow> 2 * length t + 2 \<le> n \<Longrightarrow>
     (st, p) = (ObjectStart, []) \<or> (st, p) = (ObjectComma, [CHR '','']) \<Longrightarrow>
     rejectDuplicateObject n seen (dec (p @ t @ CHR ''}'' # r) st (st0 # stk)) = Inr (dec r (tokenValueEnd st0) stk)"
proof (induction arbitrary: n r st stk and n p r st st0 stk and n p r seen st st0 stk
    rule: spells_spells_elems_spells_members.inducts)
  case sp_null
  then show ?case by (intro walk_scalar [of JNull]) (simp_all add: scalar_def spells_simps)
next
  case sp_true
  then show ?case by (intro walk_scalar [of "JBool True"]) (simp_all add: scalar_def spells_simps)
next
  case sp_false
  then show ?case by (intro walk_scalar [of "JBool False"]) (simp_all add: scalar_def spells_simps)
next
  case (sp_num l)
  then have "0 < n" by (cases l) (auto simp: num_lit_def)
  with sp_num show ?case by (intro walk_scalar [of "JNumber l"]) (simp_all add: scalar_def spells_simps)
next
  case (sp_str b)
  then show ?case by (intro walk_scalar [of "JString b"]) (simp_all add: scalar_def spells_simps)
next
  case (sp_arr0 w)
  then obtain m where m: "n = Suc m" "0 < m" by (cases n) auto
  with sp_arr0 array_close [OF sp_arr0.hyps m(2), of ArrayStart r st stk]
  show ?case by (simp add: rejectDuplicateValue.simps token_open)
next
  case (sp_arr vs t)
  then obtain m where m: "n = Suc m" "2 * length t + 2 \<le> m" by (cases n) auto
  with sp_arr sp_arr.IH [of m ArrayStart "[]" r st stk]
  show ?case by (simp add: rejectDuplicateValue.simps token_open)
next
  case (sp_obj0 w)
  then obtain m where m: "n = Suc m" "0 < m" by (cases n) auto
  with sp_obj0 object_close [OF sp_obj0.hyps m(2), of ObjectStart "[]" r st stk]
  show ?case by (simp add: rejectDuplicateValue.simps token_open)
next
  case (sp_obj ms t)
  then obtain m where m: "n = Suc m" "2 * length t + 2 \<le> m" by (cases n) auto
  with sp_obj sp_obj.IH [of "[]" m ObjectStart "[]" r st stk]
  show ?case by (simp add: rejectDuplicateValue.simps token_open)
next
  case (sp_elem1 v t w1 w2)
  then obtain m where m: "n = Suc m" "2 * length t \<le> m" "0 < m" by (cases n) auto
  define st' where "st' = (if st = ArrayStart then ArrayStart else ArrayValue)"
  have st: "(st, p, st') = (ArrayStart, [], ArrayStart) \<or> (st, p, st') = (ArrayComma, [CHR '',''], ArrayValue)"
    using sp_elem1.prems st'_def by auto
  then have "rejectDuplicateValue m (dec (t @ w2 @ CHR '']'' # r) st' (st0 # stk)) = Inr (dec (w2 @ CHR '']'' # r) ArrayComma (st0 # stk))"
    using sp_elem1.IH [of "w2 @ CHR '']'' # r" st' m "st0 # stk"] sp_elem1.prems sp_elem1.hyps m by auto
  with array_elem [OF st sp_elem1.hyps(2,1), of m "w2 @ CHR '']'' # r" "st0 # stk"] m sp_elem1.hyps(3)
  show ?case by (simp add: array_close)
next
  case (sp_elems v t w1 w2 vs u)
  then obtain m where m: "n = Suc m" "2 * length t \<le> m" "2 * length u + 2 \<le> m" by (cases n) auto
  define st' where "st' = (if st = ArrayStart then ArrayStart else ArrayValue)"
  have st: "(st, p, st') = (ArrayStart, [], ArrayStart) \<or> (st, p, st') = (ArrayComma, [CHR '',''], ArrayValue)"
    using sp_elems.prems st'_def by auto
  let ?b = "w2 @ CHR '','' # u @ CHR '']'' # r"
  from st have "rejectDuplicateValue m (dec (t @ ?b) st' (st0 # stk)) = Inr (dec ?b ArrayComma (st0 # stk))"
    using sp_elems.IH(1) [of ?b st' m "st0 # stk"] sp_elems.prems sp_elems.hyps m by auto
  moreover have "rejectDuplicateArray m (dec ?b ArrayComma (st0 # stk)) = Inr (dec r (tokenValueEnd st0) stk)"
  proof -
    have "rejectDuplicateArray m (dec ?b ArrayComma (st0 # stk)) = rejectDuplicateArray m (dec (CHR '','' # u @ CHR '']'' # r) ArrayComma (st0 # stk))"
      using sp_elems.hyps(3) m by (cases m) (simp_all add: rejectDuplicateArray.simps more_simps walk_ws token_ws)
    also have "\<dots> = Inr (dec r (tokenValueEnd st0) stk)"
      using sp_elems.IH(2) [of m ArrayComma "[CHR '','']" r st0 stk] sp_elems.prems m by simp
    finally show ?thesis .
  qed
  ultimately show ?case
    using array_elem [OF st sp_elems.hyps(2,1), of m ?b "st0 # stk"] m by simp
next
  case (sp_member1 k v t w0 w1 w2 w3)
  then obtain m where m: "n = Suc m" "2 * length t \<le> m" "0 < m" by (cases n) auto
  have "rejectDuplicateValue m (dec (w2 @ t @ w3 @ CHR ''}'' # r) ObjectValue (st0 # stk)) = Inr (dec (w3 @ CHR ''}'' # r) ObjectComma (st0 # stk))"
    using sp_member1.IH [of "w3 @ CHR ''}'' # r" ObjectValue m "st0 # stk"] sp_member1.prems sp_member1.hyps m
    by (simp add: walk_ws)
  with object_member [OF sp_member1.prems(5) sp_member1.hyps(3,4,1), of m seen "w2 @ t @ w3 @ CHR ''}'' # r" "st0 # stk" v]
    sp_member1.prems sp_member1.hyps m
  show ?case by (simp add: object_close)
next
  case (sp_members k v t w0 w1 w2 w3 ms u)
  then obtain m where m: "n = Suc m" "2 * length t \<le> m" "2 * length u + 2 \<le> m" by (cases n) auto
  let ?b = "w3 @ CHR '','' # u @ CHR ''}'' # r"
  have "rejectDuplicateValue m (dec (w2 @ t @ ?b) ObjectValue (st0 # stk)) = Inr (dec ?b ObjectComma (st0 # stk))"
    using sp_members.IH(1) [of ?b ObjectValue m "st0 # stk"] sp_members.prems sp_members.hyps m
    by (simp add: walk_ws)
  moreover have "rejectDuplicateObject m (key_text (k, v) # seen) (dec ?b ObjectComma (st0 # stk)) = Inr (dec r (tokenValueEnd st0) stk)"
  proof -
    have "rejectDuplicateObject m (key_text (k, v) # seen) (dec ?b ObjectComma (st0 # stk))
        = rejectDuplicateObject m (key_text (k, v) # seen) (dec (CHR '','' # u @ CHR ''}'' # r) ObjectComma (st0 # stk))"
      using sp_members.hyps(6) m by (cases m) (simp_all add: rejectDuplicateObject.simps more_simps token_ws)
    also have "\<dots> = Inr (dec r (tokenValueEnd st0) stk)"
      using sp_members.IH(2) [of "key_text (k, v) # seen" m ObjectComma "[CHR '','']" r st0 stk]
        sp_members.prems m by auto
    finally show ?thesis .
  qed
  ultimately show ?case
    using object_member [OF sp_members.prems(5) sp_members.hyps(3,4,1), of m seen "w2 @ t @ ?b" "st0 # stk" v]
      sp_members.prems m by simp
qed

text \<open>Inversion of \<open>token\<close>, by the state it is called in.\<close>

lemma token_value_Inr:
  assumes "token (dec b st stk) = Inr (k, d)" "tokenValueAllowed st"
  shows "(\<exists>w r. ws w \<and> b = w @ CHR ''['' # r \<and> k = TDelim (CHR ''['') \<and> d = dec r ArrayStart (st # stk)) \<or>
    (\<exists>w r. ws w \<and> b = w @ CHR ''{'' # r \<and> k = TDelim (CHR ''{'') \<and> d = dec r ObjectStart (st # stk)) \<or>
    k = TDelim (CHR '']'') \<or>
    (\<exists>w t v r. ws w \<and> b = w @ t @ r \<and> spells v t \<and> clean v \<and> (\<forall>c. k \<noteq> TDelim c) \<and> d = dec r (tokenValueEnd st) stk)"
proof -
  from assms obtain c q where sk: "skip_ws b = c # q"
    by (auto simp: token.simps split: list.splits)
  then obtain w where w: "ws w" "b = w @ c # q" using skip_ws_SomeD by blast
  from assms(2) have st: "st \<noteq> ObjectColon" "st \<noteq> ObjectComma" "st \<noteq> ArrayComma" "st \<noteq> ObjectStart" "st \<noteq> ObjectKey"
    by auto
  consider "c = CHR ''[''" | "c = CHR ''{''" | "c = CHR '']''"
    | "c \<notin> set ''[{]''" by auto
  then show ?thesis
  proof cases
    case 4
    with assms sk st obtain v r where v: "scan_scalar (c # q) = Inr (v, r)" "scalar_token v = Inr k"
      "d = dec r (tokenValueEnd st) stk"
      by (auto simp: token.simps split: if_splits sum.splits)
    from scan_scalar_sound [OF v(1)] obtain t where t: "c # q = t @ r" "spells v t" "scalar v" by blast
    from v(2) t(3) have "clean v" "\<forall>c. k \<noteq> TDelim c"
      by (cases v; auto simp: scalar_def scalar_token_def split: if_splits option.splits)+
    with w t v show ?thesis by blast
  qed (use assms sk w in \<open>auto simp: token.simps split: if_splits\<close>)
qed

lemma token_end_Inr:
  assumes "token (dec b st (st0 # stk)) = Inr (k, d)" "\<not> decoder_more (dec b st (st0 # stk))"
  shows "st = ArrayStart \<or> st = ArrayComma \<Longrightarrow>
      \<exists>w r. ws w \<and> b = w @ CHR '']'' # r \<and> d = dec r (tokenValueEnd st0) stk"
    and "st = ObjectStart \<or> st = ObjectComma \<Longrightarrow>
      \<exists>w r. ws w \<and> b = w @ CHR ''}'' # r \<and> d = dec r (tokenValueEnd st0) stk"
proof -
  from assms obtain c q where sk: "skip_ws b = c # q"
    by (auto simp: token.simps split: list.splits)
  then obtain w where w: "ws w" "b = w @ c # q" using skip_ws_SomeD by blast
  from assms(2) sk have c: "c = CHR '']'' \<or> c = CHR ''}''" by (auto simp: decoder_more_def)
  show "\<exists>w r. ws w \<and> b = w @ CHR '']'' # r \<and> d = dec r (tokenValueEnd st0) stk" if "st = ArrayStart \<or> st = ArrayComma"
    using that assms(1) sk w c by (auto simp: token.simps close_container_def split: if_splits)
  show "\<exists>w r. ws w \<and> b = w @ CHR ''}'' # r \<and> d = dec r (tokenValueEnd st0) stk" if "st = ObjectStart \<or> st = ObjectComma"
    using that assms(1) sk w c by (auto simp: token.simps close_container_def split: if_splits)
qed

text \<open>A separator is what leaves a state that accepts no token.\<close>

lemma walk_comma_Inr:
  assumes "rejectDuplicateValue n (dec b ArrayComma stk) = Inr d"
  shows "\<exists>w r. ws w \<and> b = w @ CHR '','' # r \<and> rejectDuplicateValue n (dec r ArrayValue stk) = Inr d"
proof -
  from assms obtain m k d' where n: "n = Suc m" and k: "token (dec b ArrayComma stk) = Inr (k, d')"
    by (cases n) (auto simp: rejectDuplicateValue.simps split: sum.splits)
  then obtain c q where sk: "skip_ws b = c # q" by (auto simp: token.simps split: list.splits)
  then obtain w where w: "ws w" "b = w @ c # q" using skip_ws_SomeD by blast
  have "c = CHR '',''"
  proof (rule ccontr)
    assume "c \<noteq> CHR '',''"
    with k sk have "k = TDelim (CHR '']'')" by (auto simp: token.simps split: if_splits)
    with assms n k show False by (simp add: rejectDuplicateValue.simps)
  qed
  with assms w show ?thesis by (metis walk_ws walk_sep(1))
qed

lemma walk_colon_Inr:
  assumes "rejectDuplicateValue n (dec b ObjectColon stk) = Inr d"
  shows "\<exists>w r. ws w \<and> b = w @ CHR '':'' # r \<and> rejectDuplicateValue n (dec r ObjectValue stk) = Inr d"
proof -
  from assms obtain m k d' where n: "n = Suc m" and k: "token (dec b ObjectColon stk) = Inr (k, d')"
    by (cases n) (auto simp: rejectDuplicateValue.simps split: sum.splits)
  then obtain c q where sk: "skip_ws b = c # q" by (auto simp: token.simps split: list.splits)
  then obtain w where w: "ws w" "b = w @ c # q" using skip_ws_SomeD by blast
  have "c = CHR '':''" using k sk by (auto simp: token.simps split: if_splits)
  with assms w show ?thesis by (metis walk_ws walk_sep(2))
qed

lemma token_key_Inr:
  assumes "token (dec b st stk) = Inr (k, d)" "st = ObjectStart \<or> st = ObjectComma"
    "decoder_more (dec b st stk)"
  shows "\<exists>p w kb r. ((st, p) = (ObjectStart, []) \<or> (\<exists>w'. ws w' \<and> (st, p) = (ObjectComma, w' @ [CHR '','']))) \<and>
      ws w \<and> b = p @ w @ CHR 0x22 # kb @ CHR 0x22 # r \<and> str_body kb \<and> unquote kb = Some (key_text (kb, v)) \<and>
      k = TString (key_text (kb, v)) \<and> d = dec r ObjectColon stk"
proof -
  have key: "\<exists>w kb r. ws w \<and> b = w @ CHR 0x22 # kb @ CHR 0x22 # r \<and> str_body kb \<and>
      unquote kb = Some (key_text (kb, v)) \<and> k = TString (key_text (kb, v)) \<and> d = dec r ObjectColon stk"
    if t: "token (dec b st stk) = Inr (k, d)" "st = ObjectStart \<or> st = ObjectKey" "c \<noteq> CHR ''}''" "skip_ws b = c # q"
    for b st c q
  proof -
    from t(4) obtain w where w: "ws w" "b = w @ c # q" using skip_ws_SomeD by blast
    from t have c: "c = CHR 0x22" by (auto simp: token.simps split: if_splits)
    with t obtain kb r where kb: "scan_str q = Inr (kb, r)" by (auto simp: token.simps split: sum.splits)
    then have q: "str_body kb" "q = kb @ CHR 0x22 # r" by (simp_all add: scan_str_Inr)
    from unquote_key [OF q(1), of v] t c kb have "k = TString (key_text (kb, v))" "d = dec r ObjectColon stk"
      by (auto simp: token.simps)
    with w q c unquote_key [OF q(1), of v] show ?thesis by blast
  qed
  from assms(1) obtain c q where sk: "skip_ws b = c # q" by (auto simp: token.simps split: list.splits)
  then obtain w where w: "ws w" "b = w @ c # q" using skip_ws_SomeD by blast
  from assms(3) sk have c: "c \<noteq> CHR ''}''" by (simp add: decoder_more_def)
  show ?thesis
  proof (cases "st = ObjectStart")
    case True
    with key [OF assms(1) _ c sk] obtain w' kb r where "ws w'" "b = w' @ CHR 0x22 # kb @ CHR 0x22 # r"
      "str_body kb" "unquote kb = Some (key_text (kb, v))" "k = TString (key_text (kb, v))" "d = dec r ObjectColon stk"
      by blast
    with True show ?thesis by (intro exI [of _ "[]"] exI [of _ w'] exI [of _ kb] exI [of _ r]) simp
  next
    case False
    with assms have st: "st = ObjectComma" by simp
    with assms(1) sk c have comma: "c = CHR '',''" by (auto simp: token.simps split: if_splits)
    with w st assms(1) have t: "token (dec q ObjectKey stk) = Inr (k, d)" by (simp add: token_ws token_sep)
    then obtain c' q' where sk': "skip_ws q = c' # q'" by (auto simp: token.simps split: list.splits)
    with t have "c' \<noteq> CHR ''}''" by (auto simp: token.simps)
    from key [OF t _ this sk'] obtain w' kb r where "ws w'" "q = w' @ CHR 0x22 # kb @ CHR 0x22 # r"
      "str_body kb" "unquote kb = Some (key_text (kb, v))" "k = TString (key_text (kb, v))" "d = dec r ObjectColon stk"
      by blast
    with st w comma show ?thesis
      by (intro exI [of _ "w @ [CHR '','']"] exI [of _ w'] exI [of _ kb] exI [of _ r]) simp
  qed
qed

text \<open>The rest of a container: nothing more, or further elements after \<open>p\<close>, then the bracket.\<close>

definition array_rest :: "string \<Rightarrow> string \<Rightarrow> string \<Rightarrow> bool" where
  "array_rest p b r \<longleftrightarrow> (\<exists>w. ws w \<and> b = w @ CHR '']'' # r) \<or>
     (\<exists>w vs t. ws w \<and> (p = [] \<longrightarrow> w = []) \<and> b = w @ p @ t @ CHR '']'' # r \<and> spells_elems vs t \<and> list_all clean vs)"

definition object_rest :: "string \<Rightarrow> string list \<Rightarrow> string \<Rightarrow> string \<Rightarrow> bool" where
  "object_rest p seen b r \<longleftrightarrow> (\<exists>w. ws w \<and> b = w @ CHR ''}'' # r) \<or>
     (\<exists>w ms t. ws w \<and> (p = [] \<longrightarrow> w = []) \<and> b = w @ p @ t @ CHR ''}'' # r \<and> spells_members ms t \<and>
        distinct (map key_text ms) \<and> set seen \<inter> key_text ` set ms = {} \<and> list_all (\<lambda>m. clean (snd m)) ms)"

definition value_sound :: "nat \<Rightarrow> bool" where
  "value_sound n \<longleftrightarrow> (\<forall>b st stk d. rejectDuplicateValue n (dec b st stk) = Inr d \<longrightarrow> tokenValueAllowed st \<longrightarrow>
     (\<exists>w t v r. ws w \<and> b = w @ t @ r \<and> spells v t \<and> clean v \<and> d = dec r (tokenValueEnd st) stk))"

definition array_sound :: "nat \<Rightarrow> bool" where
  "array_sound n \<longleftrightarrow> (\<forall>b st p st0 stk d. rejectDuplicateArray n (dec b st (st0 # stk)) = Inr d \<longrightarrow>
     (st, p) = (ArrayStart, []) \<or> (st, p) = (ArrayComma, [CHR '','']) \<longrightarrow>
     (\<exists>r. d = dec r (tokenValueEnd st0) stk \<and> array_rest p b r))"

definition object_sound :: "nat \<Rightarrow> bool" where
  "object_sound n \<longleftrightarrow> (\<forall>b st p seen st0 stk d. rejectDuplicateObject n seen (dec b st (st0 # stk)) = Inr d \<longrightarrow>
     (st, p) = (ObjectStart, []) \<or> (st, p) = (ObjectComma, [CHR '','']) \<longrightarrow>
     (\<exists>r. d = dec r (tokenValueEnd st0) stk \<and> object_rest p seen b r))"

lemma value_step:
  assumes "array_sound n" "object_sound n"
  shows "value_sound (Suc n)"
  unfolding value_sound_def
proof (intro allI impI)
  fix b st stk d
  assume run: "rejectDuplicateValue (Suc n) (dec b st stk) = Inr d" and st: "tokenValueAllowed st"
  then obtain k d' where k: "token (dec b st stk) = Inr (k, d')"
    by (auto simp: rejectDuplicateValue.simps split: sum.splits)
  let ?goal = "\<exists>w t v r. ws w \<and> b = w @ t @ r \<and> spells v t \<and> clean v \<and> d = dec r (tokenValueEnd st) stk"
  from token_value_Inr [OF k st] show ?goal
  proof (elim disjE exE conjE)
    fix w q assume b: "ws w" "b = w @ CHR ''['' # q" and k': "k = TDelim (CHR ''['')" "d' = dec q ArrayStart (st # stk)"
    with run k have "rejectDuplicateArray n (dec q ArrayStart (st # stk)) = Inr d"
      by (simp add: rejectDuplicateValue.simps)
    with assms(1) obtain r where r: "d = dec r (tokenValueEnd st) stk" "array_rest [] q r"
      unfolding array_sound_def by blast
    then obtain t vs where "q = t @ CHR '']'' # r" "spells (JArray vs) (CHR ''['' # t @ [CHR '']''])" "clean (JArray vs)"
      unfolding array_rest_def using sp_arr0 sp_arr by fastforce
    with b r show ?goal
      by (intro exI [of _ w] exI [of _ "CHR ''['' # t @ [CHR '']'']"] exI [of _ "JArray vs"] exI [of _ r]) simp
  next
    fix w q assume b: "ws w" "b = w @ CHR ''{'' # q" and k': "k = TDelim (CHR ''{'')" "d' = dec q ObjectStart (st # stk)"
    with run k have "rejectDuplicateObject n [] (dec q ObjectStart (st # stk)) = Inr d"
      by (simp add: rejectDuplicateValue.simps)
    with assms(2) obtain r where r: "d = dec r (tokenValueEnd st) stk" "object_rest [] [] q r"
      unfolding object_sound_def by blast
    then obtain t ms where "q = t @ CHR ''}'' # r" "spells (JObject ms) (CHR ''{'' # t @ [CHR ''}''])" "clean (JObject ms)"
      unfolding object_rest_def using sp_obj0 sp_obj by fastforce
    with b r show ?goal
      by (intro exI [of _ w] exI [of _ "CHR ''{'' # t @ [CHR ''}'']"] exI [of _ "JObject ms"] exI [of _ r]) simp
  next
    assume "k = TDelim (CHR '']'')"
    with run k show ?goal by (simp add: rejectDuplicateValue.simps)
  next
    fix w t v r assume "ws w" "b = w @ t @ r" "spells v t" "clean v" "\<forall>c. k \<noteq> TDelim c" "d' = dec r (tokenValueEnd st) stk"
    moreover from this run k have "d = d'" by (cases k) (auto simp: rejectDuplicateValue.simps)
    ultimately show ?goal by blast
  qed
qed

lemma array_step:
  assumes "value_sound n" "array_sound n"
  shows "array_sound (Suc n)"
  unfolding array_sound_def
proof (intro allI impI)
  fix b st p st0 stk d
  assume run: "rejectDuplicateArray (Suc n) (dec b st (st0 # stk)) = Inr d"
    and st: "(st, p) = (ArrayStart, []) \<or> (st, p) = (ArrayComma, [CHR '',''])"
  show "\<exists>r. d = dec r (tokenValueEnd st0) stk \<and> array_rest p b r"
  proof (cases "decoder_more (dec b st (st0 # stk))")
    case False
    with run obtain k where k: "token (dec b st (st0 # stk)) = Inr (k, d)"
      by (auto simp: rejectDuplicateArray.simps split: sum.splits)
    have "st = ArrayStart \<or> st = ArrayComma" using st by auto
    from token_end_Inr(1) [OF k False this] show ?thesis unfolding array_rest_def by blast
  next
    case True
    with run obtain d' where d': "rejectDuplicateValue n (dec b st (st0 # stk)) = Inr d'" "rejectDuplicateArray n d' = Inr d"
      by (auto simp: rejectDuplicateArray.simps split: sum.splits)
    have "\<exists>w q st'. ws w \<and> (p = [] \<longrightarrow> w = []) \<and> b = w @ p @ q \<and> tokenValueAllowed st' \<and> tokenValueEnd st' = ArrayComma \<and>
        rejectDuplicateValue n (dec q st' (st0 # stk)) = Inr d'"
    proof (cases "st = ArrayStart")
      case True
      with st d' show ?thesis by (intro exI [of _ "[]"] exI [of _ b] exI [of _ ArrayStart]) simp
    next
      case False
      with st d' walk_comma_Inr [of n b "st0 # stk" d'] obtain w q where
        "ws w" "b = w @ CHR '','' # q" "rejectDuplicateValue n (dec q ArrayValue (st0 # stk)) = Inr d'" by blast
      with st False show ?thesis by (intro exI [of _ w] exI [of _ q] exI [of _ ArrayValue]) auto
    qed
    then obtain w q st' where w: "ws w" "p = [] \<longrightarrow> w = []" "b = w @ p @ q"
      and st': "tokenValueAllowed st'" "tokenValueEnd st' = ArrayComma"
      and q: "rejectDuplicateValue n (dec q st' (st0 # stk)) = Inr d'" by blast
    from assms(1) q st' obtain w1 t v r1 where v: "ws w1" "q = w1 @ t @ r1" "spells v t" "clean v"
      "d' = dec r1 ArrayComma (st0 # stk)" unfolding value_sound_def by metis
    with d' assms(2) obtain r where r: "d = dec r (tokenValueEnd st0) stk" "array_rest [CHR '',''] r1 r"
      unfolding array_sound_def by blast
    from r(2) obtain u us where "r1 = u @ CHR '']'' # r" "spells_elems (v # us) (w1 @ t @ u)" "list_all clean us"
      unfolding array_rest_def
    proof (elim disjE exE conjE)
      fix w assume "ws w" "r1 = w @ CHR '']'' # r"
      with sp_elem1 [OF v(3,1), of w] show ?thesis by (intro that [of w "[]"]) simp_all
    next
      fix w us q assume "ws w" "r1 = w @ [CHR '',''] @ q @ CHR '']'' # r" "spells_elems us q" "list_all clean us"
      with sp_elems [OF v(3,1), of w us q] show ?thesis by (intro that [of "w @ CHR '','' # q" us]) simp_all
    qed
    then have "array_rest p b r"
      unfolding array_rest_def using w v(2,4)
      by (intro disjI2 exI [of _ w] exI [of _ "v # us"] exI [of _ "w1 @ t @ u"]) simp
    with r(1) show ?thesis by blast
  qed
qed

lemma object_step:
  assumes "value_sound n" "object_sound n"
  shows "object_sound (Suc n)"
  unfolding object_sound_def
proof (intro allI impI)
  fix b st p seen st0 stk d
  assume run: "rejectDuplicateObject (Suc n) seen (dec b st (st0 # stk)) = Inr d"
    and st: "(st, p) = (ObjectStart, []) \<or> (st, p) = (ObjectComma, [CHR '',''])"
  then have st': "st = ObjectStart \<or> st = ObjectComma" by auto
  show "\<exists>r. d = dec r (tokenValueEnd st0) stk \<and> object_rest p seen b r"
  proof (cases "decoder_more (dec b st (st0 # stk))")
    case False
    with run obtain k where k: "token (dec b st (st0 # stk)) = Inr (k, d)"
      by (auto simp: rejectDuplicateObject.simps split: sum.splits)
    from token_end_Inr(2) [OF k False st'] show ?thesis unfolding object_rest_def by blast
  next
    case True
    with run obtain k d1 where k: "token (dec b st (st0 # stk)) = Inr (k, d1)"
      by (auto simp: rejectDuplicateObject.simps split: sum.splits)
    from token_key_Inr [OF k st' True, of JNull] obtain p' w0 kb r1 where
      key: "(st, p') = (ObjectStart, []) \<or> (\<exists>w'. ws w' \<and> (st, p') = (ObjectComma, w' @ [CHR '','']))"
        "ws w0" "b = p' @ w0 @ CHR 0x22 # kb @ CHR 0x22 # r1" "str_body kb"
        "k = TString (key_text (kb, JNull))" "d1 = dec r1 ObjectColon (st0 # stk)" by blast
    have kt: "key_text (kb, v) = key_text (kb, JNull)" for v by (simp add: key_text_def)
    let ?key = "key_text (kb, JNull)"
    from run True k key(5) obtain d2 where fresh: "?key \<notin> set seen"
      and d2: "rejectDuplicateValue n d1 = Inr d2" "rejectDuplicateObject n (?key # seen) d2 = Inr d"
      by (auto simp: rejectDuplicateObject.simps split: sum.splits if_splits)
    from walk_colon_Inr [of n r1 "st0 # stk" d2] d2(1) key(6) obtain w1 r2 where
      w1: "ws w1" "r1 = w1 @ CHR '':'' # r2" "rejectDuplicateValue n (dec r2 ObjectValue (st0 # stk)) = Inr d2" by auto
    from assms(1) w1(3) obtain w2 t v r3 where v: "ws w2" "r2 = w2 @ t @ r3" "spells v t" "clean v"
      "d2 = dec r3 ObjectComma (st0 # stk)" unfolding value_sound_def by (metis tokenValueAllowed.simps(4) tokenValueEnd.simps(3))
    with d2 assms(2) obtain r where r: "d = dec r (tokenValueEnd st0) stk" "object_rest [CHR '',''] (?key # seen) r3 r"
      unfolding object_sound_def by blast
    let ?pre = "w0 @ CHR 0x22 # kb @ CHR 0x22 # w1 @ CHR '':'' # w2 @ t"
    from r(2) obtain u us where us: "r3 = u @ CHR ''}'' # r" "spells_members ((kb, v) # us) (?pre @ u)"
      "distinct (map key_text us)" "set (?key # seen) \<inter> key_text ` set us = {}" "list_all (\<lambda>m. clean (snd m)) us"
      unfolding object_rest_def
    proof (elim disjE exE conjE)
      fix w assume "ws w" "r3 = w @ CHR ''}'' # r"
      with sp_member1 [OF key(4) v(3) key(2) w1(1) v(1), of w] show ?thesis
        by (intro that [of w "[]"]) simp_all
    next
      fix w ms q assume "ws w" "r3 = w @ [CHR '',''] @ q @ CHR ''}'' # r" "spells_members ms q"
        "distinct (map key_text ms)" "set (?key # seen) \<inter> key_text ` set ms = {}" "list_all (\<lambda>m. clean (snd m)) ms"
      with sp_members [OF key(4) v(3) key(2) w1(1) v(1), of w ms q] show ?thesis
        by (intro that [of "w @ CHR '','' # q" ms]) simp_all
    qed
    from key(1) st obtain w where w: "ws w" "p = [] \<longrightarrow> w = []" "p' = w @ p" by auto
    have "object_rest p seen b r"
      unfolding object_rest_def
      using w us key(3) w1(2) v(2,4) fresh kt [of v]
      by (intro disjI2 exI [of _ w] exI [of _ "(kb, v) # us"] exI [of _ "?pre @ u"]) auto
    with r(1) show ?thesis by blast
  qed
qed

lemma walk_sound: "value_sound n \<and> array_sound n \<and> object_sound n"
proof (induction n)
  case 0
  then show ?case
    by (simp add: value_sound_def array_sound_def object_sound_def rejectDuplicateValue.simps
        rejectDuplicateObject.simps rejectDuplicateArray.simps)
next
  case (Suc n)
  then show ?case using value_step array_step object_step by blast
qed

section \<open>Accepted messages\<close>

lemma bind_Inl:
  "(case x of Inl e \<Rightarrow> Inl e | Inr p \<Rightarrow> f p) = Inl e' \<longleftrightarrow> x = Inl e' \<or> (\<exists>p. x = Inr p \<and> f p = Inl e')"
  by (cases x) auto

lemma scan_str_not_EOF: "scan_str s \<noteq> Inl JEOF"
proof (induction s rule: scan_str.induct)
  case (2 c s)
  then show ?case
    by (cases s) (auto simp: scan_str.simps(2) bind_Inl simple_escape_def)
qed simp

lemma scan_word_not_EOF: "scan_word w s \<noteq> Inl JEOF"
  by (induction w s rule: scan_word.induct) auto

lemma scan_scalar_not_EOF: "scan_scalar s \<noteq> Inl JEOF"
proof -
  have "digits1 t \<noteq> Inl JEOF" "scan_int t \<noteq> Inl JEOF" for t
    by (auto simp: digits1_def scan_int_def split: list.split)
  then have "scan_frac t \<noteq> Inl JEOF" "scan_exp t \<noteq> Inl JEOF" "scan_int t \<noteq> Inl JEOF" for t
    by (auto simp: scan_frac_def scan_exp_def bind_Inl split: list.split)
  then have "scan_num s \<noteq> Inl JEOF"
    unfolding scan_num_def Let_def by (auto simp: bind_Inl split: prod.split)
  then show ?thesis
    using scan_str_not_EOF scan_word_not_EOF
    unfolding scan_scalar_def by (cases s) (auto simp: bind_Inl)
qed

lemma parse_not_EOF:
  "parse_value n d s \<noteq> Inl JEOF" "parse_elems n d s \<noteq> Inl JEOF" "parse_members n d s \<noteq> Inl JEOF"
proof (induction n d s and n d s and n d s rule: parse_value_parse_elems_parse_members.induct)
  case (2 n d s)
  show ?case
  proof (cases "skip_ws s")
    case (Cons c r)
    with 2 scan_scalar_not_EOF [of "c # r"] show ?thesis
      by (cases "skip_ws r") (auto simp: parse_value.simps bind_Inl)
  qed (simp add: parse_value.simps)
next
  case (4 n d s)
  show ?case
  proof (cases "parse_value n d s")
    case (Inr p)
    obtain v r where p: "p = (v, r)" by fastforce
    with Inr 4(2) show ?thesis by (cases "skip_ws r") (auto simp: parse_elems.simps bind_Inl)
  qed (use 4(1) in \<open>simp add: parse_elems.simps\<close>)
next
  case (6 n d s)
  show ?case
  proof
    assume e: "parse_members (Suc n) d s = Inl JEOF"
    then obtain r where sk: "skip_ws s = CHR 0x22 # r"
      by (auto simp: parse_members.simps split: list.splits if_splits)
    obtain k r1 where k: "scan_str r = Inr (k, r1)"
      using e sk scan_str_not_EOF [of r] by (cases "scan_str r") (auto simp: parse_members.simps)
    obtain r2 where sk1: "skip_ws r1 = CHR '':'' # r2"
      using e sk k by (auto simp: parse_members.simps split: list.splits if_splits)
    have "parse_value n d r2 \<noteq> Inl JEOF" using 6(1) sk k sk1 by simp
    then obtain v r3 where v: "parse_value n d r2 = Inr (v, r3)"
      using e sk k sk1 by (cases "parse_value n d r2") (auto simp: parse_members.simps)
    obtain c r4 where sk3: "skip_ws r3 = c # r4"
      using e sk k sk1 v by (auto simp: parse_members.simps split: list.splits)
    have "parse_members n d r4 = Inl JEOF \<and> c = CHR '',''"
      using e sk k sk1 v sk3 by (auto simp: parse_members.simps bind_Inl split: if_splits)
    with 6(2) sk k sk1 v sk3 show False by simp
  qed
qed (simp_all add: parse_value.simps parse_elems.simps parse_members.simps)

lemma json_decode_EOF: "json_decode s = Inl JEOF \<longleftrightarrow> ws s"
  using skip_ws_split [of s] skip_ws_append [of s "[]"]
  by (auto simp: json_decode_def parse_not_EOF)

lemma requireJSONEOF_None: "requireJSONEOF (dec r TopValue []) = None \<longleftrightarrow> ws r"
  by (auto simp: requireJSONEOF_def decode_raw_message_def prepare_decode_def json_decode_EOF [symmetric]
      split: sum.splits json_error.splits)

lemma delim_of_ws [simp]: "ws w \<Longrightarrow> delim w"
  using delim_ws [of w "[]"] by simp

text \<open>\<open>spelled v raw\<close>: the bytes are one spelling of \<open>v\<close>, up to whitespace around it.\<close>

definition spelled :: "jval \<Rightarrow> string \<Rightarrow> bool" where
  "spelled v raw \<longleftrightarrow> (\<exists>w t w'. raw = w @ t @ w' \<and> ws w \<and> ws w' \<and> spells v t)"

lemma rejectDuplicateNames_None:
  "rejectDuplicateNames raw = None \<longleftrightarrow> (\<exists>v. spelled v raw \<and> clean v)"
proof
  assume "rejectDuplicateNames raw = None"
  then obtain d where d: "rejectDuplicateValue (walk_fuel raw) (dec raw TopValue []) = Inr d" "requireJSONEOF d = None"
    by (auto simp: rejectDuplicateNames_def NewDecoder_def split: sum.splits)
  with walk_sound [of "walk_fuel raw"] obtain w t v r where
    "ws w" "raw = w @ t @ r" "spells v t" "clean v" "d = dec r TopValue []"
    unfolding value_sound_def by fastforce
  with d(2) show "\<exists>v. spelled v raw \<and> clean v" unfolding spelled_def by (auto simp: requireJSONEOF_None)
next
  assume "\<exists>v. spelled v raw \<and> clean v"
  then obtain w t w' v where v: "raw = w @ t @ w'" "ws w" "ws w'" "spells v t" "clean v"
    unfolding spelled_def by blast
  then have "rejectDuplicateValue (walk_fuel raw) (dec raw TopValue []) = Inr (dec w' TopValue [])"
    using walk_complete(1) [of v t w' TopValue "walk_fuel raw" "[]"] by (simp add: walk_ws walk_fuel_def)
  with v(3) show "rejectDuplicateNames raw = None"
    by (simp add: rejectDuplicateNames_def NewDecoder_def requireJSONEOF_None)
qed

lemma invalid_class [simp, err_simps]:
  "err_is (invalid m) s \<longleftrightarrow> s = WireInvalid" "err_is ErrInvalid s \<longleftrightarrow> s = WireInvalid"
  "err_is ErrUnsupported s \<longleftrightarrow> s = WireUnsupported" "err_is message_too_long s \<longleftrightarrow> s = WireInvalid"
  by (auto simp: invalid_def ErrInvalid_def ErrUnsupported_def message_too_long_def)

lemma wrapJSONError_class [simp, err_simps]: "err_is (wrapJSONError e) s \<longleftrightarrow> s = WireInvalid"
  by (auto simp: wrapJSONError_def split: json_error.splits option.splits)

lemma requireJSONEOF_class: "requireJSONEOF d = Some e \<Longrightarrow> err_is e s \<longleftrightarrow> s = WireInvalid"
  by (auto simp: requireJSONEOF_def split: sum.splits json_error.splits)

lemma walk_class:
  "rejectDuplicateValue n d = Inl e \<Longrightarrow> err_is e s \<longleftrightarrow> s = WireInvalid"
  "rejectDuplicateObject n seen d = Inl e \<Longrightarrow> err_is e s \<longleftrightarrow> s = WireInvalid"
  "rejectDuplicateArray n d = Inl e \<Longrightarrow> err_is e s \<longleftrightarrow> s = WireInvalid"
proof (induction n d and n seen d and n d rule: rejectDuplicateValue_rejectDuplicateObject_rejectDuplicateArray.induct)
  case (2 n d)
  then show ?case
    by (simp add: rejectDuplicateValue.simps split: sum.splits prod.splits json_token.splits if_splits) force+
next
  case (4 n seen d)
  then show ?case
    by (simp add: rejectDuplicateObject.simps split: sum.splits prod.splits json_token.splits if_splits) force+
next
  case (6 n d)
  then show ?case
    by (simp add: rejectDuplicateArray.simps split: sum.splits prod.splits if_splits) force+
qed (simp_all add: rejectDuplicateValue.simps rejectDuplicateObject.simps rejectDuplicateArray.simps)

lemma decodeRaw_Inr:
  "decodeRaw raw = Inr m \<longleftrightarrow>
     m = raw \<and> length raw \<le> maxMessageSize \<and> utf8_valid raw \<and> (\<exists>v. spelled v raw \<and> clean v)"
  by (auto simp: decodeRaw_def rejectDuplicateNames_None [symmetric] split: option.splits)

lemma decodeRaw_class: "decodeRaw raw = Inl e \<Longrightarrow> err_is e s \<longleftrightarrow> s = WireInvalid"
  using walk_class(1) requireJSONEOF_class
  by (fastforce simp: decodeRaw_def rejectDuplicateNames_def split: if_splits sum.splits option.splits)

lemma decodeStrict_Inr:
  "decodeStrict um raw = Inr r \<longleftrightarrow>
     (\<exists>v. spelled v raw \<and> depth v \<le> maxNestingDepth \<and> um v = Inr r)"
proof
  assume "decodeStrict um raw = Inr r"
  then obtain v rest where v: "json_decode raw = Inr (v, rest)" "um v = Inr r" "ws rest"
    by (auto simp: decodeStrict_def NewDecoder_def requireJSONEOF_None [symmetric] split: sum.splits option.splits)
  with json_decode_sound [OF v(1)] show "\<exists>v. spelled v raw \<and> depth v \<le> maxNestingDepth \<and> um v = Inr r"
    unfolding spelled_def by blast
next
  assume "\<exists>v. spelled v raw \<and> depth v \<le> maxNestingDepth \<and> um v = Inr r"
  then obtain v w t w' where v: "raw = w @ t @ w'" "ws w" "ws w'" "spells v t" "depth v \<le> maxNestingDepth" "um v = Inr r"
    unfolding spelled_def by blast
  then have "json_decode raw = Inr (v, w')" by (subst json_decode_Inr) auto
  moreover have "requireJSONEOF (dec w' TopValue []) = None" using v(3) by (simp add: requireJSONEOF_None)
  ultimately show "decodeStrict um raw = Inr r"
    using v(6) by (simp add: decodeStrict_def NewDecoder_def)
qed

lemma decodeStrict_class: "decodeStrict um raw = Inl e \<Longrightarrow> err_is e s \<longleftrightarrow> s = WireInvalid"
  by (auto simp: decodeStrict_def requireJSONEOF_class split: sum.splits option.splits)

lemma decodeStrictRaw_class: "decodeStrictRaw um v = Inl e \<Longrightarrow> err_is e s \<longleftrightarrow> s = WireInvalid"
  by (auto simp: decodeStrictRaw_def split: sum.splits)

text \<open>A raw message may be kept as its value: its bytes decode to that value again.\<close>

lemma spelled_unique:
  assumes "spelled v raw" "spelled v' raw" "depth v \<le> maxNestingDepth" "depth v' \<le> maxNestingDepth"
  shows "v = v'"
proof -
  from assms(1) obtain w t w' where 1: "raw = w @ t @ w'" "ws w" "ws w'" "spells v t" unfolding spelled_def by blast
  from assms(2) obtain u q u' where 2: "raw = u @ q @ u'" "ws u" "ws u'" "spells v' q" unfolding spelled_def by blast
  have "json_decode raw = Inr (v, w')" using 1 assms(3) by (subst json_decode_Inr) auto
  moreover have "json_decode raw = Inr (v', u')" using 2 assms(4) by (subst json_decode_Inr) auto
  ultimately show ?thesis by simp
qed

lemma decodeStrict_redecode:
  assumes "spells v t" "depth v \<le> maxNestingDepth"
  shows "decodeStrict um t = decodeStrictRaw um v"
proof -
  have "requireJSONEOF (dec [] TopValue []) = None" by (simp add: requireJSONEOF_None)
  with redecode [OF assms] show ?thesis
    by (simp add: decodeStrict_def decodeStrictRaw_def NewDecoder_def split: sum.splits)
qed

lemma decodeMessage_Inr:
  "decodeMessage um raw = Inr r \<longleftrightarrow>
     length raw \<le> maxMessageSize \<and> utf8_valid raw \<and> (\<exists>v. spelled v raw \<and> clean v) \<and>
     (\<exists>v. spelled v raw \<and> depth v \<le> maxNestingDepth \<and> um v = Inr r)"
proof (cases "decodeRaw raw")
  case (Inl e)
  with decodeRaw_Inr [of raw raw] show ?thesis by (auto simp: decodeMessage_def)
next
  case (Inr m)
  with decodeRaw_Inr [of raw m] show ?thesis by (simp add: decodeMessage_def decodeStrict_Inr)
qed

lemma decodeMessage_class: "decodeMessage um raw = Inl e \<Longrightarrow> err_is e s \<longleftrightarrow> s = WireInvalid"
  by (auto simp: decodeMessage_def decodeRaw_class decodeStrict_class split: sum.splits)

end
