(* ===== verification/JsonMembers.thy ===== *)
theory JsonMembers
  imports JsonDecoder
begin

text \<open>
  What decoding an object into a struct amounts to, without the setters of the fields: the values given
  to a field are those of the members whose name folds to the name of the field, in the order of the
  text, and the last of them counts (for a field of type \<open>string\<close>, the last that is not null).
\<close>

section \<open>The members of a field\<close>

definition names_field :: "string \<Rightarrow> string \<Rightarrow> bool" where
  "names_field f b \<longleftrightarrow> (\<exists>k. unquote b = Some k \<and> fold_name k = fold_name f)"

definition member_values :: "string \<Rightarrow> (string \<times> jval) list \<Rightarrow> jval list" where
  "member_values f ms = map snd (filter (\<lambda>m. names_field f (fst m)) ms)"

definition last_member :: "string \<Rightarrow> (string \<times> jval) list \<Rightarrow> jval option" where
  "last_member f ms = (if member_values f ms = [] then None else Some (last (member_values f ms)))"

definition only_members :: "string list \<Rightarrow> (string \<times> jval) list \<Rightarrow> bool" where
  "only_members names ms \<longleftrightarrow> (\<forall>m\<in>set ms. \<exists>f\<in>set names. names_field f (fst m))"

definition int_value :: "jval \<Rightarrow> int option" where
  "int_value v = (case v of JNumber l \<Rightarrow> parse_int64 l | _ \<Rightarrow> None)"

definition string_value :: "jval \<Rightarrow> string option" where
  "string_value v = (case v of JString b \<Rightarrow> unquote b | _ \<Rightarrow> None)"

definition string_or_empty :: "jval \<Rightarrow> string" where
  "string_or_empty v = (case string_value v of Some s \<Rightarrow> s | None \<Rightarrow> [])"

definition last_string :: "string \<Rightarrow> (string \<times> jval) list \<Rightarrow> string" where
  "last_string f ms =
     (let vs = filter (\<lambda>v. v \<noteq> JNull) (member_values f ms)
      in if vs = [] then [] else string_or_empty (last vs))"

lemma member_values_simps [simp]:
  "member_values f [] = []"
  "names_field f b \<Longrightarrow> member_values f ((b, v) # ms) = v # member_values f ms"
  "\<not> names_field f b \<Longrightarrow> member_values f ((b, v) # ms) = member_values f ms"
  by (simp_all add: member_values_def)

lemma fold_last: "fold (\<lambda>v _. g v) vs x = (if vs = [] then x else g (last vs))"
  by (induction vs arbitrary: x) auto

lemma fold_last_nonnull:
  "fold (\<lambda>v x. if v = JNull then x else g v) vs x =
     (if filter (\<lambda>v. v \<noteq> JNull) vs = [] then x else g (last (filter (\<lambda>v. v \<noteq> JNull) vs)))"
  by (induction vs arbitrary: x) auto

definition set_string :: "jval \<Rightarrow> string \<Rightarrow> string" where
  "set_string v x = (if v = JNull then x else string_or_empty v)"

lemma last_string_fold: "fold set_string (member_values f ms) [] = last_string f ms"
  using fold_last_nonnull [of string_or_empty "member_values f ms" "[]"]
  by (simp add: set_string_def [abs_def] last_string_def Let_def)

section \<open>Fields by their folded names\<close>

lemma find_unique:
  "x \<in> set xs \<Longrightarrow> P x \<Longrightarrow> \<forall>y\<in>set xs. P y \<longrightarrow> y = x \<Longrightarrow> List.find P xs = Some x"
proof (induction xs)
  case (Cons y ys)
  show ?case
  proof (cases "P y")
    case True
    then have "y = x" using Cons.prems(3) by simp
    with True show ?thesis by simp
  next
    case False
    then have "x \<in> set ys" using Cons.prems(1,2) by auto
    moreover have "\<forall>y\<in>set ys. P y \<longrightarrow> y = x" using Cons.prems(3) unfolding list.set(2) by blast
    ultimately have "List.find P ys = Some x" using Cons.IH Cons.prems(2) by blast
    with False show ?thesis by simp
  qed
qed simp

lemma folded_inj:
  "distinct (map (fold_name \<circ> fst) fs) \<Longrightarrow> x \<in> set fs \<Longrightarrow> y \<in> set fs \<Longrightarrow> fold_name (fst x) = fold_name (fst y) \<Longrightarrow> x = y"
  unfolding distinct_map by (elim conjE, erule inj_onD [of "fold_name \<circ> fst"]) simp_all

lemma find_field_fold:
  assumes "distinct (map (fold_name \<circ> fst) fs)"
  shows "find_field fs k = Some fd \<longleftrightarrow> fd \<in> set fs \<and> fold_name (fst fd) = fold_name k"
proof -
  have inj: "x = y" if "x \<in> set fs" "y \<in> set fs" "fold_name (fst x) = fold_name (fst y)" for x y
    using folded_inj [OF assms that] .
  have found: "List.find (\<lambda>f. fold_name (fst f) = fold_name k) fs = Some x"
    if "x \<in> set fs" "fold_name (fst x) = fold_name k" for x
    
  proof (rule find_unique [OF that(1)])
    show "\<forall>y\<in>set fs. fold_name (fst y) = fold_name k \<longrightarrow> y = x"
    proof (intro ballI impI)
      fix y
      assume "y \<in> set fs" "fold_name (fst y) = fold_name k"
      then show "y = x" using inj [of y x] that by simp
    qed
  qed (rule that(2))
  show ?thesis
  proof (cases "List.find (\<lambda>f. fst f = k) fs")
    case None
    have "find_field fs k = List.find (\<lambda>f. fold_name (fst f) = fold_name k) fs" using None by (simp add: find_field_def)
    moreover have "List.find (\<lambda>f. fold_name (fst f) = fold_name k) fs = Some fd \<Longrightarrow> fd \<in> set fs \<and> fold_name (fst fd) = fold_name k"
      by (auto simp: find_Some_iff)
    ultimately show ?thesis using found [of fd] by metis
  next
    case (Some x)
    then have x: "x \<in> set fs" "fst x = k" by (auto simp: find_Some_iff)
    moreover have "find_field fs k = Some x" using Some by (simp add: find_field_def)
    ultimately show ?thesis using inj [of x fd] by auto
  qed
qed

text \<open>
  A struct decoded member by member: the value \<open>get\<close> reads of one field is the fold of its values, and
  every member belongs to a field.
\<close>

lemma unmarshal_members_get:
  assumes names: "distinct (map (fold_name \<circ> fst) fs)" and f: "(f, setf) \<in> set fs"
    and own: "\<And>v r r'. setf f v r = Inr r' \<Longrightarrow> get r' = upd v (get r)"
    and other: "\<And>g setg v r r'. (g, setg) \<in> set fs \<Longrightarrow> g \<noteq> f \<Longrightarrow> setg g v r = Inr r' \<Longrightarrow> get r' = get r"
    and run: "unmarshal_members fs ms r = Inr r'"
  shows "get r' = fold upd (member_values f ms) (get r)"
  using run
proof (induction ms arbitrary: r)
  case (Cons m ms)
  obtain b v where m: "m = (b, v)" by fastforce
  from Cons.prems m obtain k where k: "unquote b = Some k" by (auto split: option.splits)
  from Cons.prems m k obtain g setg where g: "find_field fs k = Some (g, setg)" by (cases "find_field fs k") auto
  then have gs: "(g, setg) \<in> set fs" "fold_name g = fold_name k" by (auto simp: find_field_fold [OF names])
  from Cons.prems m k g obtain r1 where r1: "setg g v r = Inr r1" "unmarshal_members fs ms r1 = Inr r'"
    by (auto split: sum.splits)
  from Cons.IH [OF r1(2)] have rest: "get r' = fold upd (member_values f ms) (get r1)" .
  have uniq: "g = f \<and> setg = setf" if "fold_name g = fold_name f"
  proof -
    have "(g, setg) = (f, setf)" by (rule folded_inj [OF names gs(1) f]) (simp add: that)
    then show ?thesis by simp
  qed
  show ?case
  proof (cases "names_field f b")
    case True
    then have "fold_name g = fold_name f" using k gs(2) by (auto simp: names_field_def)
    with uniq r1(1) own have "get r1 = upd v (get r)" by auto
    with rest True m show ?thesis by simp
  next
    case False
    then have "g \<noteq> f" using k gs(2) by (auto simp: names_field_def)
    with other gs(1) r1(1) have "get r1 = get r" by blast
    with rest False m show ?thesis by simp
  qed
qed simp

lemma unmarshal_members_only:
  assumes names: "distinct (map (fold_name \<circ> fst) fs)"
  shows "unmarshal_members fs ms r = Inr r' \<Longrightarrow> only_members (map fst fs) ms"
proof (induction ms arbitrary: r)
  case (Cons m ms)
  obtain b v where m: "m = (b, v)" by fastforce
  from Cons.prems m obtain k where k: "unquote b = Some k" by (auto split: option.splits)
  from Cons.prems m k obtain g setg where g: "find_field fs k = Some (g, setg)" by (cases "find_field fs k") auto
  then have "(g, setg) \<in> set fs" "fold_name g = fold_name k" by (auto simp: find_field_fold [OF names])
  then have "\<exists>f\<in>set (map fst fs). names_field f b" using k by (force simp: names_field_def)
  moreover from Cons.prems m k g obtain r1 where "unmarshal_members fs ms r1 = Inr r'" by (auto split: sum.splits)
  ultimately show ?case using Cons.IH m by (auto simp: only_members_def)
qed (simp add: only_members_def)

section \<open>The kinds of fields\<close>

lemma int_ptr_field_Inr: "int_ptr_field put f v r = Inr r' \<Longrightarrow> r' = put (int_value v) r"
  by (auto simp: int_ptr_field_def int_value_def split: jval.splits option.splits)

lemma string_ptr_field_Inr: "string_ptr_field put f v r = Inr r' \<Longrightarrow> r' = put (string_value v) r"
  by (auto simp: string_ptr_field_def string_value_def split: jval.splits option.splits)

lemma string_field_Inr:
  "string_field put f v r = Inr r' \<longleftrightarrow>
     v = JNull \<and> r' = r \<or> (\<exists>s. string_value v = Some s \<and> r' = put s r)"
  by (cases v) (auto simp: string_field_def string_value_def split: option.splits)

lemma string_field_set: "string_field put f v r = Inr r' \<Longrightarrow> (\<And>x. get (put x r) = x) \<Longrightarrow> get r' = set_string v (get r)"
  by (auto simp: string_field_Inr set_string_def string_or_empty_def string_value_def)

lemma string_field_same: "string_field put f v r = Inr r' \<Longrightarrow> (\<And>x. get (put x r) = get r) \<Longrightarrow> get r' = get r"
  by (auto simp: string_field_Inr)

end
