(* ===== verification/UuidLib.thy ===== *)
theory UuidLib
  imports GoErrors Encodings
begin

text \<open>
  The third-party package \<open>github.com/google/uuid\<close>, which is not part of the repository, as a
  parameter: \<open>uuid_parse\<close> is its \<open>Parse\<close> (to a 16-byte value) and \<open>uuid_text\<close> the \<open>String\<close> method.
  \<open>uuid_laws\<close> states the documented facts the program relies on. \<open>ref_uuid\<close>, which accepts the
  36-character form in either case, shows that the laws can hold; the witnesses use it.
\<close>

record uuid_lib =
  uuid_parse :: "string \<Rightarrow> string result"
  uuid_text :: "string \<Rightarrow> string"

definition uuid_laws :: "uuid_lib \<Rightarrow> bool" where
  "uuid_laws ul \<longleftrightarrow>
     (\<forall>s u. uuid_parse ul s = Inr u \<longrightarrow> length u = 16) \<and>
     (\<forall>u. length u = 16 \<longrightarrow> uuid_parse ul (uuid_text ul u) = Inr u \<and>
        length (uuid_text ul u) = 36 \<and> set (uuid_text ul u) \<subseteq> set (CHR ''-'' # hex_digits))"

lemma uuid_laws_reparse:
  assumes "uuid_laws ul" "uuid_parse ul s = Inr u"
  shows "uuid_parse ul (uuid_text ul u) = Inr u"
proof -
  from assms have "length u = 16" unfolding uuid_laws_def by simp
  with assms(1) show ?thesis unfolding uuid_laws_def by simp
qed

section \<open>A concrete instance\<close>

fun hex_decode :: "string \<Rightarrow> string option" where
  "hex_decode [] = Some []"
| "hex_decode [_] = None"
| "hex_decode (h # l # s) =
     (case (hex_value_any h, hex_value_any l, hex_decode s) of
        (Some a, Some b, Some t) \<Rightarrow> Some (char_of (a * 16 + b) # t)
      | _ \<Rightarrow> None)"

definition ref_uuid_text :: "string \<Rightarrow> string" where
  "ref_uuid_text u = (let h = hex_encode u in
     take 8 h @ ''-'' @ take 4 (drop 8 h) @ ''-'' @ take 4 (drop 12 h) @ ''-'' @
     take 4 (drop 16 h) @ ''-'' @ drop 20 h)"

definition ref_uuid_digits :: "string \<Rightarrow> string" where
  "ref_uuid_digits s =
     take 8 s @ take 4 (drop 9 s) @ take 4 (drop 14 s) @ take 4 (drop 19 s) @ drop 24 s"

definition ref_uuid_parse :: "string \<Rightarrow> string result" where
  "ref_uuid_parse s =
     (if length s = 36 \<and> s ! 8 = CHR ''-'' \<and> s ! 13 = CHR ''-'' \<and> s ! 18 = CHR ''-'' \<and> s ! 23 = CHR ''-''
      then case hex_decode (ref_uuid_digits s) of
             Some u \<Rightarrow> Inr u
           | None \<Rightarrow> Inl (Plain [Txt ''invalid UUID format''])
      else Inl (Plain [Txt ''invalid UUID length or dashes'']))"

definition ref_uuid :: uuid_lib where
  "ref_uuid = \<lparr>uuid_parse = ref_uuid_parse, uuid_text = ref_uuid_text\<rparr>"

lemma hex_decode_encode: "hex_decode (hex_encode s) = Some s"
  by (induction s) (auto simp: hex_value_any_def)

lemma hex_decode_length: "hex_decode s = Some t \<Longrightarrow> 2 * length t = length s"
  by (induction s arbitrary: t rule: hex_decode.induct) (auto split: option.splits)

lemma ref_uuid_text_parts:
  assumes "length u = 16"
  obtains a b c d e where "hex_encode u = a @ b @ c @ d @ e" "length a = 8" "length b = 4"
    "length c = 4" "length d = 4" "length e = 12"
    "ref_uuid_text u = a @ ''-'' @ b @ ''-'' @ c @ ''-'' @ d @ ''-'' @ e"
proof -
  let ?h = "hex_encode u"
  have len: "length ?h = 32" using assms by simp
  let ?a = "take 8 ?h" and ?b = "take 4 (drop 8 ?h)" and ?c = "take 4 (drop 12 ?h)"
    and ?d = "take 4 (drop 16 ?h)" and ?e = "drop 20 ?h"
  have step: "drop n ?h = take 4 (drop n ?h) @ drop (n + 4) ?h" for n
    by (metis append_take_drop_id drop_drop add.commute)
  have "?h = ?a @ drop 8 ?h" by simp
  also have "\<dots> = ?a @ ?b @ ?c @ ?d @ ?e"
    using step [of 8] step [of 12] step [of 16] by simp
  finally show ?thesis
    using len by (intro that [of ?a ?b ?c ?d ?e]) (simp_all add: ref_uuid_text_def Let_def)
qed

lemma ref_uuid_laws: "uuid_laws ref_uuid"
proof -
  have "uuid_parse ref_uuid s = Inr u \<Longrightarrow> length u = 16" for s u
    using hex_decode_length [of "ref_uuid_digits s" u]
    by (auto simp: ref_uuid_def ref_uuid_parse_def ref_uuid_digits_def split: if_splits option.splits)
  moreover have "uuid_parse ref_uuid (uuid_text ref_uuid u) = Inr u \<and>
        length (uuid_text ref_uuid u) = 36 \<and> set (uuid_text ref_uuid u) \<subseteq> set (CHR ''-'' # hex_digits)"
    if u: "length u = 16" for u
  proof -
    obtain a b c d e where h: "hex_encode u = a @ b @ c @ d @ e"
      and len: "length a = 8" "length b = 4" "length c = 4" "length d = 4" "length e = 12"
      and t: "ref_uuid_text u = a @ ''-'' @ b @ ''-'' @ c @ ''-'' @ d @ ''-'' @ e"
      using ref_uuid_text_parts [OF u] by blast
    have "ref_uuid_digits (ref_uuid_text u) = hex_encode u"
      unfolding ref_uuid_digits_def t h using len by simp
    then have "ref_uuid_parse (ref_uuid_text u) = Inr u"
      using len by (simp add: ref_uuid_parse_def t nth_append hex_decode_encode)
    moreover have "set (ref_uuid_text u) \<subseteq> insert (CHR ''-'') (set hex_digits)"
      using set_hex_encode [of u] unfolding t h by auto
    ultimately show ?thesis using len by (simp add: ref_uuid_def t)
  qed
  ultimately show ?thesis unfolding uuid_laws_def by blast
qed

end
