(* ===== verification/Attest.thy ===== *)
theory Attest
  imports UuidLib "HOL-Library.Word"
begin

unbundle bit_operations_syntax

text \<open>
  The pure domain rules of \<open>internal/attest\<close>: the guest claims and the Incus API snapshot
  (\<open>types.go\<close>), their validation and comparison (\<open>claims.go\<close>), the challenge key and nonce
  (\<open>nonce.go\<close>) and the agent ID with its selectors (\<open>attributes.go\<close>). The third-party UUID
  library is the parameter \<open>ul\<close> of type \<open>uuid_lib\<close>.
\<close>

section \<open>Types (\<open>types.go\<close>)\<close>

definition ErrDenied :: goerr where
  "ErrDenied = Sentinel AttestDenied"

definition InstanceTypeVirtualMachine :: string where
  "InstanceTypeVirtualMachine = ''virtual-machine''"

record claims =
  cl_project :: string
  cl_name :: string
  cl_uuid :: string
  cl_type :: string
  cl_location :: string
  cl_cloud_init_id :: string

record vm_instance =
  in_project :: string
  in_name :: string
  in_uuid :: string
  in_type :: string
  in_location :: string
  in_cloud_init_id :: string
  in_profiles :: "string list"
  in_expanded_config :: "string \<rightharpoonup> string"

record attributes =
  at_agent_id :: string
  at_can_reattest :: bool
  at_selectors :: "string list"

section \<open>Claims (\<open>claims.go\<close>)\<close>

definition NewInstanceUUID :: "uuid_lib \<Rightarrow> string \<Rightarrow> string result" where
  "NewInstanceUUID ul raw =
     (case uuid_parse ul raw of
        Inl e \<Rightarrow> Inl (Wrapf [Txt ''invalid instance uuid '', Quo raw, Txt '': ''] e [])
      | Inr u \<Rightarrow> Inr (uuid_text ul u))"

definition denied :: "string \<Rightarrow> goerr" where
  "denied m = Wrapf [] ErrDenied [Txt ('': '' @ m)]"

definition requireVirtualMachine :: "string \<Rightarrow> string \<Rightarrow> goerr option" where
  "requireVirtualMachine t source =
     (if t = [] then Some (denied (source @ '' instance type is required''))
      else if t \<noteq> InstanceTypeVirtualMachine then
        Some (Wrapf [] ErrDenied [Txt ('': '' @ source @ '' instance type ''), Quo t,
          Txt '' is not '', Quo InstanceTypeVirtualMachine])
      else None)"

text \<open>The unexported \<open>validateClaims\<close>, which returns the canonical guest UUID.\<close>

definition validateClaims :: "uuid_lib \<Rightarrow> claims \<Rightarrow> string result" where
  "validateClaims ul c =
     (if cl_name c = [] then Inl (denied ''instance name is required'')
      else if cl_location c = [] then Inl (denied ''location is required'')
      else if cl_cloud_init_id c = [] then Inl (denied ''cloud-init id is required'')
      else case requireVirtualMachine (cl_type c) ''guest'' of
        Some e \<Rightarrow> Inl e
      | None \<Rightarrow>
         (case NewInstanceUUID ul (cl_uuid c) of
            Inl _ \<Rightarrow> Inl (denied ''invalid instance uuid'')
          | Inr i \<Rightarrow> Inr i))"

text \<open>The exported \<open>ValidateClaims\<close>, which keeps only the error.\<close>

definition ValidateClaims :: "uuid_lib \<Rightarrow> claims \<Rightarrow> goerr option" where
  "ValidateClaims ul c = (case validateClaims ul c of Inl e \<Rightarrow> Some e | Inr _ \<Rightarrow> None)"

definition validateInstance :: "uuid_lib \<Rightarrow> vm_instance \<Rightarrow> string result" where
  "validateInstance ul i =
     (if in_project i = [] then Inl (denied ''project is required'')
      else if in_name i = [] then Inl (denied ''instance name is required'')
      else if in_location i = [] then Inl (denied ''location is required'')
      else if in_cloud_init_id i = [] then Inl (denied ''cloud-init id is required'')
      else case requireVirtualMachine (in_type i) ''api'' of
        Some e \<Rightarrow> Inl e
      | None \<Rightarrow>
         (case NewInstanceUUID ul (in_uuid i) of
            Inl _ \<Rightarrow> Inl (denied ''invalid instance uuid'')
          | Inr u \<Rightarrow> Inr u))"

definition MatchClaims :: "uuid_lib \<Rightarrow> claims \<Rightarrow> vm_instance \<Rightarrow> goerr option" where
  "MatchClaims ul c i =
     (case validateClaims ul c of
        Inl e \<Rightarrow> Some e
      | Inr claimUUID \<Rightarrow>
         (case validateInstance ul i of
            Inl e \<Rightarrow> Some e
          | Inr instanceUUID \<Rightarrow>
              if cl_project c \<noteq> [] \<and> cl_project c \<noteq> in_project i then Some (denied ''project mismatch'')
              else if cl_name c \<noteq> in_name i then Some (denied ''instance name mismatch'')
              else if cl_type c \<noteq> in_type i then Some (denied ''instance type mismatch'')
              else if cl_location c \<noteq> in_location i then Some (denied ''location mismatch'')
              else if cl_cloud_init_id c \<noteq> in_cloud_init_id i then Some (denied ''cloud-init id mismatch'')
              else if claimUUID \<noteq> instanceUUID then Some (denied ''instance uuid mismatch'')
              else None))"

section \<open>Nonce and challenge key (\<open>nonce.go\<close>)\<close>

definition configKeyPrefix :: string where
  "configKeyPrefix = ''user.spire.attestor.nonce.''"

definition configKeySuffixLen :: nat where
  "configKeySuffixLen = 32"

definition nonceSize :: nat where
  "nonceSize = 16"

definition isLowerHex :: "byte \<Rightarrow> bool" where
  "isLowerHex c \<longleftrightarrow> byte_between CHR ''0'' CHR ''9'' c \<or> byte_between CHR ''a'' CHR ''f'' c"

definition NewConfigKey :: "string \<Rightarrow> string result" where
  "NewConfigKey raw =
     (if length raw \<noteq> length configKeyPrefix + configKeySuffixLen
      then Inl (Plain [Txt ''invalid config key length '', Num (int (length raw))])
      else if take (length configKeyPrefix) raw \<noteq> configKeyPrefix
      then Inl (Plain [Txt ''invalid config key prefix''])
      else if \<not> list_all isLowerHex (drop (length configKeyPrefix) raw)
      then Inl (Plain [Txt ''invalid config key suffix''])
      else Inr raw)"

definition NewConfigKeyFromAttemptID :: "string \<Rightarrow> string" where
  "NewConfigKeyFromAttemptID attempt = configKeyPrefix @ hex_encode attempt"

definition NewNonce :: "string \<Rightarrow> string result" where
  "NewNonce raw =
     (if length raw \<noteq> nonceSize
      then Inl (Plain [Txt ''nonce length '', Num (int (length raw)), Txt '', want '', Num (int nonceSize)])
      else Inr raw)"

text \<open>
  \<open>subtle.ConstantTimeCompare\<close>: 0 for different lengths, else the OR of all byte differences
  compared with zero.
\<close>

definition byte_word :: "byte \<Rightarrow> 8 word" where
  "byte_word c = of_nat (of_char c)"

fun ct_accumulate :: "8 word \<Rightarrow> string \<Rightarrow> string \<Rightarrow> 8 word" where
  "ct_accumulate v (x # xs) (y # ys) = ct_accumulate (v OR (byte_word x XOR byte_word y)) xs ys"
| "ct_accumulate v _ _ = v"

definition ConstantTimeCompare :: "string \<Rightarrow> string \<Rightarrow> nat" where
  "ConstantTimeCompare x y =
     (if length x \<noteq> length y then 0 else if ct_accumulate 0 x y = 0 then 1 else 0)"

definition VerifyNonce :: "string \<Rightarrow> string \<Rightarrow> goerr option" where
  "VerifyNonce expected got =
     (if length got \<noteq> nonceSize
      then Some (Wrapf [] ErrDenied [Txt '': nonce length '', Num (int (length got)), Txt '', want '',
        Num (int nonceSize)])
      else if ConstantTimeCompare expected got \<noteq> 1 then Some (denied ''nonce mismatch'')
      else None)"

section \<open>Agent ID and selectors (\<open>attributes.go\<close>)\<close>

definition maxSelectors :: nat where
  "maxSelectors = 100"

definition maxSelectorValueBytes :: nat where
  "maxSelectorValueBytes = 32768"

definition selectorValueLen :: "string \<Rightarrow> nat" where
  "selectorValueLen selector =
     (case index_byte selector (CHR '':'') of None \<Rightarrow> 0 | Some i \<Rightarrow> length selector - i - 1)"

text \<open>The loop over the configured user selector keys.\<close>

fun append_user_selectors :: "(string \<rightharpoonup> string) \<Rightarrow> string list \<Rightarrow> string list \<Rightarrow> string list result" where
  "append_user_selectors cfg [] sels = Inr sels"
| "append_user_selectors cfg (key # keys) sels =
     (if has_prefix key configKeyPrefix then Inl (denied ''reserved selector key'')
      else case cfg key of
        None \<Rightarrow> append_user_selectors cfg keys sels
      | Some v \<Rightarrow> append_user_selectors cfg keys (sels @ [key @ '':'' @ v]))"

text \<open>The loop that adds up the value bytes and stops at the first excess.\<close>

fun bound_value_bytes :: "nat \<Rightarrow> string list \<Rightarrow> goerr option" where
  "bound_value_bytes n [] = None"
| "bound_value_bytes n (s # ss) =
     (let n' = n + selectorValueLen s
      in if n' > maxSelectorValueBytes
         then Some (Wrapf [] ErrDenied [Txt '': selector value bytes exceed '', Num (int maxSelectorValueBytes)])
         else bound_value_bytes n' ss)"

definition buildSelectors :: "vm_instance \<Rightarrow> string \<Rightarrow> string list \<Rightarrow> string list result" where
  "buildSelectors i uuid userSelectors =
     (case append_user_selectors (in_expanded_config i) userSelectors
             ([''project:'' @ in_project i, ''name:'' @ in_name i, ''location:'' @ in_location i,
               ''uuid:'' @ uuid] @ map (\<lambda>p. ''profile:'' @ p) (in_profiles i)) of
        Inl e \<Rightarrow> Inl e
      | Inr raw \<Rightarrow>
         (let selectors = remdups_adj (sort raw)
          in if length selectors > maxSelectors
             then Inl (Wrapf [] ErrDenied [Txt '': selector count '', Num (int (length selectors)),
               Txt '' exceeds '', Num (int maxSelectors)])
             else case bound_value_bytes 0 selectors of
               Some e \<Rightarrow> Inl e
             | None \<Rightarrow> Inr selectors))"

definition BuildAttributes :: "uuid_lib \<Rightarrow> string \<Rightarrow> vm_instance \<Rightarrow> string list \<Rightarrow> attributes result" where
  "BuildAttributes ul trustDomain i userSelectors =
     (case validateInstance ul i of
        Inl e \<Rightarrow> Inl e
      | Inr uuid \<Rightarrow>
         (case buildSelectors i uuid userSelectors of
            Inl e \<Rightarrow> Inl e
          | Inr selectors \<Rightarrow>
              Inr \<lparr>at_agent_id = ''spiffe://'' @ trustDomain @ ''/spire/agent/incus/'' @ uuid,
                   at_can_reattest = True, at_selectors = selectors\<rparr>))"

section \<open>Validation and matching\<close>

lemma denied_class [simp, err_simps]:
  "err_is (denied m) s \<longleftrightarrow> s = AttestDenied"
  "err_is ErrDenied s \<longleftrightarrow> s = AttestDenied"
  by (auto simp: denied_def ErrDenied_def)

lemma requireVirtualMachine_None [simp]:
  "requireVirtualMachine t src = None \<longleftrightarrow> t = InstanceTypeVirtualMachine"
  by (simp add: requireVirtualMachine_def InstanceTypeVirtualMachine_def)

lemma requireVirtualMachine_VM [simp]: "requireVirtualMachine InstanceTypeVirtualMachine src = None"
  by simp

lemma requireVirtualMachine_class:
  "requireVirtualMachine t src = Some e \<Longrightarrow> err_is e s \<longleftrightarrow> s = AttestDenied"
  by (auto simp: requireVirtualMachine_def split: if_splits)

lemma NewInstanceUUID_Inr:
  "NewInstanceUUID ul raw = Inr t \<longleftrightarrow> (\<exists>u. uuid_parse ul raw = Inr u \<and> t = uuid_text ul u)"
  by (auto simp: NewInstanceUUID_def split: sum.splits)

text \<open>Canonical texts are fixed points, of 36 characters from a small alphabet.\<close>

lemma uuid_canonical:
  assumes "uuid_laws ul" "NewInstanceUUID ul raw = Inr t"
  shows "NewInstanceUUID ul t = Inr t" "length t = 36" "set t \<subseteq> set (CHR ''-'' # hex_digits)"
  using assms unfolding uuid_laws_def NewInstanceUUID_Inr by blast+

lemma validateClaims_Inr:
  "validateClaims ul c = Inr u \<longleftrightarrow>
     cl_name c \<noteq> [] \<and> cl_location c \<noteq> [] \<and> cl_cloud_init_id c \<noteq> [] \<and>
     cl_type c = InstanceTypeVirtualMachine \<and> NewInstanceUUID ul (cl_uuid c) = Inr u"
  by (auto simp: validateClaims_def split: option.splits sum.splits)

lemma validateClaims_class:
  "validateClaims ul c = Inl e \<Longrightarrow> err_is e s \<longleftrightarrow> s = AttestDenied"
  by (auto simp: validateClaims_def requireVirtualMachine_class
      split: if_splits option.splits sum.splits)

lemma validateInstance_Inr:
  "validateInstance ul i = Inr u \<longleftrightarrow>
     in_project i \<noteq> [] \<and> in_name i \<noteq> [] \<and> in_location i \<noteq> [] \<and> in_cloud_init_id i \<noteq> [] \<and>
     in_type i = InstanceTypeVirtualMachine \<and> NewInstanceUUID ul (in_uuid i) = Inr u"
  by (auto simp: validateInstance_def split: option.splits sum.splits)

lemma validateInstance_class:
  "validateInstance ul i = Inl e \<Longrightarrow> err_is e s \<longleftrightarrow> s = AttestDenied"
  by (auto simp: validateInstance_def requireVirtualMachine_class
      split: if_splits option.splits sum.splits)

lemma ValidateClaims_None:
  "ValidateClaims ul c = None \<longleftrightarrow> (\<exists>u. validateClaims ul c = Inr u)"
  by (auto simp: ValidateClaims_def split: sum.splits)

lemma ValidateClaims_class:
  "ValidateClaims ul c = Some e \<Longrightarrow> err_is e s \<longleftrightarrow> s = AttestDenied"
  by (auto simp: ValidateClaims_def validateClaims_class split: sum.splits)

text \<open>What the specification calls a match: every locator agrees and names one VM.\<close>

definition describes :: "uuid_lib \<Rightarrow> claims \<Rightarrow> vm_instance \<Rightarrow> bool" where
  "describes ul c i \<longleftrightarrow>
     in_project i \<noteq> [] \<and> in_name i \<noteq> [] \<and> in_location i \<noteq> [] \<and> in_cloud_init_id i \<noteq> [] \<and>
     in_type i = InstanceTypeVirtualMachine \<and>
     cl_name c = in_name i \<and> cl_type c = in_type i \<and> cl_location c = in_location i \<and>
     cl_cloud_init_id c = in_cloud_init_id i \<and> (cl_project c = [] \<or> cl_project c = in_project i) \<and>
     (\<exists>u. NewInstanceUUID ul (cl_uuid c) = Inr u \<and> NewInstanceUUID ul (in_uuid i) = Inr u)"

lemma MatchClaims_None: "MatchClaims ul c i = None \<longleftrightarrow> describes ul c i"
  by (auto simp: MatchClaims_def describes_def validateClaims_Inr validateInstance_Inr
      validateClaims_def validateInstance_def split: sum.splits option.splits if_splits)

lemma MatchClaims_class: "MatchClaims ul c i = Some e \<Longrightarrow> err_is e s \<longleftrightarrow> s = AttestDenied"
  by (auto simp: MatchClaims_def validateClaims_class validateInstance_class
      split: sum.splits if_splits)

section \<open>Keys and nonces\<close>

lemma isLowerHex_iff: "isLowerHex c \<longleftrightarrow> c \<in> set hex_digits"
proof -
  have codes: "n \<in> of_char ` set hex_digits \<longleftrightarrow> 48 \<le> n \<and> n \<le> 57 \<or> 97 \<le> n \<and> n \<le> 102" for n :: nat
    by (simp add: hex_digits_def) presburger
  have "c \<in> set hex_digits \<longleftrightarrow> (of_char c :: nat) \<in> of_char ` set hex_digits" by auto
  also have "\<dots> \<longleftrightarrow> isLowerHex c"
    unfolding codes by (auto simp: isLowerHex_def less_eq_char_def)
  finally show ?thesis ..
qed

lemma hex_encode_surj:
  "set s \<subseteq> set hex_digits \<Longrightarrow> length s = 2 * n \<Longrightarrow> \<exists>a. length a = n \<and> hex_encode a = s"
proof (induction n arbitrary: s)
  case (Suc n)
  then obtain x y s' where s: "s = x # y # s'" by (cases s; cases "tl s") auto
  with Suc obtain a where a: "length a = n" "hex_encode a = s'" by auto
  from s Suc.prems obtain h l where h: "h < 16" "hex_digit h = x" and l: "l < 16" "hex_digit l = y"
    unfolding hex_digit_def
    by (metis hex_digits_def in_set_conv_nth list.set_intros(1,2) subsetD length_hex_digits)
  then have "hex_encode (char_of (h * 16 + l) # a) = s" using a s by simp
  then show ?case using a by (metis length_Cons)
qed simp

lemma configKeyPrefix_length: "length configKeyPrefix = 26"
  by (simp add: configKeyPrefix_def)

lemma NewConfigKey_Inr:
  "NewConfigKey raw = Inr k \<longleftrightarrow>
     k = raw \<and> (\<exists>suffix. raw = configKeyPrefix @ suffix \<and> length suffix = 32 \<and> set suffix \<subseteq> set hex_digits)"
  (is "?l \<longleftrightarrow> ?r")
proof
  assume ?l
  then have "take (length configKeyPrefix) raw = configKeyPrefix"
    "length raw = length configKeyPrefix + 32" "k = raw"
    "list_all isLowerHex (drop (length configKeyPrefix) raw)"
    by (auto simp: NewConfigKey_def configKeySuffixLen_def split: if_splits)
  then show ?r
    by (intro conjI exI [of _ "drop (length configKeyPrefix) raw"])
      (auto simp: list_all_iff isLowerHex_iff, metis append_take_drop_id)
next
  assume ?r
  then show ?l by (auto simp: NewConfigKey_def configKeySuffixLen_def list_all_iff isLowerHex_iff)
qed

lemma NewConfigKey_attempt: "length a = 16 \<Longrightarrow> NewConfigKey (NewConfigKeyFromAttemptID a) = Inr (NewConfigKeyFromAttemptID a)"
  using set_hex_encode by (auto simp: NewConfigKey_Inr NewConfigKeyFromAttemptID_def)

lemma byte_word_eq [simp]: "byte_word x = byte_word y \<longleftrightarrow> x = y"
proof
  assume "byte_word x = byte_word y"
  then have "unat (byte_word x) = unat (byte_word y)" by simp
  then show "x = y" by (simp add: byte_word_def unat_of_nat)
qed simp

lemma word_xor_zero: "x XOR y = 0 \<longleftrightarrow> x = (y :: 'a::len word)"
  by (metis xor.assoc xor.left_neutral xor_self_eq)

lemma ct_accumulate_zero:
  "length x = length y \<Longrightarrow> ct_accumulate v x y = 0 \<longleftrightarrow> v = 0 \<and> x = y"
proof (induction v x y rule: ct_accumulate.induct)
  case (1 v x xs y ys)
  then show ?case by (auto simp: or_eq_0_iff word_xor_zero)
qed auto

lemma ConstantTimeCompare_iff: "ConstantTimeCompare x y = 1 \<longleftrightarrow> x = y"
  by (auto simp: ConstantTimeCompare_def ct_accumulate_zero)

lemmas ConstantTimeCompare_Suc = ConstantTimeCompare_iff [unfolded One_nat_def]

lemma VerifyNonce_None: "VerifyNonce expected got = None \<longleftrightarrow> length got = 16 \<and> got = expected"
  by (auto simp: VerifyNonce_def nonceSize_def ConstantTimeCompare_Suc)

lemma VerifyNonce_class: "VerifyNonce expected got = Some e \<Longrightarrow> err_is e s \<longleftrightarrow> s = AttestDenied"
  by (auto simp: VerifyNonce_def split: if_splits)

section \<open>Selectors\<close>

definition reserved_key :: "string \<Rightarrow> bool" where
  "reserved_key k \<longleftrightarrow> has_prefix k configKeyPrefix"

definition user_selector :: "(string \<rightharpoonup> string) \<Rightarrow> string \<Rightarrow> string list" where
  "user_selector cfg k = (case cfg k of None \<Rightarrow> [] | Some v \<Rightarrow> [k @ '':'' @ v])"

lemma append_user_selectors_ok:
  "\<forall>k\<in>set keys. \<not> reserved_key k \<Longrightarrow>
   append_user_selectors cfg keys sels = Inr (sels @ concat (map (user_selector cfg) keys))"
proof (induction keys arbitrary: sels)
  case (Cons k keys)
  from Cons.prems have nr: "\<not> has_prefix k configKeyPrefix" by (simp add: reserved_key_def)
  with Cons show ?case by (cases "cfg k") (simp_all add: user_selector_def)
qed simp

lemma append_user_selectors_reserved:
  "\<exists>k\<in>set keys. reserved_key k \<Longrightarrow> \<exists>e. append_user_selectors cfg keys sels = Inl e"
proof (induction cfg keys sels rule: append_user_selectors.induct)
  case (2 cfg key keys sels)
  then show ?case
    by (cases "has_prefix key configKeyPrefix"; cases "cfg key") (simp_all add: reserved_key_def)
qed simp

lemma append_user_selectors_class:
  "append_user_selectors cfg keys sels = Inl e \<Longrightarrow> err_is e s \<longleftrightarrow> s = AttestDenied"
  by (induction cfg keys sels rule: append_user_selectors.induct)
    (auto split: if_splits option.splits)

lemma bound_value_bytes_None:
  "n \<le> maxSelectorValueBytes \<Longrightarrow>
   bound_value_bytes n ss = None \<longleftrightarrow> n + sum_list (map selectorValueLen ss) \<le> maxSelectorValueBytes"
proof (induction ss arbitrary: n)
  case (Cons s ss)
  show ?case
  proof (cases "n + selectorValueLen s \<le> maxSelectorValueBytes")
    case True
    with Cons.IH [OF True] show ?thesis by (simp add: add.assoc)
  qed simp
qed simp

lemma bound_value_bytes_0:
  "bound_value_bytes 0 ss = None \<longleftrightarrow> sum_list (map selectorValueLen ss) \<le> maxSelectorValueBytes"
  using bound_value_bytes_None [of 0 ss] by simp

lemma bound_value_bytes_class:
  "bound_value_bytes n ss = Some e \<Longrightarrow> err_is e s \<longleftrightarrow> s = AttestDenied"
  by (induction n ss rule: bound_value_bytes.induct) (auto simp: Let_def split: if_splits)

text \<open>The set of selectors the documentation promises for an instance.\<close>

definition wanted_selectors :: "vm_instance \<Rightarrow> string \<Rightarrow> string list \<Rightarrow> string set" where
  "wanted_selectors i uuid keys =
     {''project:'' @ in_project i, ''name:'' @ in_name i, ''location:'' @ in_location i, ''uuid:'' @ uuid}
     \<union> (\<lambda>p. ''profile:'' @ p) ` set (in_profiles i)
     \<union> {k @ '':'' @ v | k v. k \<in> set keys \<and> in_expanded_config i k = Some v}"

lemma finite_wanted_selectors [simp]: "finite (wanted_selectors i uuid keys)"
proof -
  have "{k @ '':'' @ v | k v. k \<in> set keys \<and> in_expanded_config i k = Some v}
        \<subseteq> (\<lambda>k. k @ '':'' @ the (in_expanded_config i k)) ` set keys" by force
  then show ?thesis unfolding wanted_selectors_def
    by (meson finite_UnI finite_imageI finite_insert finite.emptyI finite_set finite_subset)
qed

definition base_selectors :: "vm_instance \<Rightarrow> string \<Rightarrow> string list" where
  "base_selectors i uuid =
     [''project:'' @ in_project i, ''name:'' @ in_name i, ''location:'' @ in_location i,
      ''uuid:'' @ uuid] @ map (\<lambda>p. ''profile:'' @ p) (in_profiles i)"

lemma set_user_selectors:
  "set (concat (map (user_selector cfg) keys)) = {k @ '':'' @ v | k v. k \<in> set keys \<and> cfg k = Some v}"
  by (auto simp: user_selector_def split: option.splits if_splits) force+

lemma set_raw_selectors:
  "set (base_selectors i uuid @ concat (map (user_selector (in_expanded_config i)) keys))
   = wanted_selectors i uuid keys"
  by (simp only: set_append set_user_selectors base_selectors_def wanted_selectors_def set_map
      list.set Un_assoc)

lemma strict_sorted_unique:
  "sorted_wrt (<) xs \<Longrightarrow> set xs = A \<Longrightarrow> xs = sorted_list_of_set (A :: 'a::linorder set)"
  by (metis sorted_list_of_set.idem_if_sorted_distinct strict_sorted_iff)

lemma compact_sort_eq:
  "set raw = A \<Longrightarrow> remdups_adj (sort raw) = sorted_list_of_set (A :: 'a::linorder set)"
  by (rule strict_sorted_unique) (simp_all add: compact_sort)

lemma buildSelectors_Inr:
  "buildSelectors i uuid keys = Inr sels \<longleftrightarrow>
     (\<forall>k\<in>set keys. \<not> reserved_key k) \<and>
     sels = sorted_list_of_set (wanted_selectors i uuid keys) \<and>
     card (wanted_selectors i uuid keys) \<le> maxSelectors \<and>
     (\<Sum>s\<in>wanted_selectors i uuid keys. selectorValueLen s) \<le> maxSelectorValueBytes"
proof (cases "\<forall>k\<in>set keys. \<not> reserved_key k")
  case True
  define raw where "raw = base_selectors i uuid @ concat (map (user_selector (in_expanded_config i)) keys)"
  have app: "append_user_selectors (in_expanded_config i) keys (base_selectors i uuid) = Inr raw"
    using append_user_selectors_ok [OF True] by (simp add: raw_def)
  have set: "set raw = wanted_selectors i uuid keys"
    unfolding raw_def by (rule set_raw_selectors)
  have len: "length (remdups_adj (sort raw)) = card (wanted_selectors i uuid keys)"
    and sum: "sum_list (map selectorValueLen (remdups_adj (sort raw)))
      = (\<Sum>s\<in>wanted_selectors i uuid keys. selectorValueLen s)"
    unfolding length_compact_sort sum_list_compact_sort set by simp_all
  obtain out where out: "out = remdups_adj (sort raw)" "out = sorted_list_of_set (wanted_selectors i uuid keys)"
    using compact_sort_eq [OF set] by simp
  have "buildSelectors i uuid keys = Inr sels \<longleftrightarrow>
      length out \<le> maxSelectors \<and> bound_value_bytes 0 out = None \<and> sels = out"
    unfolding buildSelectors_def base_selectors_def [symmetric] app sum.case Let_def out(1) [symmetric]
    by (cases "bound_value_bytes 0 out") auto
  then show ?thesis
    using True len sum bound_value_bytes_0 [of out] unfolding out(1) [symmetric] out(2) [symmetric]
    by auto
next
  case False
  then obtain e where "append_user_selectors (in_expanded_config i) keys (base_selectors i uuid) = Inl e"
    using append_user_selectors_reserved by blast
  with False show ?thesis
    unfolding buildSelectors_def base_selectors_def [symmetric] by auto
qed

lemma buildSelectors_class:
  "buildSelectors i uuid keys = Inl e \<Longrightarrow> err_is e s \<longleftrightarrow> s = AttestDenied"
proof -
  assume fails: "buildSelectors i uuid keys = Inl e"
  show ?thesis
  proof (cases "append_user_selectors (in_expanded_config i) keys (base_selectors i uuid)")
    case (Inl e')
    with fails have "e' = e"
      unfolding buildSelectors_def base_selectors_def [symmetric] by simp
    with Inl show ?thesis by (simp add: append_user_selectors_class)
  next
    case (Inr raw)
    obtain out where out: "out = remdups_adj (sort raw)" by simp
    show ?thesis
      using fails unfolding buildSelectors_def base_selectors_def [symmetric] Inr sum.case Let_def out [symmetric]
      by (cases "bound_value_bytes 0 out") (auto split: if_splits simp: bound_value_bytes_class)
  qed
qed

lemma BuildAttributes_Inr:
  "BuildAttributes ul td i keys = Inr a \<longleftrightarrow>
     (\<exists>uuid sels. validateInstance ul i = Inr uuid \<and> buildSelectors i uuid keys = Inr sels \<and>
        a = \<lparr>at_agent_id = ''spiffe://'' @ td @ ''/spire/agent/incus/'' @ uuid,
             at_can_reattest = True, at_selectors = sels\<rparr>)"
  unfolding BuildAttributes_def by (auto split: sum.splits)

lemma BuildAttributes_class:
  "BuildAttributes ul td i keys = Inl e \<Longrightarrow> err_is e s \<longleftrightarrow> s = AttestDenied"
  unfolding BuildAttributes_def
  by (auto split: sum.splits simp: validateInstance_class buildSelectors_class)

section \<open>Samples for the witnesses\<close>

definition sample_uuid :: string where
  "sample_uuid = ''550e8400-e29b-41d4-a716-446655440000''"

definition sample_claims :: claims where
  "sample_claims = \<lparr>cl_project = ''default'', cl_name = ''vm-01'', cl_uuid = sample_uuid,
     cl_type = ''virtual-machine'', cl_location = ''member-01'', cl_cloud_init_id = ''i-01''\<rparr>"

definition sample_instance :: vm_instance where
  "sample_instance = \<lparr>in_project = ''default'', in_name = ''vm-01'', in_uuid = sample_uuid,
     in_type = ''virtual-machine'', in_location = ''member-01'', in_cloud_init_id = ''i-01'',
     in_profiles = [''default''], in_expanded_config = [''user.role'' \<mapsto> ''db'']\<rparr>"

lemma sample_uuid_canonical: "NewInstanceUUID ref_uuid sample_uuid = Inr sample_uuid"
  by (simp add: NewInstanceUUID_def ref_uuid_def ref_uuid_parse_def ref_uuid_digits_def sample_uuid_def
      hex_value_any_def hex_value_def hex_digits_def ref_uuid_text_def hex_digit_def Let_def)

lemma sample_describes: "describes ref_uuid sample_claims sample_instance"
  unfolding describes_def
  by (simp add: sample_claims_def sample_instance_def sample_uuid_canonical InstanceTypeVirtualMachine_def)

lemma sample_validateInstance: "validateInstance ref_uuid sample_instance = Inr sample_uuid"
  unfolding validateInstance_Inr
  by (simp add: sample_instance_def sample_uuid_canonical InstanceTypeVirtualMachine_def)

lemma sample_sort: "sort [''project:default'', ''name:vm-01'', ''location:member-01'', ''uuid:'' @ sample_uuid,
       ''profile:default'', ''user.role:db''] =
     [''location:member-01'', ''name:vm-01'', ''profile:default'', ''project:default'', ''user.role:db'',
      ''uuid:'' @ sample_uuid]"
  by code_simp

lemma sample_selectors:
  "buildSelectors sample_instance sample_uuid [''user.role''] =
     Inr [''location:member-01'', ''name:vm-01'', ''profile:default'',
            ''project:default'', ''user.role:db'', ''uuid:'' @ sample_uuid]"
proof -
  have "append_user_selectors (in_expanded_config sample_instance) [''user.role'']
      [''project:default'', ''name:vm-01'', ''location:member-01'', ''uuid:'' @ sample_uuid, ''profile:default'']
     = Inr [''project:default'', ''name:vm-01'', ''location:member-01'', ''uuid:'' @ sample_uuid,
       ''profile:default'', ''user.role:db'']"
    by (simp add: sample_instance_def configKeyPrefix_def)
  then show ?thesis
    using sample_sort
    by (simp add: buildSelectors_def sample_instance_def Let_def maxSelectors_def maxSelectorValueBytes_def
        selectorValueLen_def sample_uuid_def)
qed

lemma sample_attributes:
  "BuildAttributes ref_uuid ''example.org'' sample_instance [''user.role''] =
     Inr \<lparr>at_agent_id = ''spiffe://example.org/spire/agent/incus/'' @ sample_uuid, at_can_reattest = True,
          at_selectors = [''location:member-01'', ''name:vm-01'', ''profile:default'',
            ''project:default'', ''user.role:db'', ''uuid:'' @ sample_uuid]\<rparr>"
  by (simp add: BuildAttributes_Inr sample_validateInstance sample_selectors)

text \<open>Two API snapshots that differ in their challenge keys only.\<close>

definition agree_outside_nonces :: "(string \<rightharpoonup> string) \<Rightarrow> (string \<rightharpoonup> string) \<Rightarrow> bool" where
  "agree_outside_nonces a b \<longleftrightarrow> (\<forall>k. reserved_key k \<or> a k = b k)"

lemma append_user_selectors_agree:
  "agree_outside_nonces a b \<Longrightarrow> append_user_selectors a keys sels = append_user_selectors b keys sels"
  by (induction keys arbitrary: sels)
    (auto simp: agree_outside_nonces_def reserved_key_def split: option.splits)

section \<open>Properties\<close>

text \<open>
  C22: claims are accepted against an API snapshot exactly when every locator agrees, the optional
  project hint agrees where it is given, both records name a virtual machine and the two UUIDs have
  the same canonical form; and when they are not accepted, the error is of the class \<open>ErrDenied\<close>
  and of no other.
\<close>

theorem match_claims_exact:
  "case MatchClaims ul c i of
     None \<Rightarrow> describes ul c i
   | Some e \<Rightarrow> \<not> describes ul c i \<and> err_is e = (\<lambda>s. s = AttestDenied)"
proof (cases "MatchClaims ul c i")
  case None
  with MatchClaims_None [of ul c i] show ?thesis unfolding None by simp
next
  case (Some e)
  then have "\<not> describes ul c i" using MatchClaims_None [of ul c i] by simp
  with Some show ?thesis by (simp add: fun_eq_iff MatchClaims_class [OF Some])
qed

text \<open>
  C27: the challenge keys that \<open>NewConfigKey\<close> accepts are exactly the keys that
  \<open>NewConfigKeyFromAttemptID\<close> makes from a 16-byte attempt ID, and they are returned unchanged.
\<close>

theorem config_keys_are_attempt_keys:
  "NewConfigKey raw = Inr k \<longleftrightarrow>
     k = raw \<and> (\<exists>attempt. length attempt = 16 \<and> raw = NewConfigKeyFromAttemptID attempt)"
proof -
  have "(\<exists>suffix. raw = configKeyPrefix @ suffix \<and> length suffix = 32 \<and> set suffix \<subseteq> set hex_digits)
    \<longleftrightarrow> (\<exists>attempt. length attempt = 16 \<and> raw = NewConfigKeyFromAttemptID attempt)"
    (is "(\<exists>suffix. ?p suffix) \<longleftrightarrow> _")
  proof
    assume "\<exists>suffix. ?p suffix"
    then obtain suffix where "raw = configKeyPrefix @ suffix"
      and "set suffix \<subseteq> set hex_digits" "length suffix = 2 * 16" by auto
    with hex_encode_surj show "\<exists>attempt. length attempt = 16 \<and> raw = NewConfigKeyFromAttemptID attempt"
      unfolding NewConfigKeyFromAttemptID_def by blast
  next
    assume "\<exists>attempt. length attempt = 16 \<and> raw = NewConfigKeyFromAttemptID attempt"
    then obtain attempt where "length attempt = 16" "raw = configKeyPrefix @ hex_encode attempt"
      unfolding NewConfigKeyFromAttemptID_def by blast
    then show "\<exists>suffix. ?p suffix" using set_hex_encode by simp
  qed
  then show ?thesis by (simp add: NewConfigKey_Inr)
qed

text \<open>Different attempts challenge under different keys, so a leftover key never collides.\<close>

lemma attempt_keys_distinct:
  "NewConfigKeyFromAttemptID a = NewConfigKeyFromAttemptID b \<longleftrightarrow> a = b"
  by (simp add: NewConfigKeyFromAttemptID_def hex_encode_inj)

text \<open>
  The constant-time comparison, which ORs the XOR of every byte pair at 8 bits, accepts the
  response exactly when it is 16 bytes long and equal to the nonce; every refusal is \<open>ErrDenied\<close>.
\<close>

lemma verify_nonce_exact:
  "case VerifyNonce expected got of
     None \<Rightarrow> length got = 16 \<and> got = expected
   | Some e \<Rightarrow> \<not> (length got = 16 \<and> got = expected) \<and> err_is e = (\<lambda>s. s = AttestDenied)"
proof (cases "VerifyNonce expected got")
  case None
  with VerifyNonce_None [of expected got] show ?thesis unfolding None by auto
next
  case (Some e)
  then have "\<not> (length got = 16 \<and> got = expected)" using VerifyNonce_None [of expected got] by simp
  with Some show ?thesis by (simp add: fun_eq_iff VerifyNonce_class [OF Some])
qed

text \<open>
  C21: for configured keys outside the nonce namespace, the selectors are exactly the documented
  set, in increasing byte order without duplicates, when there are at most 100 of them with at most
  32768 bytes of values in total; over either bound the build is denied.
\<close>

theorem selectors_exact:
  assumes "\<forall>k\<in>set keys. \<not> reserved_key k"
  shows "case buildSelectors i uuid keys of
     Inr sels \<Rightarrow> set sels = wanted_selectors i uuid keys \<and> sorted_wrt (<) sels \<and>
       card (wanted_selectors i uuid keys) \<le> 100 \<and>
       (\<Sum>s\<in>wanted_selectors i uuid keys. selectorValueLen s) \<le> 32768
   | Inl e \<Rightarrow> err_is e = (\<lambda>s. s = AttestDenied) \<and>
       (card (wanted_selectors i uuid keys) > 100 \<or>
        (\<Sum>s\<in>wanted_selectors i uuid keys. selectorValueLen s) > 32768)"
proof (cases "buildSelectors i uuid keys")
  case (Inl e)
  then have "\<not> (card (wanted_selectors i uuid keys) \<le> 100 \<and>
      (\<Sum>s\<in>wanted_selectors i uuid keys. selectorValueLen s) \<le> 32768)"
    using assms buildSelectors_Inr [of i uuid keys "sorted_list_of_set (wanted_selectors i uuid keys)"]
    by (simp add: maxSelectors_def maxSelectorValueBytes_def)
  with Inl show ?thesis by (simp add: fun_eq_iff buildSelectors_class [OF Inl] not_le)
next
  case (Inr sels)
  then show ?thesis
    using buildSelectors_Inr [of i uuid keys sels]
    by (simp add: maxSelectors_def maxSelectorValueBytes_def)
qed

theorem selectors_exact_witness:
  "(''user.role:db'' :: string) \<in> wanted_selectors sample_instance sample_uuid [''user.role'']"
proof -
  have "\<forall>k\<in>set [''user.role'']. \<not> reserved_key k" by (simp add: reserved_key_def configKeyPrefix_def)
  from selectors_exact [OF this, of sample_instance sample_uuid]
  have "set [''location:member-01'', ''name:vm-01'', ''profile:default'', ''project:default'',
      ''user.role:db'', ''uuid:'' @ sample_uuid] = wanted_selectors sample_instance sample_uuid [''user.role'']"
    unfolding sample_selectors sum.case by (rule conjunct1)
  from this [symmetric] show ?thesis by simp
qed

text \<open>
  C30: identity never depends on a challenge: two snapshots that differ only in keys of the nonce
  namespace give the same attributes or the same error, whatever selector keys are configured.
\<close>

theorem attributes_ignore_nonces:
  assumes "agree_outside_nonces cfg cfg'"
  shows "BuildAttributes ul td (i\<lparr>in_expanded_config := cfg\<rparr>) keys =
         BuildAttributes ul td (i\<lparr>in_expanded_config := cfg'\<rparr>) keys"
proof -
  have "buildSelectors (i\<lparr>in_expanded_config := cfg\<rparr>) u keys =
        buildSelectors (i\<lparr>in_expanded_config := cfg'\<rparr>) u keys" for u
    unfolding buildSelectors_def by (simp add: append_user_selectors_agree [OF assms])
  moreover have "validateInstance ul (i\<lparr>in_expanded_config := cfg\<rparr>) =
        validateInstance ul (i\<lparr>in_expanded_config := cfg'\<rparr>)"
    unfolding validateInstance_def by (simp split: option.split)
  ultimately show ?thesis unfolding BuildAttributes_def by (simp split: sum.split)
qed

theorem attributes_ignore_nonces_witness:
  "BuildAttributes ref_uuid ''example.org'' (sample_instance\<lparr>in_expanded_config :=
       [''user.spire.attestor.nonce.00'' \<mapsto> ''AA'']\<rparr>) [''user.spire.attestor.nonce.00'']
   = BuildAttributes ref_uuid ''example.org'' (sample_instance\<lparr>in_expanded_config := Map.empty\<rparr>)
       [''user.spire.attestor.nonce.00'']"
  by (rule attributes_ignore_nonces)
    (simp add: agree_outside_nonces_def reserved_key_def configKeyPrefix_def)

text \<open>
  C31: under one trust domain, two virtual machines receive the same agent ID only when their
  \<open>volatile.uuid\<close> values denote the same UUID.
\<close>

theorem agent_id_identifies_uuid:
  assumes "uuid_laws ul"
    and "BuildAttributes ul td i keys = Inr a" and "BuildAttributes ul td j keys' = Inr b"
    and "at_agent_id a = at_agent_id b"
  shows "uuid_parse ul (in_uuid i) = uuid_parse ul (in_uuid j)"
proof -
  from assms(2) obtain u where u: "uuid_parse ul (in_uuid i) = Inr u"
      "at_agent_id a = ''spiffe://'' @ td @ ''/spire/agent/incus/'' @ uuid_text ul u"
    unfolding BuildAttributes_Inr validateInstance_Inr NewInstanceUUID_Inr by force
  from assms(3) obtain v where v: "uuid_parse ul (in_uuid j) = Inr v"
      "at_agent_id b = ''spiffe://'' @ td @ ''/spire/agent/incus/'' @ uuid_text ul v"
    unfolding BuildAttributes_Inr validateInstance_Inr NewInstanceUUID_Inr by force
  from assms(4) have "uuid_text ul u = uuid_text ul v" unfolding u(2) v(2) by simp
  with uuid_laws_reparse [OF assms(1) u(1)] uuid_laws_reparse [OF assms(1) v(1)] have "u = v"
    by (metis sum.inject(2))
  with u(1) v(1) show ?thesis by simp
qed

theorem agent_id_identifies_uuid_witness:
  "uuid_parse ref_uuid (in_uuid sample_instance) = uuid_parse ref_uuid sample_uuid"
proof -
  have eq: "in_uuid sample_instance = sample_uuid" by (simp add: sample_instance_def)
  show ?thesis
    using agent_id_identifies_uuid [OF ref_uuid_laws sample_attributes sample_attributes refl]
    unfolding eq .
qed

end
