(* ===== verification/WireCodecs.thy ===== *)
theory WireCodecs
  imports WireDecode JsonMembers Attest
begin

text \<open>
  The three message codecs of \<open>internal/wire\<close>: the guest-claims payload (\<open>payload.go\<close>), the
  config-nonce challenge (\<open>challenge.go\<close>) and response (\<open>response.go\<close>). The locale \<open>wire_codec\<close> is
  what the agent and the server plugin rely on; it is interpreted on each codec.
\<close>

section \<open>Message texts\<close>

fun decimal :: "nat \<Rightarrow> string" where
  "decimal n = (if n < 10 then [hex_digit n] else decimal (n div 10) @ [hex_digit (n mod 10)])"

declare decimal.simps [simp del]

definition json_int :: "int \<Rightarrow> jval" where
  "json_int n = JNumber ((if n < 0 then ''-'' else []) @ decimal (nat \<bar>n\<bar>))"

definition json_string :: "string \<Rightarrow> jval" where
  "json_string s = JString (quote_body s)"

text \<open>The typed envelope every message has: \<open>{version, <member>: ... {type, version, data}}\<close>.\<close>

definition typed_body :: "string \<Rightarrow> int \<Rightarrow> jval \<Rightarrow> jval" where
  "typed_body t n data =
     JObject [(''type'', json_string t), (''version'', json_int n), (''data'', data)]"

section \<open>Payload (\<open>payload.go\<close>)\<close>

record payloadData =
  pd_instance_name :: string
  pd_project :: string
  pd_instance_type :: string
  pd_uuid :: string
  pd_location :: string
  pd_cloud_init_id :: string

definition payloadData_json :: "payloadData \<Rightarrow> jval" where
  "payloadData_json d =
     JObject ([(''instance_name'', json_string (pd_instance_name d))] @
       (if pd_project d = [] then [] else [(''project'', json_string (pd_project d))]) @
       [(''instance_type'', json_string (pd_instance_type d)),
        (''uuid'', json_string (pd_uuid d)),
        (''location'', json_string (pd_location d)),
        (''cloud_init_id'', json_string (pd_cloud_init_id d))])"

record payloadEvidence =
  pe_type :: string
  pe_version :: int
  pe_data :: payloadData

record payloadEnvelope =
  pv_version :: int
  pv_evidence :: "payloadEvidence list"

definition payloadEnvelope_json :: "payloadEnvelope \<Rightarrow> jval" where
  "payloadEnvelope_json e =
     JObject [(''version'', json_int (pv_version e)),
       (''evidence'', JArray (map (\<lambda>i. typed_body (pe_type i) (pe_version i) (payloadData_json (pe_data i)))
          (pv_evidence e)))]"

record decodedPayload =
  dp_version :: "int option"
  dp_evidence :: "jval option"

record decodedPayloadData =
  dd_instance_name :: string
  dd_project :: "jval option"
  dd_instance_type :: string
  dd_uuid :: string
  dd_location :: string
  dd_cloud_init_id :: string

definition payloadUUID :: "uuid_lib \<Rightarrow> string \<Rightarrow> string result" where
  "payloadUUID ul raw =
     (case requireNonEmpty raw ''uuid'' of
        Some e \<Rightarrow> Inl e
      | None \<Rightarrow>
         (case NewInstanceUUID ul raw of
            Inl _ \<Rightarrow> Inl (invalid ''uuid is not a canonical UUID'')
          | Inr i \<Rightarrow> Inr i))"

text \<open>The first of the listed checks that fails.\<close>

fun first_error :: "goerr option list \<Rightarrow> goerr option" where
  "first_error [] = None"
| "first_error (None # es) = first_error es"
| "first_error (Some e # _) = Some e"

definition EncodePayload :: "uuid_lib \<Rightarrow> claims \<Rightarrow> string result" where
  "EncodePayload ul c =
     (case payloadUUID ul (cl_uuid c) of
        Inl e \<Rightarrow> Inl e
      | Inr i \<Rightarrow>
         (case first_error
                 [requireNonEmpty (cl_name c) ''instance_name'',
                  requireNonEmpty (cl_type c) ''instance_type'',
                  requireNonEmpty (cl_location c) ''location'',
                  requireNonEmpty (cl_cloud_init_id c) ''cloud_init_id''] of
            Some e \<Rightarrow> Inl e
          | None \<Rightarrow>
              encodeMessage (payloadEnvelope_json
                \<lparr>pv_version = envelopeVersion,
                 pv_evidence = [\<lparr>pe_type = guestClaimsType, pe_version = guestClaimsVersion,
                   pe_data = \<lparr>pd_instance_name = cl_name c, pd_project = cl_project c,
                     pd_instance_type = cl_type c, pd_uuid = i, pd_location = cl_location c,
                     pd_cloud_init_id = cl_cloud_init_id c\<rparr>\<rparr>]\<rparr>)))"

definition decodedPayload_fields :: "(string \<times> decodedPayload setter) list" where
  "decodedPayload_fields =
     [(''version'', int_ptr_field (\<lambda>x r. r\<lparr>dp_version := x\<rparr>)),
      (''evidence'', raw_field (\<lambda>x r. r\<lparr>dp_evidence := x\<rparr>))]"

definition decodedPayloadData_fields :: "(string \<times> decodedPayloadData setter) list" where
  "decodedPayloadData_fields =
     [(''instance_name'', string_field (\<lambda>x r. r\<lparr>dd_instance_name := x\<rparr>)),
      (''project'', raw_field (\<lambda>x r. r\<lparr>dd_project := x\<rparr>)),
      (''instance_type'', string_field (\<lambda>x r. r\<lparr>dd_instance_type := x\<rparr>)),
      (''uuid'', string_field (\<lambda>x r. r\<lparr>dd_uuid := x\<rparr>)),
      (''location'', string_field (\<lambda>x r. r\<lparr>dd_location := x\<rparr>)),
      (''cloud_init_id'', string_field (\<lambda>x r. r\<lparr>dd_cloud_init_id := x\<rparr>))]"

text \<open>The optional project hint: absent, or a raw message that must hold a nonempty string.\<close>

definition decodeProject :: "jval option \<Rightarrow> string result" where
  "decodeProject raw =
     (case raw of
        None \<Rightarrow> Inr []
      | Some v \<Rightarrow>
         (case decodeStrictRaw unmarshal_string v of
            Inl e \<Rightarrow> Inl e
          | Inr project \<Rightarrow> if project = [] then Inl (invalid ''project is empty'') else Inr project))"

definition decodeClaims :: "uuid_lib \<Rightarrow> decodedPayloadData \<Rightarrow> claims result" where
  "decodeClaims ul d =
     (case first_error
             [requireNonEmpty (dd_instance_name d) ''instance_name'',
              requireNonEmpty (dd_instance_type d) ''instance_type'',
              requireNonEmpty (dd_location d) ''location'',
              requireNonEmpty (dd_cloud_init_id d) ''cloud_init_id''] of
        Some e \<Rightarrow> Inl e
      | None \<Rightarrow>
         (case payloadUUID ul (dd_uuid d) of
            Inl e \<Rightarrow> Inl e
          | Inr i \<Rightarrow>
             (case decodeProject (dd_project d) of
                Inl e \<Rightarrow> Inl e
              | Inr project \<Rightarrow>
                  Inr \<lparr>cl_project = project, cl_name = dd_instance_name d, cl_uuid = i,
                       cl_type = dd_instance_type d, cl_location = dd_location d,
                       cl_cloud_init_id = dd_cloud_init_id d\<rparr>)))"

definition DecodePayload :: "uuid_lib \<Rightarrow> string \<Rightarrow> claims result" where
  "DecodePayload ul raw =
     (case decodeMessage (unmarshal_struct decodedPayload_fields \<lparr>dp_version = None, dp_evidence = None\<rparr>) raw of
        Inl e \<Rightarrow> Inl e
      | Inr env \<Rightarrow>
         (case requireVersion (dp_version env) ''envelope'' of
            Some e \<Rightarrow> Inl e
          | None \<Rightarrow>
             (case dp_evidence env of
                None \<Rightarrow> Inl (invalid ''evidence is required'')
              | Some ev \<Rightarrow>
                 (case decodeStrictRaw unmarshal_raw_list ev of
                    Inl e \<Rightarrow> Inl e
                  | Inr items \<Rightarrow>
                      if length items \<noteq> 1 then
                        Inl (Wrapf [] ErrInvalid [Txt '': evidence count '', Num (int (length items)), Txt '', want 1''])
                      else
                        (case decodeTypedObject (Some (items ! 0)) guestClaimsType ''evidence'' of
                           Inl e \<Rightarrow> Inl e
                         | Inr dataRaw \<Rightarrow>
                            (case decodeStrictRaw (unmarshal_struct decodedPayloadData_fields
                                     \<lparr>dd_instance_name = [], dd_project = None, dd_instance_type = [],
                                      dd_uuid = [], dd_location = [], dd_cloud_init_id = []\<rparr>) dataRaw of
                               Inl e \<Rightarrow> Inl e
                             | Inr d \<Rightarrow> decodeClaims ul d))))))"

section \<open>Challenge (\<open>challenge.go\<close>)\<close>

definition challenge_json :: "int \<Rightarrow> string \<Rightarrow> int \<Rightarrow> string \<Rightarrow> jval" where
  "challenge_json version t body_version key =
     JObject [(''version'', json_int version),
       (''challenge'', typed_body t body_version (JObject [(''config_key'', json_string key)]))]"

definition EncodeChallenge :: "string \<Rightarrow> string result" where
  "EncodeChallenge key =
     (case NewConfigKey key of
        Inl _ \<Rightarrow> Inl (invalid ''invalid config_key'')
      | Inr parsed \<Rightarrow> encodeMessage (challenge_json envelopeVersion configNonceType configNonceVersion parsed))"

record decodedChallenge =
  dc_version :: "int option"
  dc_challenge :: "jval option"

definition decodedChallenge_fields :: "(string \<times> decodedChallenge setter) list" where
  "decodedChallenge_fields =
     [(''version'', int_ptr_field (\<lambda>x r. r\<lparr>dc_version := x\<rparr>)),
      (''challenge'', raw_field (\<lambda>x r. r\<lparr>dc_challenge := x\<rparr>))]"

text \<open>A body with one string member; the decoded struct is that string.\<close>

definition one_string_field :: "string \<Rightarrow> (string \<times> string setter) list" where
  "one_string_field name = [(name, string_field (\<lambda>x r. x))]"

definition DecodeChallenge :: "string \<Rightarrow> string result" where
  "DecodeChallenge raw =
     (case decodeMessage (unmarshal_struct decodedChallenge_fields \<lparr>dc_version = None, dc_challenge = None\<rparr>) raw of
        Inl e \<Rightarrow> Inl e
      | Inr env \<Rightarrow>
         (case requireVersion (dc_version env) ''envelope'' of
            Some e \<Rightarrow> Inl e
          | None \<Rightarrow>
             (case decodeTypedObject (dc_challenge env) configNonceType ''challenge'' of
                Inl e \<Rightarrow> Inl e
              | Inr dataRaw \<Rightarrow>
                 (case decodeStrictRaw (unmarshal_struct (one_string_field ''config_key'') []) dataRaw of
                    Inl e \<Rightarrow> Inl e
                  | Inr config_key \<Rightarrow>
                     (case requireNonEmpty config_key ''config_key'' of
                        Some e \<Rightarrow> Inl e
                      | None \<Rightarrow>
                         (case NewConfigKey config_key of
                            Inl _ \<Rightarrow> Inl (invalid ''invalid config_key'')
                          | Inr key \<Rightarrow> Inr key))))))"

section \<open>Response (\<open>response.go\<close>)\<close>

definition response_json :: "int \<Rightarrow> string \<Rightarrow> int \<Rightarrow> string \<Rightarrow> jval" where
  "response_json version t body_version nonce =
     JObject [(''version'', json_int version),
       (''response'', typed_body t body_version (JObject [(''nonce'', json_string nonce)]))]"

definition EncodeResponse :: "string \<Rightarrow> string result" where
  "EncodeResponse nonce =
     encodeMessage (response_json envelopeVersion configNonceType configNonceVersion (b64_encode nonce))"

record decodedResponse =
  dr_version :: "int option"
  dr_response :: "jval option"

definition decodedResponse_fields :: "(string \<times> decodedResponse setter) list" where
  "decodedResponse_fields =
     [(''version'', int_ptr_field (\<lambda>x r. r\<lparr>dr_version := x\<rparr>)),
      (''response'', raw_field (\<lambda>x r. r\<lparr>dr_response := x\<rparr>))]"

definition ParseNonce :: "string \<Rightarrow> string result" where
  "ParseNonce raw =
     (if length raw \<noteq> b64_encoded_len nonceSize then Inl (invalid ''invalid nonce length'')
      else case b64_decode raw of
        None \<Rightarrow> Inl (invalid ''invalid nonce encoding'')
      | Some decoded \<Rightarrow>
         (case NewNonce decoded of
            Inl _ \<Rightarrow> Inl (invalid ''invalid nonce length'')
          | Inr nonce \<Rightarrow> Inr nonce))"

definition DecodeResponse :: "string \<Rightarrow> string result" where
  "DecodeResponse raw =
     (case decodeMessage (unmarshal_struct decodedResponse_fields \<lparr>dr_version = None, dr_response = None\<rparr>) raw of
        Inl e \<Rightarrow> Inl e
      | Inr env \<Rightarrow>
         (case requireVersion (dr_version env) ''envelope'' of
            Some e \<Rightarrow> Inl e
          | None \<Rightarrow>
             (case decodeTypedObject (dr_response env) configNonceType ''response'' of
                Inl e \<Rightarrow> Inl e
              | Inr dataRaw \<Rightarrow>
                 (case decodeStrictRaw (unmarshal_struct (one_string_field ''nonce'') []) dataRaw of
                    Inl e \<Rightarrow> Inl e
                  | Inr nonce \<Rightarrow>
                     (case requireNonEmpty nonce ''nonce'' of
                        Some e \<Rightarrow> Inl e
                      | None \<Rightarrow> ParseNonce nonce)))))"

section \<open>Encoded messages\<close>

lemma escape_ascii_ascii: "bv c < 128 \<Longrightarrow> list_all (\<lambda>b. bv b < 128) (escape_ascii c)"
proof -
  assume c: "bv c < 128"
  have hex: "bv (hex_digit n) < 128" if "n < 16" for n
    using hex_digit_in [OF that] by (auto simp: hex_digits_def)
  from escape_ascii_cases [OF c] show ?thesis
  proof cases
    case (2 e)
    then show ?thesis by (auto simp: simple_escape_def)
  next
    case 3
    with hex show ?thesis by (simp add: unicode_escape_def)
  qed (simp add: c)
qed

lemma utf8_valid_quote_body [simp, wire_simps]: "utf8_valid (quote_body s)"
proof (induction s rule: quote_body.induct)
  case (2 c s)
  show ?case
  proof (cases "bv c < 128")
    case True
    with 2(1) show ?thesis
      by (simp add: utf8_valid_append [OF utf8_valid_ascii [OF escape_ascii_ascii]])
  next
    case high: False
    show ?thesis
    proof (cases "mb_len (c # s)")
      case 0
      have "utf8_valid (CHR 0x5C # ''ufffd'')" by (intro utf8_valid_ascii) simp
      from utf8_valid_append [OF this, of "quote_body s"] 0 2(2) high show ?thesis by simp
    next
      case (Suc n)
      have "utf8_valid (escape_rune (c # take n s))"
      proof (cases rule: escape_rune_cases [of "c # take n s"])
        case 1
        with utf8_valid_head [OF Suc] show ?thesis by simp
      next
        case 2
        show ?thesis unfolding 2(1) by (intro utf8_valid_ascii) simp
      next
        case 3
        show ?thesis unfolding 3(1) by (intro utf8_valid_ascii) simp
      qed
      with Suc 2(3) high show ?thesis by (simp add: utf8_valid_append)
    qed
  qed
qed simp

text \<open>Values whose literals are well-formed UTF-8, and with them their compact text.\<close>

fun jval_utf8 :: "jval \<Rightarrow> bool" where
  "jval_utf8 (JNumber l) = utf8_valid l"
| "jval_utf8 (JString b) = utf8_valid b"
| "jval_utf8 (JArray vs) = list_all jval_utf8 vs"
| "jval_utf8 (JObject ms) = list_all (\<lambda>m. utf8_valid (fst m) \<and> jval_utf8 (snd m)) ms"
| "jval_utf8 _ = True"

lemma utf8_valid_byte [simp]: "bv c < 128 \<Longrightarrow> utf8_valid (c # s) = utf8_valid s"
  by simp

lemma utf8_valid_join: "list_all utf8_valid xs \<Longrightarrow> utf8_valid (join_comma xs)"
  by (induction xs rule: join_comma.induct) (simp_all add: utf8_valid_append)

lemma utf8_compact: "jval_utf8 v \<Longrightarrow> utf8_valid (compact v)"
proof (induction v rule: compact.induct)
  case (5 vs)
  then have "list_all utf8_valid (map compact vs)" by (auto simp: list_all_iff)
  from utf8_valid_append [OF utf8_valid_join [OF this], of "'']''"] show ?case by simp
next
  case (6 ms)
  then have "list_all utf8_valid (map (\<lambda>m. CHR 0x22 # fst m @ CHR 0x22 # CHR '':'' # compact (snd m)) ms)"
    by (auto simp: list_all_iff utf8_valid_append)
  from utf8_valid_append [OF utf8_valid_join [OF this], of "''}''"] show ?case by simp
qed (simp_all add: utf8_valid_append)

lemma encodeMessage_Inr: "encodeMessage v = Inr raw \<longleftrightarrow> raw = compact v \<and> length raw \<le> maxMessageSize"
  by (auto simp: encodeMessage_def Let_def)

lemma encodeMessage_class: "encodeMessage v = Inl e \<Longrightarrow> err_is e s \<longleftrightarrow> s = WireInvalid"
  by (auto simp: encodeMessage_def Let_def split: if_splits)

lemma decode_encoded:
  assumes "encodeMessage v = Inr raw" "jval_ok v" "clean v" "jval_utf8 v" "depth v \<le> maxNestingDepth"
  shows "decodeMessage um raw = decodeStrictRaw um v"
proof -
  from assms(1) have raw: "raw = compact v" "length raw \<le> maxMessageSize" by (auto simp: encodeMessage_Inr)
  have "spells v raw" using assms(2) raw by (simp add: spells_compact)
  then have "spelled v raw" unfolding spelled_def by (metis append_Nil append_Nil2 ws_Nil)
  with raw assms utf8_compact [of v] have "decodeRaw raw = Inr raw" by (auto simp: decodeRaw_Inr)
  with decodeStrict_redecode [OF \<open>spells v raw\<close> assms(5), of um] show ?thesis
    by (simp add: decodeMessage_def)
qed

lemma json_int_1 [wire_simps]: "json_int 1 = JNumber ''1''"
  by (simp add: json_int_def decimal.simps hex_digit_def hex_digits_def)

lemma num_1 [wire_simps]: "num_lit ''1''" "number_in_range ''1''" "parse_int64 ''1'' = Some 1"
proof -
  show "num_lit ''1''"
    by (simp add: num_lit_def scan_num_def scan_int_def scan_frac_def scan_exp_def is_digit_def)
  show "number_in_range ''1''"
    by (simp add: number_in_range_def is_digit_def digits_val_def digit_val_def exp_val_def Let_def)
  show "parse_int64 ''1'' = Some 1"
    by (simp add: parse_int64_def is_digit_def digits_val_def digit_val_def Let_def)
qed

lemma unquote_plain_text:
  "list_all (\<lambda>c. plain_byte c \<and> bv c < 128) s \<Longrightarrow> unquote s = Some s"
  by (induction s) (simp_all add: unquote_plain_ascii)

lemma str_body_plain_text:
  "list_all (\<lambda>c. plain_byte c \<and> bv c < 128) s \<Longrightarrow> str_body s"
proof -
  assume "list_all (\<lambda>c. plain_byte c \<and> bv c < 128) s"
  then have "list_all plain_byte s" by (simp add: list_all_iff)
  then show ?thesis using scan_str_plain [of s "[CHR 0x22]" "[]" "[]"]
    by (simp add: str_body_def scan_str.simps(2))
qed

definition field_names :: "string list" where
  "field_names = [''version'', ''evidence'', ''type'', ''data'', ''instance_name'', ''project'',
     ''instance_type'', ''uuid'', ''location'', ''cloud_init_id'', ''challenge'', ''config_key'',
     ''response'', ''nonce'', ''Version'']"

lemma field_names_plain:
  assumes "n \<in> set field_names"
  shows "unquote n = Some n" "str_body n" "utf8_valid n" "key_text (n, v) = n"
proof -
  have "list_all (list_all (\<lambda>c. plain_byte c \<and> bv c < 128)) field_names"
    by (simp add: field_names_def plain_byte_def)
  with assms have p: "list_all (\<lambda>c. plain_byte c \<and> bv c < 128) n" by (simp add: list_all_iff)
  then show u: "unquote n = Some n" and "str_body n"
    by (simp_all add: unquote_plain_text str_body_plain_text)
  from p show "utf8_valid n" by (intro utf8_valid_ascii) (simp add: list_all_iff)
  from u show "key_text (n, v) = n" by (simp add: key_text_def)
qed

lemmas names_plain [wire_simps] =
  field_names_plain [of "''version''", unfolded field_names_def, simplified]
  field_names_plain [of "''evidence''", unfolded field_names_def, simplified]
  field_names_plain [of "''type''", unfolded field_names_def, simplified]
  field_names_plain [of "''data''", unfolded field_names_def, simplified]
  field_names_plain [of "''instance_name''", unfolded field_names_def, simplified]
  field_names_plain [of "''project''", unfolded field_names_def, simplified]
  field_names_plain [of "''instance_type''", unfolded field_names_def, simplified]
  field_names_plain [of "''uuid''", unfolded field_names_def, simplified]
  field_names_plain [of "''location''", unfolded field_names_def, simplified]
  field_names_plain [of "''cloud_init_id''", unfolded field_names_def, simplified]
  field_names_plain [of "''challenge''", unfolded field_names_def, simplified]
  field_names_plain [of "''config_key''", unfolded field_names_def, simplified]
  field_names_plain [of "''response''", unfolded field_names_def, simplified]
  field_names_plain [of "''nonce''", unfolded field_names_def, simplified]
  field_names_plain [of "''Version''", unfolded field_names_def, simplified]

section \<open>Decoding what was encoded\<close>

definition good_json :: "jval \<Rightarrow> bool" where
  "good_json v \<longleftrightarrow> jval_ok v \<and> clean v \<and> jval_utf8 v"

lemma good_json_string [simp]: "good_json (json_string s)" "depth (json_string s) = 0"
  by (simp_all add: good_json_def json_string_def)

lemma good_json_1 [simp]: "good_json (json_int 1)" "depth (json_int 1) = 0"
proof -
  have "utf8_valid ''1''" by (intro utf8_valid_ascii) simp
  then show "good_json (json_int 1)" by (simp add: good_json_def json_int_1 num_1)
  show "depth (json_int 1) = 0" by (simp add: json_int_def)
qed

lemma good_json_array [simp]: "good_json (JArray [v]) \<longleftrightarrow> good_json v"
  by (simp add: good_json_def)

lemma good_json_object:
  "good_json (JObject ms) \<longleftrightarrow> distinct (map key_text ms) \<and>
     list_all (\<lambda>m. str_body (fst m) \<and> utf8_valid (fst m) \<and> good_json (snd m)) ms"
  by (auto simp: good_json_def list_all_iff)

lemma good_typed_body [simp]:
  "good_json d \<Longrightarrow> good_json (typed_body t 1 d)" "depth (typed_body t n d) = Suc (depth d)"
proof -
  show "good_json d \<Longrightarrow> good_json (typed_body t 1 d)"
    by (simp add: typed_body_def good_json_object names_plain)
  show "depth (typed_body t n d) = Suc (depth d)"
    by (simp add: typed_body_def json_int_def json_string_def)
qed

lemma decode_good:
  "encodeMessage v = Inr raw \<Longrightarrow> good_json v \<Longrightarrow> depth v \<le> maxNestingDepth \<Longrightarrow>
   decodeMessage um raw = decodeStrictRaw um v"
  by (simp add: decode_encoded good_json_def)

lemma decodeTypedObject_body:
  assumes "utf8_valid t" "t \<noteq> []"
  shows "decodeTypedObject (Some (typed_body t 1 d)) t what = Inr d"
  using assms
  by (simp add: decodeTypedObject_def decodeStrictRaw_def unmarshal_struct_def typed_body_def names_plain
      typedObject_fields_def find_field_def string_ptr_field_def int_ptr_field_def raw_field_def
      json_string_def json_int_1 num_1 unquote_quote_body to_valid_id requireType_def requireVersion_def)

lemma type_names_valid: "utf8_valid guestClaimsType" "guestClaimsType \<noteq> []"
  "utf8_valid configNonceType" "configNonceType \<noteq> []"
proof -
  show "utf8_valid guestClaimsType" "utf8_valid configNonceType"
    by (rule utf8_valid_ascii; simp add: guestClaimsType_def configNonceType_def)+
qed (simp_all add: guestClaimsType_def configNonceType_def)

lemma requireNonEmpty_None: "requireNonEmpty v n = None \<longleftrightarrow> v \<noteq> []"
  by (simp add: requireNonEmpty_def)

lemma requireNonEmpty_class: "requireNonEmpty v n = Some e \<Longrightarrow> err_is e s \<longleftrightarrow> s = WireInvalid"
  by (auto simp: requireNonEmpty_def split: if_splits)

lemma first_error_None: "first_error es = None \<longleftrightarrow> (\<forall>e\<in>set es. e = None)"
  by (induction es rule: first_error.induct) auto

lemma first_error_in: "first_error es = Some e \<Longrightarrow> Some e \<in> set es"
  by (induction es rule: first_error.induct) auto

subsection \<open>Challenge\<close>

lemma good_challenge: "good_json (challenge_json 1 t 1 key)" "depth (challenge_json 1 t 1 key) = 3"
proof -
  have "good_json (JObject [(''config_key'', json_string key)])"
    by (simp add: good_json_object names_plain)
  then show "good_json (challenge_json 1 t 1 key)"
    by (simp add: challenge_json_def good_json_object names_plain)
  show "depth (challenge_json 1 t 1 key) = 3" by (simp add: challenge_json_def)
qed

lemma max_depth_3: "n \<le> 5 \<Longrightarrow> n \<le> maxNestingDepth"
  by (simp add: maxNestingDepth_def)

lemma key_valid:
  assumes "NewConfigKey key = Inr k"
  shows "k = key" "utf8_valid key" "key \<noteq> []"
proof -
  from assms obtain a where k: "k = key" "key = configKeyPrefix @ a" "set a \<subseteq> set hex_digits"
    by (auto simp: NewConfigKey_Inr)
  from k(1,2) show "k = key" "key \<noteq> []" by (simp_all add: configKeyPrefix_def)
  have "list_all (\<lambda>b. bv b < 128) hex_digits" by (simp add: hex_digits_def)
  with k(3) have "list_all (\<lambda>b. bv b < 128) a" by (auto simp: list_all_iff)
  then have "list_all (\<lambda>b. bv b < 128) key" by (simp add: k configKeyPrefix_def)
  then show "utf8_valid key" by (rule utf8_valid_ascii)
qed

lemma decode_challenge_json:
  assumes "encodeMessage (challenge_json 1 configNonceType 1 key) = Inr raw" "NewConfigKey key = Inr key"
  shows "DecodeChallenge raw = Inr key"
  using key_valid [OF assms(2)] assms(2)
    decodeTypedObject_body [OF type_names_valid(3,4), of "JObject [(''config_key'', json_string key)]" "''challenge''"]
  by (simp add: DecodeChallenge_def decode_good [OF assms(1) good_challenge(1)] good_challenge(2) max_depth_3
      decodeStrictRaw_def challenge_json_def unmarshal_struct_def names_plain decodedChallenge_fields_def
      find_field_def int_ptr_field_def raw_field_def json_int_1 num_1 requireVersion_def
      one_string_field_def string_field_def json_string_def unquote_quote_body to_valid_id requireNonEmpty_def)

lemma challenge_roundtrip: "EncodeChallenge key = Inr raw \<Longrightarrow> DecodeChallenge raw = Inr key"
  using key_valid(1) [of key] decode_challenge_json [of key raw]
  by (auto simp: EncodeChallenge_def envelopeVersion_def configNonceVersion_def split: sum.splits)

subsection \<open>Response\<close>

lemma good_response: "good_json (response_json 1 t 1 n)" "depth (response_json 1 t 1 n) = 3"
proof -
  have "good_json (JObject [(''nonce'', json_string n)])"
    by (simp add: good_json_object names_plain)
  then show "good_json (response_json 1 t 1 n)"
    by (simp add: response_json_def good_json_object names_plain)
  show "depth (response_json 1 t 1 n) = 3" by (simp add: response_json_def)
qed

lemma full_filter: "length (filter P xs) = length xs \<Longrightarrow> filter P xs = xs"
  by (metis filter_id_conv length_filter_less less_irrefl)

lemma ParseNonce_Inr: "ParseNonce raw = Inr n \<longleftrightarrow> length n = 16 \<and> raw = b64_encode n"
proof
  assume "ParseNonce raw = Inr n"
  then have n: "length raw = b64_encoded_len 16" "length n = 16" "b64_decode raw = Some n"
    by (auto simp: ParseNonce_def NewNonce_def nonceSize_def split: option.splits sum.splits if_splits)
  from b64_decode_SomeD [OF n(3)] length_b64_encode [of n] n(1,2)
    full_filter [of "\<lambda>c. \<not> b64_skipped c" raw]
  show "length n = 16 \<and> raw = b64_encode n" by simp
qed (auto simp: ParseNonce_def NewNonce_def nonceSize_def b64_decode_encode length_b64_encode)

lemma ParseNonce_class: "ParseNonce raw = Inl e \<Longrightarrow> err_is e s \<longleftrightarrow> s = WireInvalid"
  by (auto simp: ParseNonce_def split: if_splits option.splits sum.splits)

lemma b64_encode_alphabet: "set (b64_encode n) \<subseteq> set b64_alphabet"
proof
  fix c assume "c \<in> set (b64_encode n)"
  then obtain k where k: "k \<in> set (b64_sextets (map of_char n))" "c = b64_char k" by (auto simp: b64_encode_def)
  have "\<forall>b\<in>set (map of_char n). b < (256 :: nat)" by simp
  from b64_sextets_bound [OF this] k(1) have "k < 64" by blast
  moreover have "length b64_alphabet = 64" by (simp add: b64_alphabet_def)
  ultimately have "k < length b64_alphabet" by simp
  with k(2) show "c \<in> set b64_alphabet" by (simp add: b64_char_def)
qed

lemma b64_encode_ascii: "utf8_valid (b64_encode n)"
proof -
  have "list_all (\<lambda>b. bv b < 128) b64_alphabet" by (simp add: b64_alphabet_def)
  with b64_encode_alphabet [of n] show ?thesis by (intro utf8_valid_ascii) (auto simp: list_all_iff)
qed

lemma decode_response_json:
  assumes "encodeMessage (response_json 1 configNonceType 1 (b64_encode n)) = Inr raw" "length n = 16"
  shows "DecodeResponse raw = Inr n"
proof -
  have ne: "b64_encode n \<noteq> []" using length_b64_encode [of n] assms(2) by (auto simp: b64_encoded_len_def)
  have "ParseNonce (b64_encode n) = Inr n" using assms(2) by (simp add: ParseNonce_Inr)
  with ne decodeTypedObject_body [OF type_names_valid(3,4), of "JObject [(''nonce'', json_string (b64_encode n))]" "''response''"]
  show ?thesis
    by (simp add: DecodeResponse_def decode_good [OF assms(1) good_response(1)] good_response(2) max_depth_3
      decodeStrictRaw_def response_json_def unmarshal_struct_def names_plain decodedResponse_fields_def
      find_field_def int_ptr_field_def raw_field_def json_int_1 num_1 requireVersion_def b64_encode_ascii
      one_string_field_def string_field_def json_string_def unquote_quote_body to_valid_id requireNonEmpty_def)
qed

lemma response_roundtrip: "EncodeResponse n = Inr raw \<Longrightarrow> length n = 16 \<Longrightarrow> DecodeResponse raw = Inr n"
  using decode_response_json [of n raw]
  by (simp add: EncodeResponse_def envelopeVersion_def configNonceVersion_def)

subsection \<open>Payload\<close>

lemma to_valid_Nil [simp]: "to_valid s = [] \<longleftrightarrow> s = []"
  by (cases s) (simp_all add: rune_error_def split: nat.splits)

text \<open>\<open>Marshal\<close> writes ill-formed bytes as U+FFFD: what a payload carries of given claims.\<close>

definition carried :: "uuid_lib \<Rightarrow> claims \<Rightarrow> claims" where
  "carried ul c =
     \<lparr>cl_project = to_valid (cl_project c), cl_name = to_valid (cl_name c),
      cl_uuid = (case NewInstanceUUID ul (cl_uuid c) of Inl _ \<Rightarrow> [] | Inr i \<Rightarrow> i),
      cl_type = to_valid (cl_type c), cl_location = to_valid (cl_location c),
      cl_cloud_init_id = to_valid (cl_cloud_init_id c)\<rparr>"

lemma good_payload:
  "good_json (payloadData_json d)" "depth (payloadData_json d) = 1"
  "good_json (payloadEnvelope_json \<lparr>pv_version = 1, pv_evidence = [\<lparr>pe_type = t, pe_version = 1, pe_data = d\<rparr>]\<rparr>)"
  "depth (payloadEnvelope_json \<lparr>pv_version = 1, pv_evidence = [\<lparr>pe_type = t, pe_version = 1, pe_data = d\<rparr>]\<rparr>) = 4"
proof -
  show g: "good_json (payloadData_json d)" and "depth (payloadData_json d) = 1"
    by (simp_all add: payloadData_json_def good_json_object names_plain)
  then show "good_json (payloadEnvelope_json \<lparr>pv_version = 1, pv_evidence = [\<lparr>pe_type = t, pe_version = 1, pe_data = d\<rparr>]\<rparr>)"
    "depth (payloadEnvelope_json \<lparr>pv_version = 1, pv_evidence = [\<lparr>pe_type = t, pe_version = 1, pe_data = d\<rparr>]\<rparr>) = 4"
    by (simp_all add: payloadEnvelope_json_def good_json_object names_plain)
qed

lemma payloadUUID_Inr: "payloadUUID ul raw = Inr i \<longleftrightarrow> raw \<noteq> [] \<and> NewInstanceUUID ul raw = Inr i"
  by (auto simp: payloadUUID_def requireNonEmpty_def split: sum.splits)

lemma payloadUUID_class: "payloadUUID ul raw = Inl e \<Longrightarrow> err_is e s \<longleftrightarrow> s = WireInvalid"
  by (auto simp: payloadUUID_def requireNonEmpty_class split: option.splits sum.splits)

lemma canonical_valid:
  assumes "uuid_laws ul" "NewInstanceUUID ul raw = Inr i"
  shows "utf8_valid i" "i \<noteq> []" "NewInstanceUUID ul i = Inr i"
proof -
  note c = uuid_canonical [OF assms]
  then show "NewInstanceUUID ul i = Inr i" "i \<noteq> []" by auto
  have "list_all (\<lambda>b. bv b < 128) (CHR ''-'' # hex_digits)" by (simp add: hex_digits_def)
  with c(3) have "list_all (\<lambda>b. bv b < 128) i" by (auto simp: list_all_iff)
  then show "utf8_valid i" by (rule utf8_valid_ascii)
qed

lemma EncodePayload_Inr:
  "EncodePayload ul c = Inr raw \<longleftrightarrow>
     (\<exists>i. NewInstanceUUID ul (cl_uuid c) = Inr i \<and> cl_uuid c \<noteq> [] \<and> cl_name c \<noteq> [] \<and> cl_type c \<noteq> [] \<and>
        cl_location c \<noteq> [] \<and> cl_cloud_init_id c \<noteq> [] \<and>
        encodeMessage (payloadEnvelope_json \<lparr>pv_version = 1,
          pv_evidence = [\<lparr>pe_type = guestClaimsType, pe_version = 1,
            pe_data = \<lparr>pd_instance_name = cl_name c, pd_project = cl_project c,
              pd_instance_type = cl_type c, pd_uuid = i, pd_location = cl_location c,
              pd_cloud_init_id = cl_cloud_init_id c\<rparr>\<rparr>]\<rparr>) = Inr raw)"
proof (cases "payloadUUID ul (cl_uuid c)")
  case (Inl e)
  then have "\<not> (cl_uuid c \<noteq> [] \<and> NewInstanceUUID ul (cl_uuid c) = Inr i)" for i
    using payloadUUID_Inr [of ul "cl_uuid c" i] by simp
  with Inl show ?thesis by (auto simp: EncodePayload_def)
next
  case (Inr i)
  then have "cl_uuid c \<noteq> []" "NewInstanceUUID ul (cl_uuid c) = Inr i" by (simp_all add: payloadUUID_Inr)
  with Inr show ?thesis
    by (simp add: EncodePayload_def requireNonEmpty_def envelopeVersion_def guestClaimsVersion_def)
qed

lemma payload_roundtrip:
  assumes "EncodePayload ul c = Inr raw" "uuid_laws ul"
  shows "DecodePayload ul raw = Inr (carried ul c)"
proof -
  from assms(1) obtain i where i: "NewInstanceUUID ul (cl_uuid c) = Inr i"
    and ne: "cl_name c \<noteq> []" "cl_type c \<noteq> []" "cl_location c \<noteq> []" "cl_cloud_init_id c \<noteq> []"
    and enc: "encodeMessage (payloadEnvelope_json \<lparr>pv_version = 1,
          pv_evidence = [\<lparr>pe_type = guestClaimsType, pe_version = 1,
            pe_data = \<lparr>pd_instance_name = cl_name c, pd_project = cl_project c,
              pd_instance_type = cl_type c, pd_uuid = i, pd_location = cl_location c,
              pd_cloud_init_id = cl_cloud_init_id c\<rparr>\<rparr>]\<rparr>) = Inr raw"
    by (auto simp: EncodePayload_Inr)
  let ?d = "\<lparr>pd_instance_name = cl_name c, pd_project = cl_project c,
              pd_instance_type = cl_type c, pd_uuid = i, pd_location = cl_location c,
              pd_cloud_init_id = cl_cloud_init_id c\<rparr>"
  note can = canonical_valid [OF assms(2) i]
  have dec: "decodeStrictRaw (unmarshal_struct decodedPayloadData_fields
       \<lparr>dd_instance_name = [], dd_project = None, dd_instance_type = [], dd_uuid = [], dd_location = [], dd_cloud_init_id = []\<rparr>)
       (payloadData_json ?d) =
     Inr \<lparr>dd_instance_name = to_valid (cl_name c),
          dd_project = (if cl_project c = [] then None else Some (json_string (cl_project c))),
          dd_instance_type = to_valid (cl_type c), dd_uuid = i, dd_location = to_valid (cl_location c),
          dd_cloud_init_id = to_valid (cl_cloud_init_id c)\<rparr>"
    using can
    by (simp add: decodeStrictRaw_def unmarshal_struct_def payloadData_json_def decodedPayloadData_fields_def
        names_plain find_field_def string_field_def raw_field_def json_string_def unquote_quote_body to_valid_id)
  have pr: "decodeProject (if cl_project c = [] then None else Some (json_string (cl_project c))) = Inr (to_valid (cl_project c))"
    by (simp add: decodeProject_def decodeStrictRaw_def unmarshal_string_def json_string_def unquote_quote_body)
  have "payloadUUID ul i = Inr i" using can by (simp add: payloadUUID_Inr)
  then have cl: "decodeClaims ul \<lparr>dd_instance_name = to_valid (cl_name c),
          dd_project = (if cl_project c = [] then None else Some (json_string (cl_project c))),
          dd_instance_type = to_valid (cl_type c), dd_uuid = i, dd_location = to_valid (cl_location c),
          dd_cloud_init_id = to_valid (cl_cloud_init_id c)\<rparr> = Inr (carried ul c)"
    using ne pr i by (simp add: decodeClaims_def requireNonEmpty_def carried_def)
  have dm: "decodeMessage um raw = decodeStrictRaw um (payloadEnvelope_json \<lparr>pv_version = 1,
      pv_evidence = [\<lparr>pe_type = guestClaimsType, pe_version = 1, pe_data = ?d\<rparr>]\<rparr>)" for um :: "jval \<Rightarrow> json_error + 'x"
    by (rule decode_good [OF enc good_payload(3)]) (simp add: good_payload(4) max_depth_3)
  have env: "decodeStrictRaw (unmarshal_struct decodedPayload_fields \<lparr>dp_version = None, dp_evidence = None\<rparr>)
      (payloadEnvelope_json \<lparr>pv_version = 1, pv_evidence = [\<lparr>pe_type = guestClaimsType, pe_version = 1, pe_data = ?d\<rparr>]\<rparr>)
    = Inr \<lparr>dp_version = Some 1, dp_evidence = Some (JArray [typed_body guestClaimsType 1 (payloadData_json ?d)])\<rparr>"
    by (simp add: decodeStrictRaw_def payloadEnvelope_json_def unmarshal_struct_def names_plain
        decodedPayload_fields_def find_field_def int_ptr_field_def raw_field_def json_int_1 num_1)
  show ?thesis
    using decodeTypedObject_body [OF type_names_valid(1,2), of "payloadData_json ?d" "''evidence''"] dec cl
    by (simp add: DecodePayload_def dm env decodeStrictRaw_def [of unmarshal_raw_list] requireVersion_def
        unmarshal_raw_list_def)
qed

section \<open>What decoding guarantees\<close>

text \<open>The class of a decoding error: malformed, or well formed but of another contract.\<close>

definition wire_class :: "goerr \<Rightarrow> bool" where
  "wire_class e \<longleftrightarrow> err_is e = (\<lambda>s. s = WireInvalid) \<or> err_is e = (\<lambda>s. s = WireUnsupported)"

lemma wire_classI: "(\<And>s. err_is e s \<longleftrightarrow> s = WireInvalid) \<Longrightarrow> wire_class e"
  by (auto simp: wire_class_def fun_eq_iff)

lemma wire_class_denied: "wire_class e \<Longrightarrow> s \<noteq> WireInvalid \<Longrightarrow> s \<noteq> WireUnsupported \<Longrightarrow> \<not> err_is e s"
  by (auto simp: wire_class_def)

lemma requireVersion_class: "requireVersion v what = Some e \<Longrightarrow> wire_class e"
  by (auto simp: requireVersion_def wire_class_def fun_eq_iff split: option.splits if_splits)

lemma requireType_class: "requireType t want what = Some e \<Longrightarrow> wire_class e"
  by (auto simp: requireType_def wire_class_def fun_eq_iff split: option.splits if_splits)

lemma decodeTypedObject_class: "decodeTypedObject raw t what = Inl e \<Longrightarrow> wire_class e"
  by (auto simp: decodeTypedObject_def wire_classI requireVersion_class requireType_class
      decodeStrictRaw_class split: option.splits sum.splits)

lemma decodeProject_class: "decodeProject p = Inl e \<Longrightarrow> wire_class e"
  by (auto simp: decodeProject_def wire_classI decodeStrictRaw_class split: option.splits sum.splits if_splits)

lemma decodeClaims_class: "decodeClaims ul d = Inl e \<Longrightarrow> wire_class e"
  by (auto simp: decodeClaims_def wire_classI payloadUUID_class decodeProject_class requireNonEmpty_class
      dest!: first_error_in split: option.splits sum.splits)

lemma DecodePayload_class: "DecodePayload ul raw = Inl e \<Longrightarrow> wire_class e"
  by (auto simp: DecodePayload_def wire_classI decodeMessage_class requireVersion_class decodeStrictRaw_class
      decodeTypedObject_class decodeClaims_class split: option.splits sum.splits if_splits)

lemma DecodeChallenge_class: "DecodeChallenge raw = Inl e \<Longrightarrow> wire_class e"
  by (auto simp: DecodeChallenge_def wire_classI decodeMessage_class requireVersion_class decodeStrictRaw_class
      decodeTypedObject_class requireNonEmpty_class split: option.splits sum.splits)

lemma DecodeResponse_class: "DecodeResponse raw = Inl e \<Longrightarrow> wire_class e"
  by (auto simp: DecodeResponse_def wire_classI decodeMessage_class requireVersion_class decodeStrictRaw_class
      decodeTypedObject_class requireNonEmpty_class ParseNonce_class split: option.splits sum.splits)

text \<open>The decoded values: complete claims with a canonical UUID, a key of the challenge namespace,
  a 16-byte nonce.\<close>

definition decoded_claims :: "uuid_lib \<Rightarrow> claims \<Rightarrow> bool" where
  "decoded_claims ul c \<longleftrightarrow> cl_name c \<noteq> [] \<and> cl_type c \<noteq> [] \<and> cl_location c \<noteq> [] \<and> cl_cloud_init_id c \<noteq> [] \<and>
     (\<exists>raw. NewInstanceUUID ul raw = Inr (cl_uuid c))"

lemma decodeClaims_sound: "decodeClaims ul d = Inr c \<Longrightarrow> decoded_claims ul c"
  by (auto simp: decodeClaims_def decoded_claims_def payloadUUID_Inr first_error_None requireNonEmpty_None
      split: option.splits sum.splits)

lemma DecodePayload_sound: "DecodePayload ul raw = Inr c \<Longrightarrow> decoded_claims ul c"
  by (auto simp: DecodePayload_def decodeClaims_sound split: option.splits sum.splits if_splits)

lemma DecodeChallenge_sound: "DecodeChallenge raw = Inr k \<Longrightarrow> NewConfigKey k = Inr k"
  using key_valid(1) by (fastforce simp: DecodeChallenge_def split: option.splits sum.splits)

lemma DecodeResponse_sound: "DecodeResponse raw = Inr n \<Longrightarrow> length n = 16"
  by (auto simp: DecodeResponse_def ParseNonce_Inr split: option.splits sum.splits)

text \<open>
  The shape of an accepted message, over its members: the envelope is an object of version 1 with one more
  member, whose value is an object of the given type, version 1 and a data member; there are no others.
\<close>

definition version_1 :: "(string \<times> jval) list \<Rightarrow> bool" where
  "version_1 ms \<longleftrightarrow> (\<exists>v. last_member ''version'' ms = Some v \<and> int_value v = Some 1)"

definition message_shape :: "string \<Rightarrow> jval \<Rightarrow> jval \<Rightarrow> bool" where
  "message_shape name v body \<longleftrightarrow>
     (\<exists>ms. v = JObject ms \<and> only_members [''version'', name] ms \<and> version_1 ms \<and> last_member name ms = Some body)"

definition typed_shape :: "string \<Rightarrow> jval \<Rightarrow> (string \<times> jval) list \<Rightarrow> bool" where
  "typed_shape t v ds \<longleftrightarrow>
     (\<exists>ms. v = JObject ms \<and> only_members [''type'', ''version'', ''data''] ms \<and> version_1 ms \<and>
        (\<exists>u. last_member ''type'' ms = Some u \<and> string_value u = Some t) \<and> last_member ''data'' ms = Some (JObject ds))"

lemma last_of_fold:
  "fold (\<lambda>v _. g v) (member_values f ms) None = Some x \<longleftrightarrow> (\<exists>v. last_member f ms = Some v \<and> g v = Some x)"
  by (simp add: fold_last last_member_def)

lemma version_of_fold: "fold (\<lambda>v _. int_value v) (member_values ''version'' ms) None = Some 1 \<longleftrightarrow> version_1 ms"
  unfolding last_of_fold version_1_def ..

lemma raw_of_fold: "fold (\<lambda>v _. Some v) (member_values f ms) None = Some x \<longleftrightarrow> last_member f ms = Some x"
  unfolding last_of_fold by auto

lemma requireVersion_None: "requireVersion v what = None \<longleftrightarrow> v = Some 1"
  by (auto simp: requireVersion_def split: option.split)

lemma requireType_None: "t \<noteq> [] \<Longrightarrow> requireType got t what = None \<longleftrightarrow> got = Some t"
  by (auto simp: requireType_def split: option.split)

lemma envelope_folded:
  "distinct (map (fold_name \<circ> fst) decodedPayload_fields)" "distinct (map (fold_name \<circ> fst) decodedChallenge_fields)"
  "distinct (map (fold_name \<circ> fst) decodedResponse_fields)" "distinct (map (fold_name \<circ> fst) typedObject_fields)"
  "distinct (map (fold_name \<circ> fst) decodedPayloadData_fields)" "distinct (map (fold_name \<circ> fst) (one_string_field n))"
proof -
  have f: "fold_name ''version'' = ''VERSION''" "fold_name ''evidence'' = ''EVIDENCE''" "fold_name ''challenge'' = ''CHALLENGE''"
    "fold_name ''response'' = ''RESPONSE''" "fold_name ''type'' = ''TYPE''" "fold_name ''data'' = ''DATA''"
    "fold_name ''instance_name'' = ''INSTANCE_NAME''" "fold_name ''project'' = ''PROJECT''"
    "fold_name ''instance_type'' = ''INSTANCE_TYPE''" "fold_name ''uuid'' = ''UUID''" "fold_name ''location'' = ''LOCATION''"
    "fold_name ''cloud_init_id'' = ''CLOUD_INIT_ID''"
    by code_simp+
  show "distinct (map (fold_name \<circ> fst) decodedPayload_fields)" "distinct (map (fold_name \<circ> fst) decodedChallenge_fields)"
    "distinct (map (fold_name \<circ> fst) decodedResponse_fields)" "distinct (map (fold_name \<circ> fst) typedObject_fields)"
    "distinct (map (fold_name \<circ> fst) decodedPayloadData_fields)" "distinct (map (fold_name \<circ> fst) (one_string_field n))"
    by (simp_all add: f decodedPayload_fields_def decodedChallenge_fields_def decodedResponse_fields_def typedObject_fields_def
        decodedPayloadData_fields_def one_string_field_def del: fold_name.simps)
qed

lemma envelope_shape:
  assumes names: "distinct (map (fold_name \<circ> fst) fs)" and fs: "fs = [(''version'', int_ptr_field pv), (name, raw_field pr)]"
    and put: "\<And>x r. gv (pv x r) = x" "\<And>x r. gv (pr x r) = gv r" "\<And>x r. gr (pr x r) = x" "\<And>x r. gr (pv x r) = gr r"
    and zero: "gv zero = None" "gr zero = None"
    and run: "unmarshal_struct fs zero v = Inr env" "gv env = Some 1" "gr env = Some body"
  shows "message_shape name v body"
proof -
  obtain ms where ms: "v = JObject ms" "unmarshal_members fs ms zero = Inr env"
    using run zero by (cases v) (auto simp: unmarshal_struct_def)
  have distinct: "name \<noteq> ''version''" using names fs by auto
  have "gv env = fold (\<lambda>v _. int_value v) (member_values ''version'' ms) (gv zero)"
    by (rule unmarshal_members_get [OF names _ _ _ ms(2), where setf = "int_ptr_field pv"])
      (use distinct put in \<open>auto simp: fs raw_field_def dest!: int_ptr_field_Inr\<close>)
  then have "fold (\<lambda>v _. int_value v) (member_values ''version'' ms) None = Some 1" using run(2) zero(1) by simp
  then have "version_1 ms" by (rule version_of_fold [THEN iffD1])
  moreover have "gr env = fold (\<lambda>v _. Some v) (member_values name ms) (gr zero)"
    by (rule unmarshal_members_get [OF names _ _ _ ms(2), where setf = "raw_field pr"])
      (use distinct put in \<open>auto simp: fs raw_field_def dest!: int_ptr_field_Inr\<close>)
  then have "fold (\<lambda>v _. Some v) (member_values name ms) None = Some body" using run(3) zero(2) by simp
  then have "last_member name ms = Some body" by (rule raw_of_fold [THEN iffD1])
  moreover have "only_members [''version'', name] ms" using unmarshal_members_only [OF names ms(2)] by (simp add: fs)
  ultimately show ?thesis using ms(1) unfolding message_shape_def by blast
qed

lemma decodeTypedObject_shape:
  assumes run: "decodeTypedObject raw t what = Inr d" and "t \<noteq> []"
  obtains v ms where "raw = Some v" "v = JObject ms" "only_members [''type'', ''version'', ''data''] ms" "version_1 ms"
    "\<exists>u. last_member ''type'' ms = Some u \<and> string_value u = Some t" "last_member ''data'' ms = Some d"
proof -
  let ?zero = "\<lparr>to_type = None, to_version = None, to_data = None\<rparr>"
  from run assms(2) obtain v obj where o: "raw = Some v" "unmarshal_struct typedObject_fields ?zero v = Inr obj"
    "to_type obj = Some t" "to_version obj = Some 1" "to_data obj = Some d"
    by (auto simp: decodeTypedObject_def decodeStrictRaw_def requireVersion_None requireType_None split: option.splits sum.splits)
  from o(2,3) obtain ms where ms: "v = JObject ms" "unmarshal_members typedObject_fields ms ?zero = Inr obj"
    by (cases v) (auto simp: unmarshal_struct_def)
  note fields = typedObject_fields_def raw_field_def
  have a: "to_type obj = fold (\<lambda>v _. string_value v) (member_values ''type'' ms) (to_type ?zero)"
    by (rule unmarshal_members_get [OF envelope_folded(4) _ _ _ ms(2), where setf = "string_ptr_field (\<lambda>x r. r\<lparr>to_type := x\<rparr>)"])
      (auto simp: fields dest!: int_ptr_field_Inr string_ptr_field_Inr)
  have b: "to_version obj = fold (\<lambda>v _. int_value v) (member_values ''version'' ms) (to_version ?zero)"
    by (rule unmarshal_members_get [OF envelope_folded(4) _ _ _ ms(2), where setf = "int_ptr_field (\<lambda>x r. r\<lparr>to_version := x\<rparr>)"])
      (auto simp: fields dest!: int_ptr_field_Inr string_ptr_field_Inr)
  have c: "to_data obj = fold (\<lambda>v _. Some v) (member_values ''data'' ms) (to_data ?zero)"
    by (rule unmarshal_members_get [OF envelope_folded(4) _ _ _ ms(2), where setf = "raw_field (\<lambda>x r. r\<lparr>to_data := x\<rparr>)"])
      (auto simp: fields dest!: int_ptr_field_Inr string_ptr_field_Inr)
  have only: "only_members [''type'', ''version'', ''data''] ms"
    using unmarshal_members_only [OF envelope_folded(4) ms(2)] by (simp add: typedObject_fields_def)
  have "fold (\<lambda>v _. string_value v) (member_values ''type'' ms) None = Some t" using a o(3) by simp
  then have t: "\<exists>u. last_member ''type'' ms = Some u \<and> string_value u = Some t" by (rule last_of_fold [THEN iffD1])
  have "fold (\<lambda>v _. int_value v) (member_values ''version'' ms) None = Some 1" using b o(4) by simp
  then have ver: "version_1 ms" by (rule version_of_fold [THEN iffD1])
  have "fold (\<lambda>v _. Some v) (member_values ''data'' ms) None = Some d" using c o(5) by simp
  then have "last_member ''data'' ms = Some d" by (rule raw_of_fold [THEN iffD1])
  from that [OF o(1) ms(1) only ver t this] show thesis .
qed

lemma one_string_shape:
  assumes "unmarshal_struct (one_string_field n) [] v = Inr s" and "s \<noteq> []"
  obtains ds where "v = JObject ds" "only_members [n] ds" "s = last_string n ds"
proof -
  from assms obtain ds where ds: "v = JObject ds" "unmarshal_members (one_string_field n) ds [] = Inr s"
    by (cases v) (auto simp: unmarshal_struct_def)
  have "s = fold set_string (member_values n ds) []"
    by (rule unmarshal_members_get [OF envelope_folded(6) _ _ _ ds(2), where get = "\<lambda>r. r" and setf = "string_field (\<lambda>x r. x)"])
      (auto simp: one_string_field_def intro: string_field_set [where put = "\<lambda>x r. x" and get = "\<lambda>r. r"])
  with ds unmarshal_members_only [OF envelope_folded(6) ds(2)] show thesis
    by (intro that) (simp_all add: last_string_fold one_string_field_def)
qed

lemma payload_data_shape:
  assumes "unmarshal_struct decodedPayloadData_fields
      \<lparr>dd_instance_name = [], dd_project = None, dd_instance_type = [], dd_uuid = [], dd_location = [], dd_cloud_init_id = []\<rparr> v = Inr d"
    and "dd_instance_name d \<noteq> []"
  obtains ds where "v = JObject ds"
    "only_members [''instance_name'', ''project'', ''instance_type'', ''uuid'', ''location'', ''cloud_init_id''] ds"
    "dd_instance_name d = last_string ''instance_name'' ds" "dd_instance_type d = last_string ''instance_type'' ds"
    "dd_uuid d = last_string ''uuid'' ds" "dd_location d = last_string ''location'' ds"
    "dd_cloud_init_id d = last_string ''cloud_init_id'' ds" "dd_project d = last_member ''project'' ds"
proof -
  let ?zero = "\<lparr>dd_instance_name = [], dd_project = None, dd_instance_type = [], dd_uuid = [], dd_location = [], dd_cloud_init_id = []\<rparr>"
  from assms obtain ds where ds: "v = JObject ds" "unmarshal_members decodedPayloadData_fields ds ?zero = Inr d"
    by (cases v) (auto simp: unmarshal_struct_def)
  note get = unmarshal_members_get [OF envelope_folded(5) _ _ _ ds(2)] and
    fields = decodedPayloadData_fields_def raw_field_def string_field_Inr set_string_def string_or_empty_def string_value_def
  have "dd_instance_name d = fold set_string (member_values ''instance_name'' ds) (dd_instance_name ?zero)"
    by (rule get [where setf = "string_field (\<lambda>x r. r\<lparr>dd_instance_name := x\<rparr>)"]) (auto simp: fields)
  moreover have "dd_instance_type d = fold set_string (member_values ''instance_type'' ds) (dd_instance_type ?zero)"
    by (rule get [where setf = "string_field (\<lambda>x r. r\<lparr>dd_instance_type := x\<rparr>)"]) (auto simp: fields)
  moreover have "dd_uuid d = fold set_string (member_values ''uuid'' ds) (dd_uuid ?zero)"
    by (rule get [where setf = "string_field (\<lambda>x r. r\<lparr>dd_uuid := x\<rparr>)"]) (auto simp: fields)
  moreover have "dd_location d = fold set_string (member_values ''location'' ds) (dd_location ?zero)"
    by (rule get [where setf = "string_field (\<lambda>x r. r\<lparr>dd_location := x\<rparr>)"]) (auto simp: fields)
  moreover have "dd_cloud_init_id d = fold set_string (member_values ''cloud_init_id'' ds) (dd_cloud_init_id ?zero)"
    by (rule get [where setf = "string_field (\<lambda>x r. r\<lparr>dd_cloud_init_id := x\<rparr>)"]) (auto simp: fields)
  moreover have "dd_project d = fold (\<lambda>v _. Some v) (member_values ''project'' ds) (dd_project ?zero)"
    by (rule get [where setf = "raw_field (\<lambda>x r. r\<lparr>dd_project := x\<rparr>)"]) (auto simp: fields)
  moreover have "only_members [''instance_name'', ''project'', ''instance_type'', ''uuid'', ''location'', ''cloud_init_id''] ds"
    using unmarshal_members_only [OF envelope_folded(5) ds(2)] by (simp add: decodedPayloadData_fields_def)
  ultimately show thesis using ds(1) by (intro that) (simp_all add: last_string_fold fold_last last_member_def)
qed

text \<open>What the three messages say, as JSON values.\<close>

definition payload_message :: "uuid_lib \<Rightarrow> claims \<Rightarrow> jval \<Rightarrow> bool" where
  "payload_message ul c v \<longleftrightarrow>
     (\<exists>item ds. message_shape ''evidence'' v (JArray [item]) \<and> typed_shape guestClaimsType item ds \<and>
        only_members [''instance_name'', ''project'', ''instance_type'', ''uuid'', ''location'', ''cloud_init_id''] ds \<and>
        cl_name c = last_string ''instance_name'' ds \<and> cl_type c = last_string ''instance_type'' ds \<and>
        NewInstanceUUID ul (last_string ''uuid'' ds) = Inr (cl_uuid c) \<and>
        cl_location c = last_string ''location'' ds \<and> cl_cloud_init_id c = last_string ''cloud_init_id'' ds \<and>
        (case last_member ''project'' ds of
           None \<Rightarrow> cl_project c = []
         | Some p \<Rightarrow> string_value p = Some (cl_project c) \<and> cl_project c \<noteq> []))"

definition challenge_message :: "string \<Rightarrow> jval \<Rightarrow> bool" where
  "challenge_message key v \<longleftrightarrow>
     (\<exists>body ds. message_shape ''challenge'' v body \<and> typed_shape configNonceType body ds \<and>
        only_members [''config_key''] ds \<and> last_string ''config_key'' ds = key)"

definition response_message :: "string \<Rightarrow> jval \<Rightarrow> bool" where
  "response_message nonce v \<longleftrightarrow>
     (\<exists>body ds. message_shape ''response'' v body \<and> typed_shape configNonceType body ds \<and>
        only_members [''nonce''] ds \<and> last_string ''nonce'' ds = b64_encode nonce)"

lemma typed_names: "configNonceType \<noteq> []" "guestClaimsType \<noteq> []"
  by (simp_all add: configNonceType_def guestClaimsType_def)

lemma decodeTypedObject_typed: "decodeTypedObject (Some v) t what = Inr (JObject ds) \<Longrightarrow> t \<noteq> [] \<Longrightarrow> typed_shape t v ds"
  by (erule decodeTypedObject_shape) (auto simp: typed_shape_def)

lemma DecodeChallenge_message:
  assumes "DecodeChallenge raw = Inr k"
  shows "\<exists>v. spelled v raw \<and> challenge_message k v"
proof -
  let ?zero = "\<lparr>dc_version = None, dc_challenge = None\<rparr>"
  from assms obtain env d where e: "decodeMessage (unmarshal_struct decodedChallenge_fields ?zero) raw = Inr env"
    "dc_version env = Some 1" "decodeTypedObject (dc_challenge env) configNonceType ''challenge'' = Inr d"
    "unmarshal_struct (one_string_field ''config_key'') [] d = Inr k" "k \<noteq> []"
    using key_valid(1)
    by (fastforce simp: DecodeChallenge_def decodeStrictRaw_def requireVersion_None requireNonEmpty_None split: option.splits sum.splits)
  from e(1) obtain v where v: "spelled v raw" "unmarshal_struct decodedChallenge_fields ?zero v = Inr env"
    by (auto simp: decodeMessage_Inr)
  obtain body where body: "dc_challenge env = Some body" using e(3) typed_names by (auto elim: decodeTypedObject_shape)
  have "message_shape ''challenge'' v body"
    by (rule envelope_shape [OF envelope_folded(2) decodedChallenge_fields_def _ _ _ _ _ _ v(2), where gv = dc_version and gr = dc_challenge])
      (simp_all add: e(2) body)
  moreover obtain ds where "d = JObject ds" "only_members [''config_key''] ds" "k = last_string ''config_key'' ds"
    using one_string_shape [OF e(4,5)] .
  moreover from this e(3) body have "typed_shape configNonceType body ds" by (simp add: decodeTypedObject_typed typed_names)
  ultimately show ?thesis using v(1) unfolding challenge_message_def by blast
qed

lemma DecodeResponse_message:
  assumes "DecodeResponse raw = Inr n"
  shows "\<exists>v. spelled v raw \<and> response_message n v"
proof -
  let ?zero = "\<lparr>dr_version = None, dr_response = None\<rparr>"
  from assms obtain env d value_text where e: "decodeMessage (unmarshal_struct decodedResponse_fields ?zero) raw = Inr env"
    "dr_version env = Some 1" "decodeTypedObject (dr_response env) configNonceType ''response'' = Inr d"
    "unmarshal_struct (one_string_field ''nonce'') [] d = Inr value_text" "value_text \<noteq> []" "value_text = b64_encode n"
    by (auto simp: DecodeResponse_def decodeStrictRaw_def requireVersion_None requireNonEmpty_None ParseNonce_Inr
        split: option.splits sum.splits)
  from e(1) obtain v where v: "spelled v raw" "unmarshal_struct decodedResponse_fields ?zero v = Inr env"
    by (auto simp: decodeMessage_Inr)
  obtain body where body: "dr_response env = Some body" using e(3) typed_names by (auto elim: decodeTypedObject_shape)
  have "message_shape ''response'' v body"
    by (rule envelope_shape [OF envelope_folded(3) decodedResponse_fields_def _ _ _ _ _ _ v(2), where gv = dr_version and gr = dr_response])
      (simp_all add: e(2) body)
  moreover obtain ds where "d = JObject ds" "only_members [''nonce''] ds" "value_text = last_string ''nonce'' ds"
    using one_string_shape [OF e(4,5)] .
  moreover from this e(3) body have "typed_shape configNonceType body ds" by (simp add: decodeTypedObject_typed typed_names)
  ultimately show ?thesis using v(1) e(6) unfolding response_message_def by metis
qed

lemma decodeProject_Inr:
  "decodeProject p = Inr project \<longleftrightarrow>
     (case p of None \<Rightarrow> project = [] | Some v \<Rightarrow> string_value v = Some project \<and> project \<noteq> [])"
  by (auto simp: decodeProject_def decodeStrictRaw_def unmarshal_string_def string_value_def
      split: option.splits sum.splits jval.splits if_splits)

lemma DecodePayload_message:
  assumes "DecodePayload ul raw = Inr c"
  shows "\<exists>v. spelled v raw \<and> payload_message ul c v"
proof -
  let ?zero = "\<lparr>dp_version = None, dp_evidence = None\<rparr>"
  from assms obtain env ev item dataRaw d where e:
    "decodeMessage (unmarshal_struct decodedPayload_fields ?zero) raw = Inr env" "dp_version env = Some 1"
    "dp_evidence env = Some ev" "ev = JArray [item]" "decodeTypedObject (Some item) guestClaimsType ''evidence'' = Inr dataRaw"
    "unmarshal_struct decodedPayloadData_fields
      \<lparr>dd_instance_name = [], dd_project = None, dd_instance_type = [], dd_uuid = [], dd_location = [], dd_cloud_init_id = []\<rparr> dataRaw = Inr d"
    "decodeClaims ul d = Inr c"
    by (auto simp: DecodePayload_def decodeStrictRaw_def requireVersion_None unmarshal_raw_list_def length_Suc_conv
        split: option.splits sum.splits jval.splits if_splits)
  from e(1) obtain v where v: "spelled v raw" "unmarshal_struct decodedPayload_fields ?zero v = Inr env"
    by (auto simp: decodeMessage_Inr)
  have shape: "message_shape ''evidence'' v (JArray [item])"
    by (rule envelope_shape [OF envelope_folded(1) decodedPayload_fields_def _ _ _ _ _ _ v(2), where gv = dp_version and gr = dp_evidence])
      (simp_all add: e(2-4))
  from e(7) have cl: "dd_instance_name d \<noteq> []" "cl_name c = dd_instance_name d" "cl_type c = dd_instance_type d"
    "NewInstanceUUID ul (dd_uuid d) = Inr (cl_uuid c)" "cl_location c = dd_location d" "cl_cloud_init_id c = dd_cloud_init_id d"
    "decodeProject (dd_project d) = Inr (cl_project c)"
    by (auto simp: decodeClaims_def payloadUUID_Inr first_error_None requireNonEmpty_None split: option.splits sum.splits)
  obtain ds where ds: "dataRaw = JObject ds"
    "only_members [''instance_name'', ''project'', ''instance_type'', ''uuid'', ''location'', ''cloud_init_id''] ds"
    "dd_instance_name d = last_string ''instance_name'' ds" "dd_instance_type d = last_string ''instance_type'' ds"
    "dd_uuid d = last_string ''uuid'' ds" "dd_location d = last_string ''location'' ds"
    "dd_cloud_init_id d = last_string ''cloud_init_id'' ds" "dd_project d = last_member ''project'' ds"
    using payload_data_shape [OF e(6) cl(1)] .
  have "typed_shape guestClaimsType item ds" using e(5) ds(1) by (simp add: decodeTypedObject_typed typed_names)
  with shape cl(2-7) ds(2-8) have "payload_message ul c v"
    unfolding payload_message_def by (intro exI [of _ item] exI [of _ ds]) (simp add: decodeProject_Inr)
  with v(1) show ?thesis by blast
qed

text \<open>The bounds every accepted message keeps.\<close>

definition bounded_message :: "string \<Rightarrow> bool" where
  "bounded_message raw \<longleftrightarrow> length raw \<le> maxMessageSize \<and> utf8_valid raw \<and> (\<exists>v. spelled v raw \<and> clean v)"

lemma decodeMessage_bounded: "decodeMessage um raw = Inr r \<Longrightarrow> bounded_message raw"
  by (auto simp: decodeMessage_Inr bounded_message_def)

lemma decoded_bounded:
  "DecodePayload ul raw = Inr c \<Longrightarrow> bounded_message raw"
  "DecodeChallenge raw = Inr k \<Longrightarrow> bounded_message raw"
  "DecodeResponse raw = Inr n \<Longrightarrow> bounded_message raw"
  by (auto simp: DecodePayload_def DecodeChallenge_def DecodeResponse_def decodeMessage_bounded split: sum.splits)

lemma encodeMessage_bounded: "encodeMessage v = Inr raw \<Longrightarrow> good_json v \<Longrightarrow> length raw \<le> maxMessageSize \<and> utf8_valid raw"
  by (auto simp: encodeMessage_Inr good_json_def utf8_compact)

section \<open>The codec interface\<close>

text \<open>
  What the plugins rely on: an encoded message is within the bounds and decodes to what it carries,
  and a decoding error has one of the two wire classes.
\<close>

locale wire_codec =
  fixes encode :: "'a \<Rightarrow> string result"
    and decode :: "string \<Rightarrow> 'a result"
    and valid :: "'a \<Rightarrow> bool"
    and carries :: "'a \<Rightarrow> 'a"
  assumes roundtrip: "valid x \<Longrightarrow> encode x = Inr raw \<Longrightarrow> decode raw = Inr (carries x)"
    and encode_bounded: "encode x = Inr raw \<Longrightarrow> length raw \<le> maxMessageSize \<and> utf8_valid raw"
    and decode_error: "decode raw = Inl e \<Longrightarrow> wire_class e"
begin

lemma encode_injective:
  assumes "valid x" "valid y" "encode x = Inr raw" "encode y = Inr raw"
  shows "carries x = carries y"
  using roundtrip [OF assms(1,3)] roundtrip [OF assms(2,4)] by simp

lemma encode_not_refused: "valid x \<Longrightarrow> encode x = Inr raw \<Longrightarrow> is_ok (decode raw)"
  by (simp add: roundtrip)

lemma decode_not_denied: "decode raw = Inl e \<Longrightarrow> \<not> err_is e AttestDenied \<and> \<not> context_error e"
  using wire_class_denied [OF decode_error] by (simp add: context_error_def)

end

interpretation challenge: wire_codec EncodeChallenge DecodeChallenge "\<lambda>_. True" "\<lambda>k. k"
proof
  fix x raw assume "EncodeChallenge x = Inr raw"
  then show "length raw \<le> maxMessageSize \<and> utf8_valid raw"
    using encodeMessage_bounded [OF _ good_challenge(1)]
    by (auto simp: EncodeChallenge_def envelopeVersion_def configNonceVersion_def split: sum.splits)
qed (simp_all add: challenge_roundtrip DecodeChallenge_class)

interpretation response: wire_codec EncodeResponse DecodeResponse "\<lambda>n. length n = nonceSize" "\<lambda>n. n"
proof
  fix x raw assume "EncodeResponse x = Inr raw"
  then show "length raw \<le> maxMessageSize \<and> utf8_valid raw"
    using encodeMessage_bounded [OF _ good_response(1)]
    by (simp add: EncodeResponse_def envelopeVersion_def configNonceVersion_def)
qed (simp_all add: response_roundtrip DecodeResponse_class nonceSize_def)

interpretation payload: wire_codec "EncodePayload ul" "DecodePayload ul" "\<lambda>_. uuid_laws ul" "carried ul" for ul
proof
  fix x raw assume "EncodePayload ul x = Inr raw"
  then show "length raw \<le> maxMessageSize \<and> utf8_valid raw"
    using encodeMessage_bounded [OF _ good_payload(3)] by (auto simp: EncodePayload_Inr)
qed (simp_all add: payload_roundtrip DecodePayload_class)

section \<open>Encoding succeeds\<close>

definition unescaped :: "byte \<Rightarrow> bool" where
  "unescaped c \<longleftrightarrow> 32 \<le> bv c \<and> bv c < 128 \<and> bv c \<noteq> 92 \<and> bv c \<noteq> 34 \<and> bv c \<noteq> 60 \<and> bv c \<noteq> 62 \<and> bv c \<noteq> 38"

lemma quote_body_unescaped: "list_all unescaped s \<Longrightarrow> quote_body s = s"
proof (induction s)
  case (Cons c s)
  then have c: "32 \<le> bv c" "bv c \<noteq> 92" "bv c \<noteq> 34" "bv c \<noteq> 60" "bv c \<noteq> 62" "bv c \<noteq> 38"
    by (simp_all add: unescaped_def)
  then have "c \<noteq> CHR 0x5C" "c \<noteq> CHR 0x22" "c \<noteq> CHR ''<''" "c \<noteq> CHR ''>''" "c \<noteq> CHR ''&''"
    "c \<noteq> CHR 0x08" "c \<noteq> CHR 0x0C" "c \<noteq> CHR 0x0A" "c \<noteq> CHR 0x0D" "c \<noteq> CHR 0x09"
    by fastforce+
  with c(1) have "escape_ascii c = [c]" by (simp add: escape_ascii_def short_escape_def)
  with Cons show ?case by (simp add: unescaped_def)
qed simp

lemma type_name_quoted:
  "quote_body configNonceType = configNonceType" "quote_body guestClaimsType = guestClaimsType"
  "length configNonceType = 18" "length guestClaimsType = 18"
  by (rule quote_body_unescaped; simp add: configNonceType_def guestClaimsType_def unescaped_def)+
    (simp_all add: configNonceType_def guestClaimsType_def)

lemma unescaped_alphabets: "list_all unescaped hex_digits" "list_all unescaped b64_alphabet"
  "list_all unescaped configKeyPrefix"
  by (simp_all add: hex_digits_def b64_alphabet_def configKeyPrefix_def unescaped_def)

lemma EncodeChallenge_ok:
  assumes "NewConfigKey key = Inr k"
  obtains raw where "EncodeChallenge key = Inr raw"
proof -
  from assms obtain a where k: "k = key" "key = configKeyPrefix @ a" "set a \<subseteq> set hex_digits" "length a = 32"
    by (auto simp: NewConfigKey_Inr)
  with unescaped_alphabets have "list_all unescaped key" by (auto simp: list_all_iff)
  with k have "length (quote_body key) = 58" by (simp add: quote_body_unescaped configKeyPrefix_length)
  then have "length (compact (challenge_json 1 configNonceType 1 key)) \<le> maxMessageSize"
    by (simp add: challenge_json_def typed_body_def json_string_def json_int_1 type_name_quoted
        maxMessageSize_def)
  then show ?thesis
    using that k(1) assms by (simp add: EncodeChallenge_def encodeMessage_def envelopeVersion_def configNonceVersion_def)
qed

lemma EncodeResponse_ok:
  assumes "length n = 16"
  obtains raw where "EncodeResponse n = Inr raw"
proof -
  have "set (b64_encode n) \<subseteq> set b64_alphabet"
    by (rule b64_encode_alphabet)
  with unescaped_alphabets have "list_all unescaped (b64_encode n)" by (auto simp: list_all_iff)
  with assms have "length (quote_body (b64_encode n)) = 22"
    by (simp add: quote_body_unescaped length_b64_encode b64_encoded_len_def)
  then have "length (compact (response_json 1 configNonceType 1 (b64_encode n))) \<le> maxMessageSize"
    by (simp add: response_json_def typed_body_def json_string_def json_int_1 type_name_quoted
        maxMessageSize_def)
  then show ?thesis
    using that by (simp add: EncodeResponse_def encodeMessage_def envelopeVersion_def configNonceVersion_def)
qed

lemma attempt_of_key: "NewConfigKey k = Inr k' \<Longrightarrow> \<exists>a. length a = 16 \<and> k = NewConfigKeyFromAttemptID a"
proof -
  assume "NewConfigKey k = Inr k'"
  then obtain a where "k = configKeyPrefix @ a" "set a \<subseteq> set hex_digits" "length a = 2 * 16"
    by (auto simp: NewConfigKey_Inr)
  with hex_encode_surj [of a 16] show ?thesis by (auto simp: NewConfigKeyFromAttemptID_def)
qed

section \<open>Samples for the witnesses\<close>

definition sample_payload :: string where
  "sample_payload =
     compact (payloadEnvelope_json \<lparr>pv_version = 1,
       pv_evidence = [\<lparr>pe_type = guestClaimsType, pe_version = 1,
         pe_data = \<lparr>pd_instance_name = cl_name sample_claims, pd_project = cl_project sample_claims,
           pd_instance_type = cl_type sample_claims, pd_uuid = sample_uuid, pd_location = cl_location sample_claims,
           pd_cloud_init_id = cl_cloud_init_id sample_claims\<rparr>\<rparr>]\<rparr>)"

lemma sample_payload_encoded: "EncodePayload ref_uuid sample_claims = Inr sample_payload"
proof -
  have q: "quote_body sample_uuid = sample_uuid" "quote_body ''vm-01'' = ''vm-01''" "quote_body ''default'' = ''default''"
    "quote_body ''virtual-machine'' = ''virtual-machine''" "quote_body ''member-01'' = ''member-01''"
    "quote_body ''i-01'' = ''i-01''"
    by (rule quote_body_unescaped; simp add: sample_uuid_def unescaped_def)+
  have "length sample_payload \<le> maxMessageSize"
    unfolding sample_payload_def sample_claims_def
    by (simp add: payloadEnvelope_json_def payloadData_json_def typed_body_def json_string_def json_int_1
        type_name_quoted q maxMessageSize_def del: quote_body.simps)
      (simp add: sample_uuid_def)
  with sample_uuid_canonical show ?thesis
    by (auto simp: EncodePayload_Inr encodeMessage_Inr sample_payload_def sample_claims_def sample_uuid_def)
qed

definition sample_key :: string where
  "sample_key = NewConfigKeyFromAttemptID ''attempt-00000001''"

definition sample_nonce :: string where
  "sample_nonce = ''nonce-0123456789''"

section \<open>Properties\<close>

text \<open>
  C19: a message gets past \<open>decodeRaw\<close>, unchanged, exactly when it has at most 65536 bytes, is valid
  UTF-8 and is one spelling of a JSON value, up to whitespace, in which no object at any nesting has
  two members of the same unescaped name and every number fits a double; every other input is refused
  with the class \<open>ErrInvalid\<close>.
\<close>

theorem decode_raw_exact:
  "case decodeRaw raw of
     Inr m \<Rightarrow> m = raw \<and> bounded_message raw
   | Inl e \<Rightarrow> \<not> bounded_message raw \<and> (\<forall>s. err_is e s \<longleftrightarrow> s = WireInvalid)"
proof (cases "decodeRaw raw")
  case (Inl e)
  with decodeRaw_Inr [of raw raw] have "\<not> bounded_message raw" by (auto simp: bounded_message_def)
  with Inl decodeRaw_class [OF Inl] show ?thesis by simp
next
  case (Inr m)
  with decodeRaw_Inr [of raw m] show ?thesis by (simp add: bounded_message_def)
qed

text \<open>
  C20: an encoded payload decodes to the claims it was made from, with the UUID in canonical form and
  ill-formed bytes replaced by U+FFFD, and stays within the message bounds.
\<close>

theorem payload_round_trip:
  assumes "uuid_laws ul" "EncodePayload ul c = Inr raw"
  shows "DecodePayload ul raw = Inr (carried ul c) \<and> length raw \<le> maxMessageSize \<and> utf8_valid raw"
  using payload.roundtrip [OF assms] payload.encode_bounded [OF assms(2)] by simp

theorem payload_round_trip_witness:
  "DecodePayload ref_uuid sample_payload = Inr sample_claims"
proof -
  have "to_valid ''vm-01'' = ''vm-01''" "to_valid ''default'' = ''default''"
    "to_valid ''virtual-machine'' = ''virtual-machine''" "to_valid ''member-01'' = ''member-01''"
    "to_valid ''i-01'' = ''i-01''"
    by (rule to_valid_id, rule utf8_valid_ascii, simp)+
  then have "carried ref_uuid sample_claims = sample_claims"
    using sample_uuid_canonical by (simp add: carried_def sample_claims_def)
  with payload_round_trip [OF ref_uuid_laws sample_payload_encoded] show ?thesis by simp
qed

text \<open>
  Every challenge key can be encoded and decodes to itself; a key outside the namespace is
  refused as invalid before anything is written.
\<close>

lemma challenge_round_trip:
  "case NewConfigKey key of
     Inr k \<Rightarrow> \<exists>raw. EncodeChallenge key = Inr raw \<and> DecodeChallenge raw = Inr key
   | Inl _ \<Rightarrow> \<exists>e. EncodeChallenge key = Inl e \<and> (\<forall>s. err_is e s \<longleftrightarrow> s = WireInvalid)"
proof (cases "NewConfigKey key")
  case (Inr k)
  from EncodeChallenge_ok [OF Inr] obtain raw where "EncodeChallenge key = Inr raw" .
  with Inr challenge.roundtrip show ?thesis by auto
qed (simp add: EncodeChallenge_def)

text \<open>C25: every 16-byte nonce can be encoded as a response, which decodes to the nonce.\<close>

theorem response_round_trip:
  assumes "length nonce = nonceSize"
  shows "\<exists>raw. EncodeResponse nonce = Inr raw \<and> length raw \<le> maxMessageSize \<and> DecodeResponse raw = Inr nonce"
proof -
  from assms EncodeResponse_ok [of nonce] obtain raw where "EncodeResponse nonce = Inr raw"
    by (auto simp: nonceSize_def)
  with response.roundtrip [OF assms this] response.encode_bounded show ?thesis by blast
qed

theorem response_round_trip_witness:
  "\<exists>raw. EncodeResponse sample_nonce = Inr raw \<and> length raw \<le> maxMessageSize \<and> DecodeResponse raw = Inr sample_nonce"
  by (rule response_round_trip) (simp add: sample_nonce_def nonceSize_def)

text \<open>
  C26: \<open>ParseNonce\<close> accepts exactly one text for each nonce, its unpadded base64url encoding: no
  second spelling (padding, line breaks, nonzero trailing bits) decodes to a nonce.
\<close>

theorem parse_nonce_exact:
  "case ParseNonce raw of
     Inr n \<Rightarrow> length n = 16 \<and> raw = b64_encode n
   | Inl e \<Rightarrow> (\<nexists>n. length n = 16 \<and> raw = b64_encode n) \<and> (\<forall>s. err_is e s \<longleftrightarrow> s = WireInvalid)"
proof (cases "ParseNonce raw")
  case (Inl e)
  with ParseNonce_Inr [of raw] ParseNonce_class [OF Inl] show ?thesis by auto
next
  case (Inr n)
  with ParseNonce_Inr [of raw n] show ?thesis by simp
qed

text \<open>
  C24: whatever bytes the peer sends, decoding ends in a value or in an error of exactly one wire class,
  \<open>ErrInvalid\<close> or \<open>ErrUnsupported\<close>. A message that yields a value is within the bounds and keeps the
  contract of version 1: an envelope of version exactly 1 with one body of exactly the expected type and
  version 1 and with no other members, whose data says that value: complete claims with a canonical
  UUID, a key of the nonce namespace, the encoding of a 16-byte nonce.
\<close>

theorem decoded_messages_valid:
  "(case DecodePayload ul raw of Inl e \<Rightarrow> wire_class e
      | Inr c \<Rightarrow> bounded_message raw \<and> decoded_claims ul c \<and> (\<exists>v. spelled v raw \<and> payload_message ul c v)) \<and>
   (case DecodeChallenge raw of Inl e \<Rightarrow> wire_class e
      | Inr k \<Rightarrow> bounded_message raw \<and> (\<exists>a. length a = 16 \<and> k = NewConfigKeyFromAttemptID a) \<and>
          (\<exists>v. spelled v raw \<and> challenge_message k v)) \<and>
   (case DecodeResponse raw of Inl e \<Rightarrow> wire_class e
      | Inr n \<Rightarrow> bounded_message raw \<and> length n = 16 \<and> (\<exists>v. spelled v raw \<and> response_message n v))"
proof (intro conjI)
  show "case DecodePayload ul raw of Inl e \<Rightarrow> wire_class e
      | Inr c \<Rightarrow> bounded_message raw \<and> decoded_claims ul c \<and> (\<exists>v. spelled v raw \<and> payload_message ul c v)"
    using DecodePayload_class DecodePayload_sound decoded_bounded(1) DecodePayload_message by (simp split: sum.split)
  show "case DecodeChallenge raw of Inl e \<Rightarrow> wire_class e
      | Inr k \<Rightarrow> bounded_message raw \<and> (\<exists>a. length a = 16 \<and> k = NewConfigKeyFromAttemptID a) \<and>
          (\<exists>v. spelled v raw \<and> challenge_message k v)"
    using DecodeChallenge_class DecodeChallenge_sound decoded_bounded(2) attempt_of_key DecodeChallenge_message
    by (simp split: sum.split)
  show "case DecodeResponse raw of Inl e \<Rightarrow> wire_class e
      | Inr n \<Rightarrow> bounded_message raw \<and> length n = 16 \<and> (\<exists>v. spelled v raw \<and> response_message n v)"
    using DecodeResponse_class DecodeResponse_sound decoded_bounded(3) DecodeResponse_message by (simp split: sum.split)
qed

text \<open>
  The decoder is laxer than its package comment, which says that duplicate and unknown names are
  rejected: names are matched without regard to case and duplicates only exactly, so a challenge with
  both \<open>version\<close> and \<open>Version\<close> is accepted.
\<close>

lemma folded_duplicate_accepted:
  "DecodeChallenge (compact (JObject [(''version'', json_int 1), (''Version'', json_int 1),
     (''challenge'', typed_body configNonceType 1 (JObject [(''config_key'', json_string sample_key)]))]))
   = Inr sample_key"
proof -
  let ?v = "JObject [(''version'', json_int 1), (''Version'', json_int 1),
     (''challenge'', typed_body configNonceType 1 (JObject [(''config_key'', json_string sample_key)]))]"
  have key: "NewConfigKey sample_key = Inr sample_key"
    unfolding sample_key_def by (intro NewConfigKey_attempt) simp
  then obtain a where a: "sample_key = configKeyPrefix @ a" "set a \<subseteq> set hex_digits" "length a = 32"
    by (auto simp: NewConfigKey_Inr)
  from unescaped_alphabets a(2) have "list_all unescaped (configKeyPrefix @ a)" by (auto simp: list_all_iff)
  with a(1) have "list_all unescaped sample_key" by simp
  then have "length (quote_body sample_key) = length (configKeyPrefix @ a)"
    unfolding a(1) by (simp only: quote_body_unescaped)
  then have "length (quote_body sample_key) = 58" using a(3) by (simp add: configKeyPrefix_length)
  then have enc: "encodeMessage ?v = Inr (compact ?v)"
    by (simp add: encodeMessage_def typed_body_def json_string_def json_int_1 type_name_quoted maxMessageSize_def)
  have "good_json (JObject [(''config_key'', json_string sample_key)])"
    by (simp add: good_json_object names_plain)
  then have good: "good_json ?v" by (simp add: good_json_object names_plain)
  have fold: "fold_name ''version'' = fold_name ''Version''" by code_simp
  have dm: "decodeMessage um (compact ?v) = decodeStrictRaw um ?v" for um :: "jval \<Rightarrow> json_error + 'x"
    by (rule decode_good [OF enc good]) (simp add: max_depth_3)
  have env: "decodeStrictRaw (unmarshal_struct decodedChallenge_fields \<lparr>dc_version = None, dc_challenge = None\<rparr>) ?v
    = Inr \<lparr>dc_version = Some 1,
        dc_challenge = Some (typed_body configNonceType 1 (JObject [(''config_key'', json_string sample_key)]))\<rparr>"
    using fold
    by (simp add: decodeStrictRaw_def unmarshal_struct_def names_plain decodedChallenge_fields_def find_field_def
        int_ptr_field_def raw_field_def json_int_1 num_1 del: fold_name.simps)
  show ?thesis
    unfolding DecodeChallenge_def dm env
    using key_valid [OF key] key
      decodeTypedObject_body [OF type_names_valid(3,4), of "JObject [(''config_key'', json_string sample_key)]" "''challenge''"]
    by (simp add: requireVersion_def decodeStrictRaw_def unmarshal_struct_def names_plain find_field_def
        one_string_field_def string_field_def json_string_def unquote_quote_body to_valid_id requireNonEmpty_def)
qed

end
