(* ===== verification/GoDuration.thy ===== *)
theory GoDuration
  imports GoErrors
begin

text \<open>
  \<open>time.Duration\<close>: nanoseconds in a signed 64-bit integer, and \<open>time.ParseDuration\<close> with its overflow
  checks. Fractions are computed in double precision; \<open>round53\<close> rounds a positive rational to the 53
  bits of a double, half to even (the magnitudes that occur are far from the exponent limits).
\<close>

definition Nanosecond :: int where "Nanosecond = 1"
definition Millisecond :: int where "Millisecond = 1000000"
definition Second :: int where "Second = 1000000000"

definition int64 :: "int \<Rightarrow> bool" where
  "int64 d \<longleftrightarrow> - (2 ^ 63) \<le> d \<and> d < 2 ^ 63"

section \<open>Rounding to 53 bits\<close>

fun bit_length :: "nat \<Rightarrow> nat" where
  "bit_length n = (if n = 0 then 0 else Suc (bit_length (n div 2)))"

declare bit_length.simps [simp del]

definition scale_down :: "nat \<Rightarrow> nat \<Rightarrow> int \<Rightarrow> nat \<times> nat" where
  "scale_down num den e = (if e \<ge> 0 then (num, den * 2 ^ nat e) else (num * 2 ^ nat (- e), den))"

definition round_even :: "nat \<Rightarrow> nat \<Rightarrow> nat" where
  "round_even n d =
     (let q = n div d; r = n mod d
      in if 2 * r > d \<or> 2 * r = d \<and> odd q then q + 1 else q)"

text \<open>The nearest double of \<open>num / den\<close>, as mantissa and exponent.\<close>

definition round53 :: "nat \<Rightarrow> nat \<Rightarrow> nat \<times> int" where
  "round53 num den =
     (if num = 0 then (0, 0)
      else (let e0 = int (bit_length num) - int (bit_length den) - 53;
                (n0, d0) = scale_down num den e0;
                e = (if n0 div d0 \<ge> 2 ^ 53 then e0 + 1 else e0);
                (n, d) = scale_down num den e
            in (round_even n d, e)))"

text \<open>\<open>uint64(float64(f) * (float64(unit) / scale))\<close> with \<open>scale = 10 ^ k\<close>, a double for the \<open>k\<close> in use.\<close>

definition fraction_ns :: "nat \<Rightarrow> nat \<Rightarrow> nat \<Rightarrow> nat" where
  "fraction_ns f unit k =
     (let (m1, e1) = round53 f 1;
          (m2, e2) = round53 unit (10 ^ k);
          (num, den) = (let e = e1 + e2 in
             if e \<ge> 0 then (m1 * m2 * 2 ^ nat e, 1) else (m1 * m2, 2 ^ nat (- e)));
          (m, e) = round53 num den
      in if e \<ge> 0 then m * 2 ^ nat e else m div 2 ^ nat (- e))"

section \<open>\<open>ParseDuration\<close>\<close>

definition is_decimal :: "byte \<Rightarrow> bool" where
  "is_decimal c \<longleftrightarrow> 48 \<le> (of_char c :: nat) \<and> (of_char c :: nat) \<le> 57"

fun leading_int :: "nat \<Rightarrow> string \<Rightarrow> (nat \<times> string) option" where
  "leading_int x [] = Some (x, [])"
| "leading_int x (c # s) =
     (if \<not> is_decimal c then Some (x, c # s)
      else if x > 2 ^ 63 div 10 then None
      else (let y = x * 10 + (of_char c - 48) in if y > 2 ^ 63 then None else leading_int y s))"

text \<open>The digits after the point, with the number \<open>k\<close> of digits that were kept.\<close>

fun leading_fraction :: "nat \<Rightarrow> nat \<Rightarrow> bool \<Rightarrow> string \<Rightarrow> nat \<times> nat \<times> string" where
  "leading_fraction x k overflow [] = (x, k, [])"
| "leading_fraction x k overflow (c # s) =
     (if \<not> is_decimal c then (x, k, c # s)
      else if overflow \<or> x > (2 ^ 63 - 1) div 10 \<or> x * 10 + (of_char c - 48) > 2 ^ 63
      then leading_fraction x k True s
      else leading_fraction (x * 10 + (of_char c - 48)) (Suc k) False s)"

definition unit_map :: "string \<Rightarrow> nat option" where
  "unit_map u = map_of
     [(''ns'', 1), (''us'', 1000), ([CHR 0xC2, CHR 0xB5, CHR ''s''], 1000),
      ([CHR 0xCE, CHR 0xBC, CHR ''s''], 1000), (''ms'', 1000000), (''s'', 1000000000),
      (''m'', 60000000000), (''h'', 3600000000000)] u"

definition bad_duration :: "string \<Rightarrow> goerr" where
  "bad_duration orig = Plain [Txt ''time: invalid duration '', Quo orig]"

text \<open>One number with its unit: the nanoseconds and the rest of the text.\<close>

definition duration_term :: "string \<Rightarrow> string \<Rightarrow> (nat \<times> string) result" where
  "duration_term orig s =
     (case s of
        [] \<Rightarrow> Inl (bad_duration orig)
      | c # _ \<Rightarrow>
          if \<not> (c = CHR ''.'' \<or> is_decimal c) then Inl (bad_duration orig)
          else (case leading_int 0 s of
            None \<Rightarrow> Inl (bad_duration orig)
          | Some (v, s1) \<Rightarrow>
             (let pre = (length s \<noteq> length s1);
                  (f, k, s2, post) =
                    (case s1 of
                       d # t \<Rightarrow>
                         if d = CHR ''.'' then
                           (let (f, k, t') = leading_fraction 0 0 False t in (f, k, t', length t \<noteq> length t'))
                         else (0, 0, s1, False)
                     | [] \<Rightarrow> (0, 0, s1, False))
              in if \<not> pre \<and> \<not> post then Inl (bad_duration orig)
                 else (let u = takeWhile (\<lambda>c. \<not> (c = CHR ''.'' \<or> is_decimal c)) s2;
                           s3 = dropWhile (\<lambda>c. \<not> (c = CHR ''.'' \<or> is_decimal c)) s2
                       in if u = [] then Inl (Plain [Txt ''time: missing unit in duration '', Quo orig])
                          else (case unit_map u of
                            None \<Rightarrow> Inl (Plain [Txt ''time: unknown unit '', Quo u, Txt '' in duration '', Quo orig])
                          | Some un \<Rightarrow>
                             if v > 2 ^ 63 div un then Inl (bad_duration orig)
                             else (let w = (if f > 0 then v * un + fraction_ns f un k else v * un)
                                   in if w > 2 ^ 63 then Inl (bad_duration orig) else Inr (w, s3)))))))"

text \<open>The loop; each term takes at least one byte, so the length of the text is enough fuel.\<close>

fun duration_sum :: "nat \<Rightarrow> string \<Rightarrow> nat \<Rightarrow> string \<Rightarrow> nat result" where
  "duration_sum fuel orig d [] = Inr d"
| "duration_sum 0 orig d (c # s) = Inl (bad_duration orig)"
| "duration_sum (Suc n) orig d (c # s) =
     (case duration_term orig (c # s) of
        Inl e \<Rightarrow> Inl e
      | Inr (w, s') \<Rightarrow>
          if d + w > 2 ^ 63 then Inl (bad_duration orig) else duration_sum n orig (d + w) s')"

definition ParseDuration :: "string \<Rightarrow> int result" where
  "ParseDuration orig =
     (let neg = (case orig of c # _ \<Rightarrow> c = CHR ''-'' | [] \<Rightarrow> False);
          s = (case orig of c # t \<Rightarrow> if c = CHR ''-'' \<or> c = CHR ''+'' then t else orig | [] \<Rightarrow> [])
      in if s = ''0'' then Inr 0
         else if s = [] then Inl (bad_duration orig)
         else case duration_sum (length s) orig 0 s of
           Inl e \<Rightarrow> Inl e
         | Inr d \<Rightarrow>
             if neg then Inr (- int d)
             else if d > 2 ^ 63 - 1 then Inl (bad_duration orig)
             else Inr (int d))"

section \<open>Every parsed duration fits; the fuel is enough\<close>

lemma duration_sum_bound: "duration_sum n orig d s = Inr r \<Longrightarrow> d \<le> 2 ^ 63 \<Longrightarrow> r \<le> 2 ^ 63"
  by (induction n orig d s rule: duration_sum.induct) (auto split: sum.splits if_splits)

lemma ParseDuration_int64: "ParseDuration s = Inr d \<Longrightarrow> int64 d"
  using duration_sum_bound [of _ s 0]
  by (auto simp: ParseDuration_def int64_def Let_def split: if_splits sum.splits)

lemma leading_int_length: "leading_int x s = Some (y, r) \<Longrightarrow> length r \<le> length s"
  by (induction x s rule: leading_int.induct) (auto simp: Let_def split: if_splits)

lemma leading_fraction_length: "leading_fraction x k b s = (y, j, r) \<Longrightarrow> length r \<le> length s"
  by (induction x k b s rule: leading_fraction.induct)
    (auto split: if_splits intro: le_SucI)

lemma dropWhile_shorter: "takeWhile P s \<noteq> [] \<Longrightarrow> length (dropWhile P s) < length s"
  by (cases s) (auto simp: length_dropWhile_le less_Suc_eq_le split: if_splits)

lemma duration_term_shorter:
  assumes "duration_term orig s = Inr (w, s')"
  shows "length s' < length s"
proof -
  from assms obtain v s1 where v: "leading_int 0 s = Some (v, s1)"
    by (auto simp: duration_term_def split: list.splits if_splits option.splits)
  obtain f k s2 post where fr: "(case s1 of d # t \<Rightarrow> if d = CHR ''.'' then
        (let (f, k, t') = leading_fraction 0 0 False t in (f, k, t', length t \<noteq> length t'))
      else (0, 0, s1, False) | [] \<Rightarrow> (0, 0, s1, False)) = (f, k, s2, post)"
    by (cases "(case s1 of d # t \<Rightarrow> if d = CHR ''.'' then
        (let (f, k, t') = leading_fraction 0 0 False t in (f, k, t', length t \<noteq> length t'))
      else (0, 0, s1, False) | [] \<Rightarrow> (0, 0, s1, False))")
  then have "length s2 \<le> length s1"
    by (auto simp: leading_fraction_length Let_def le_SucI split: list.splits if_splits prod.splits)
  moreover have "length s1 \<le> length s" using v by (rule leading_int_length)
  moreover from assms v fr have "takeWhile (\<lambda>c. \<not> (c = CHR ''.'' \<or> is_decimal c)) s2 \<noteq> [] \<and>
    s' = dropWhile (\<lambda>c. \<not> (c = CHR ''.'' \<or> is_decimal c)) s2"
    unfolding duration_term_def Let_def by (simp split: list.splits if_splits option.splits)
  ultimately show ?thesis using dropWhile_shorter by fastforce
qed

lemma duration_sum_fuel: "length s \<le> n \<Longrightarrow> length s \<le> m \<Longrightarrow> duration_sum n orig d s = duration_sum m orig d s"
proof (induction n orig d s arbitrary: m rule: duration_sum.induct)
  case (3 n orig d c s)
  then obtain m' where m: "m = Suc m'" by (cases m) auto
  show ?case
  proof (cases "duration_term orig (c # s)")
    case (Inr p)
    obtain w s' where p: "p = (w, s')" by fastforce
    with Inr duration_term_shorter [of orig "c # s" w s'] 3 m show ?thesis by simp
  qed (simp add: m)
qed auto

text \<open>Every error is a plain one.\<close>

lemma duration_term_plain: "duration_term orig s = Inl e \<Longrightarrow> \<exists>m. e = Plain m"
  by (auto simp: duration_term_def bad_duration_def Let_def split: list.splits if_splits option.splits prod.splits)

lemma duration_sum_plain: "duration_sum n orig d s = Inl e \<Longrightarrow> \<exists>m. e = Plain m"
  by (induction n orig d s rule: duration_sum.induct)
    (auto simp: bad_duration_def dest: duration_term_plain split: sum.splits if_splits)

lemma ParseDuration_plain: "ParseDuration s = Inl e \<Longrightarrow> \<exists>m. e = Plain m"
  by (auto simp: ParseDuration_def bad_duration_def Let_def dest: duration_sum_plain split: sum.splits if_splits)

end
