(* ===== verification/Config.thy ===== *)
theory Config
  imports GoDuration Attest
begin

text \<open>
  \<open>internal/config\<close>: decoding the agent and server plugin configuration and validating it.
  \<open>hclsimple.Decode\<close>, which is not part of the repository, is the parameter \<open>hcl\<close> of the decoding
  functions: it turns the configuration text into the raw record or an error.
\<close>

definition ErrInvalid_config :: goerr where
  "ErrInvalid_config = Sentinel ConfigInvalid"

section \<open>Agent configuration (\<open>agent.go\<close>)\<close>

definition defaultPollTimeout :: int where
  "defaultPollTimeout = 5 * Second"

record agent_config =
  ac_project :: string
  ac_poll_timeout :: int

record rawAgent =
  ra_project :: "string option"
  ra_poll_timeout :: "string option"

definition optionalString :: "string option \<Rightarrow> string" where
  "optionalString raw = (case raw of None \<Rightarrow> [] | Some s \<Rightarrow> s)"

definition parseOptionalDuration :: "string option \<Rightarrow> int \<Rightarrow> string \<Rightarrow> int result" where
  "parseOptionalDuration raw defaultValue attr =
     (case raw of
        None \<Rightarrow> Inr defaultValue
      | Some s \<Rightarrow>
         (case ParseDuration s of
            Inl e \<Rightarrow> Inl (Wrapf2 [] ErrInvalid_config [Txt ('': invalid '' @ attr @ '' ''), Quo s, Txt '': ''] e [])
          | Inr d \<Rightarrow> Inr d))"

definition DecodeAgent :: "(string \<Rightarrow> rawAgent result) \<Rightarrow> string \<Rightarrow> agent_config result" where
  "DecodeAgent hcl src =
     (case hcl src of
        Inl e \<Rightarrow> Inl (Wrapf2 [] ErrInvalid_config [Txt '': ''] e [])
      | Inr raw \<Rightarrow>
         (case parseOptionalDuration (ra_poll_timeout raw) defaultPollTimeout ''poll_timeout'' of
            Inl e \<Rightarrow> Inl e
          | Inr pollTimeout \<Rightarrow>
              Inr \<lparr>ac_project = optionalString (ra_project raw), ac_poll_timeout = pollTimeout\<rparr>))"

section \<open>Server configuration (\<open>server.go\<close>)\<close>

definition defaultIncusTimeout :: int where
  "defaultIncusTimeout = 5 * Second"

definition defaultChallengeResponseTimeout :: int where
  "defaultChallengeResponseTimeout = 10 * Second"

definition defaultCleanupTimeout :: int where
  "defaultCleanupTimeout = 5 * Second"

record server_config =
  sc_incus_endpoint :: string
  sc_tls_ca_path :: string
  sc_tls_cert_path :: string
  sc_tls_key_path :: string
  sc_projects :: "string list"
  sc_user_selectors :: "string list"
  sc_incus_timeout :: int
  sc_challenge_response_timeout :: int
  sc_cleanup_timeout :: int

record rawServer =
  rs_incus_endpoint :: "string option"
  rs_tls_ca_path :: "string option"
  rs_tls_cert_path :: "string option"
  rs_tls_key_path :: "string option"
  rs_projects :: "string list"
  rs_user_selectors :: "string list"
  rs_incus_timeout :: "string option"
  rs_challenge_response_timeout :: "string option"
  rs_cleanup_timeout :: "string option"

text \<open>A nil slice and an empty one are the same list here; the code does not tell them apart.\<close>

definition DecodeServer :: "(string \<Rightarrow> rawServer result) \<Rightarrow> string \<Rightarrow> server_config result" where
  "DecodeServer hcl src =
     (case hcl src of
        Inl e \<Rightarrow> Inl (Wrapf2 [] ErrInvalid_config [Txt '': ''] e [])
      | Inr raw \<Rightarrow>
         (case parseOptionalDuration (rs_incus_timeout raw) defaultIncusTimeout ''incus_timeout'' of
            Inl e \<Rightarrow> Inl e
          | Inr incusTimeout \<Rightarrow>
             (case parseOptionalDuration (rs_challenge_response_timeout raw) defaultChallengeResponseTimeout
                     ''challenge_response_timeout'' of
                Inl e \<Rightarrow> Inl e
              | Inr challengeTimeout \<Rightarrow>
                 (case parseOptionalDuration (rs_cleanup_timeout raw) defaultCleanupTimeout ''cleanup_timeout'' of
                    Inl e \<Rightarrow> Inl e
                  | Inr cleanupTimeout \<Rightarrow>
                      Inr \<lparr>sc_incus_endpoint = optionalString (rs_incus_endpoint raw),
                           sc_tls_ca_path = optionalString (rs_tls_ca_path raw),
                           sc_tls_cert_path = optionalString (rs_tls_cert_path raw),
                           sc_tls_key_path = optionalString (rs_tls_key_path raw),
                           sc_projects = rs_projects raw,
                           sc_user_selectors = rs_user_selectors raw,
                           sc_incus_timeout = incusTimeout,
                           sc_challenge_response_timeout = challengeTimeout,
                           sc_cleanup_timeout = cleanupTimeout\<rparr>))))"

section \<open>Validation (\<open>validate.go\<close>)\<close>

definition maxProjects :: nat where
  "maxProjects = 32"

definition maxUserSelectors :: nat where
  "maxUserSelectors = 32"

definition userKeyPrefix :: string where
  "userKeyPrefix = ''user.''"

definition reservedNonceKey :: string where
  "reservedNonceKey = ''user.spire.attestor.nonce''"

definition reservedNoncePrefix :: string where
  "reservedNoncePrefix = reservedNonceKey @ ''.''"

definition config_error :: "frag list \<Rightarrow> goerr" where
  "config_error m = Wrapf [] ErrInvalid_config (Txt '': '' # m)"

definition requireNonempty :: "string \<Rightarrow> string \<Rightarrow> goerr option" where
  "requireNonempty value attr = (if value = [] then Some (config_error [Txt (attr @ '' is required'')]) else None)"

definition requirePositive :: "int \<Rightarrow> string \<Rightarrow> goerr option" where
  "requirePositive value attr =
     (if value \<le> 0 then Some (config_error [Txt (attr @ '' must be positive'')]) else None)"

text \<open>The loop over the projects, with the set of names already seen.\<close>

fun project_errors :: "string list \<Rightarrow> string list \<Rightarrow> goerr list" where
  "project_errors seen [] = []"
| "project_errors seen (p # ps) =
     (if p = [] then config_error [Txt ''project must be nonempty''] # project_errors seen ps
      else if p \<in> set seen then config_error [Txt ''duplicate project '', Quo p] # project_errors seen ps
      else project_errors (p # seen) ps)"

definition validateProjects :: "string list \<Rightarrow> goerr option" where
  "validateProjects projects =
     errors_join (map Some (
       (if length projects = 0 then [config_error [Txt ''projects must contain at least one project'']] else []) @
       (if length projects > maxProjects
        then [config_error [Txt ''projects count '', Num (int (length projects)), Txt '' exceeds '', Num (int maxProjects)]]
        else []) @
       project_errors [] projects))"

definition validateUserSelector :: "string \<Rightarrow> goerr option" where
  "validateUserSelector key =
     (if key = [] then Some (config_error [Txt ''user_selectors entry must be nonempty''])
      else if \<not> has_prefix key userKeyPrefix \<or> key = userKeyPrefix
      then Some (config_error [Txt ''user_selectors entry '', Quo key, Txt '' must be a user.* key''])
      else if key = reservedNonceKey \<or> has_prefix key reservedNoncePrefix
      then Some (config_error [Txt ''user_selectors entry '', Quo key, Txt '' uses the reserved nonce namespace''])
      else None)"

fun selector_errors :: "string list \<Rightarrow> string list \<Rightarrow> goerr list" where
  "selector_errors seen [] = []"
| "selector_errors seen (k # ks) =
     (case validateUserSelector k of
        Some e \<Rightarrow> e # selector_errors seen ks
      | None \<Rightarrow>
          if k \<in> set seen then config_error [Txt ''duplicate user selector '', Quo k] # selector_errors seen ks
          else selector_errors (k # seen) ks)"

definition validateUserSelectors :: "string list \<Rightarrow> goerr option" where
  "validateUserSelectors keys =
     errors_join (map Some (
       (if length keys > maxUserSelectors
        then [config_error [Txt ''user_selectors count '', Num (int (length keys)), Txt '' exceeds '', Num (int maxUserSelectors)]]
        else []) @
       selector_errors [] keys))"

definition ValidateAgent :: "agent_config \<Rightarrow> string \<Rightarrow> goerr option" where
  "ValidateAgent cfg trustDomain =
     errors_join
       [requireNonempty trustDomain ''trust_domain'',
        requirePositive (ac_poll_timeout cfg) ''poll_timeout'']"

definition ValidateServer :: "server_config \<Rightarrow> string \<Rightarrow> goerr option" where
  "ValidateServer cfg trustDomain =
     errors_join
       [requireNonempty trustDomain ''trust_domain'',
        requireNonempty (sc_incus_endpoint cfg) ''incus_endpoint'',
        requireNonempty (sc_tls_ca_path cfg) ''tls_ca_path'',
        requireNonempty (sc_tls_cert_path cfg) ''tls_cert_path'',
        requireNonempty (sc_tls_key_path cfg) ''tls_key_path'',
        requirePositive (sc_incus_timeout cfg) ''incus_timeout'',
        requirePositive (sc_challenge_response_timeout cfg) ''challenge_response_timeout'',
        requirePositive (sc_cleanup_timeout cfg) ''cleanup_timeout'',
        validateProjects (sc_projects cfg),
        validateUserSelectors (sc_user_selectors cfg)]"

section \<open>Error classes\<close>

lemma config_error_class [simp, err_simps]: "err_is (config_error m) s \<longleftrightarrow> s = ConfigInvalid"
  by (auto simp: config_error_def ErrInvalid_config_def)

lemma require_class:
  "requireNonempty v a = Some e \<Longrightarrow> err_is e s \<longleftrightarrow> s = ConfigInvalid"
  "requirePositive d a = Some e \<Longrightarrow> err_is e s \<longleftrightarrow> s = ConfigInvalid"
  by (auto simp: requireNonempty_def requirePositive_def split: if_splits)

lemma require_None [simp]:
  "requireNonempty v a = None \<longleftrightarrow> v \<noteq> []" "requirePositive d a = None \<longleftrightarrow> 0 < d"
  by (auto simp: requireNonempty_def requirePositive_def)

lemma validateUserSelector_class: "validateUserSelector k = Some e \<Longrightarrow> err_is e s \<longleftrightarrow> s = ConfigInvalid"
  by (auto simp: validateUserSelector_def split: if_splits)

lemma loop_errors_class:
  "e \<in> set (project_errors seen ps) \<Longrightarrow> err_is e s \<longleftrightarrow> s = ConfigInvalid"
  "e \<in> set (selector_errors seen ks) \<Longrightarrow> err_is e s \<longleftrightarrow> s = ConfigInvalid"
proof -
  show "e \<in> set (project_errors seen ps) \<Longrightarrow> err_is e s \<longleftrightarrow> s = ConfigInvalid"
    by (induction seen ps rule: project_errors.induct) (auto split: if_splits)
  show "e \<in> set (selector_errors seen ks) \<Longrightarrow> err_is e s \<longleftrightarrow> s = ConfigInvalid"
    by (induction seen ks rule: selector_errors.induct)
      (auto simp: validateUserSelector_class split: if_splits option.splits)
qed

text \<open>A nonempty join of errors of one class has that class.\<close>

lemma errors_join_class:
  assumes "errors_join es = Some e" "\<And>x. Some x \<in> set es \<Longrightarrow> err_is x = (\<lambda>s. s = c)"
  shows "err_is e s \<longleftrightarrow> s = c"
proof -
  from assms(1) have "\<not> (\<forall>x\<in>set es. x = None)" by (metis errors_join_None option.distinct(1))
  then obtain x where "Some x \<in> set es" by auto
  then show ?thesis using errors_join_is [OF assms(1), of s] assms(2) by auto
qed

lemma validateProjects_class: "validateProjects ps = Some e \<Longrightarrow> err_is e s \<longleftrightarrow> s = ConfigInvalid"
  unfolding validateProjects_def
  by (erule errors_join_class) (auto simp: fun_eq_iff loop_errors_class split: if_splits)

lemma validateUserSelectors_class: "validateUserSelectors ks = Some e \<Longrightarrow> err_is e s \<longleftrightarrow> s = ConfigInvalid"
  unfolding validateUserSelectors_def
  by (erule errors_join_class) (auto simp: fun_eq_iff loop_errors_class split: if_splits)

lemma ValidateAgent_class: "ValidateAgent cfg td = Some e \<Longrightarrow> err_is e s \<longleftrightarrow> s = ConfigInvalid"
  unfolding ValidateAgent_def
  by (erule errors_join_class) (auto simp: fun_eq_iff require_class)

lemma ValidateServer_class: "ValidateServer cfg td = Some e \<Longrightarrow> err_is e s \<longleftrightarrow> s = ConfigInvalid"
  unfolding ValidateServer_def
  by (erule errors_join_class)
    (auto simp: fun_eq_iff require_class validateProjects_class validateUserSelectors_class)

section \<open>What validation accepts\<close>

lemma project_errors_Nil:
  "project_errors seen ps = [] \<longleftrightarrow> [] \<notin> set ps \<and> distinct ps \<and> set seen \<inter> set ps = {}"
  by (induction seen ps rule: project_errors.induct) auto

definition allowed_selector :: "string \<Rightarrow> bool" where
  "allowed_selector k \<longleftrightarrow> (\<exists>name. name \<noteq> [] \<and> k = userKeyPrefix @ name) \<and> k \<noteq> reservedNonceKey \<and>
     \<not> has_prefix k reservedNoncePrefix"

lemma validateUserSelector_None: "validateUserSelector k = None \<longleftrightarrow> allowed_selector k"
  by (auto simp: validateUserSelector_def allowed_selector_def has_prefix_iff userKeyPrefix_def)

lemma selector_errors_Nil:
  "selector_errors seen ks = [] \<longleftrightarrow> list_all allowed_selector ks \<and> distinct ks \<and> set seen \<inter> set ks = {}"
  by (induction seen ks rule: selector_errors.induct)
    (auto simp: validateUserSelector_None [symmetric] split: option.splits)

lemma validateProjects_None:
  "validateProjects ps = None \<longleftrightarrow> 1 \<le> length ps \<and> length ps \<le> maxProjects \<and> [] \<notin> set ps \<and> distinct ps"
proof -
  have "validateProjects ps = None \<longleftrightarrow>
    (if length ps = 0 then [config_error [Txt ''projects must contain at least one project'']] else []) @
       (if length ps > maxProjects
        then [config_error [Txt ''projects count '', Num (int (length ps)), Txt '' exceeds '', Num (int maxProjects)]]
        else []) @ project_errors [] ps = []"
    unfolding validateProjects_def by (auto simp: ball_Un split: if_splits)
  then show ?thesis using project_errors_Nil [of "[]" ps] by (auto simp: Suc_le_eq split: if_splits)
qed

lemma validateUserSelectors_None:
  "validateUserSelectors ks = None \<longleftrightarrow> length ks \<le> maxUserSelectors \<and> list_all allowed_selector ks \<and> distinct ks"
proof -
  have "validateUserSelectors ks = None \<longleftrightarrow>
    (if length ks > maxUserSelectors
        then [config_error [Txt ''user_selectors count '', Num (int (length ks)), Txt '' exceeds '', Num (int maxUserSelectors)]]
        else []) @ selector_errors [] ks = []"
    unfolding validateUserSelectors_def by (auto simp: ball_Un split: if_splits)
  then show ?thesis using selector_errors_Nil [of "[]" ks] by (auto split: if_splits)
qed

definition server_config_ok :: "server_config \<Rightarrow> string \<Rightarrow> bool" where
  "server_config_ok cfg trustDomain \<longleftrightarrow>
     trustDomain \<noteq> [] \<and> sc_incus_endpoint cfg \<noteq> [] \<and> sc_tls_ca_path cfg \<noteq> [] \<and> sc_tls_cert_path cfg \<noteq> [] \<and>
     sc_tls_key_path cfg \<noteq> [] \<and> 0 < sc_incus_timeout cfg \<and> 0 < sc_challenge_response_timeout cfg \<and>
     0 < sc_cleanup_timeout cfg \<and>
     1 \<le> length (sc_projects cfg) \<and> length (sc_projects cfg) \<le> 32 \<and> [] \<notin> set (sc_projects cfg) \<and> distinct (sc_projects cfg) \<and>
     length (sc_user_selectors cfg) \<le> 32 \<and> list_all allowed_selector (sc_user_selectors cfg) \<and> distinct (sc_user_selectors cfg)"

lemma ValidateServer_None: "ValidateServer cfg td = None \<longleftrightarrow> server_config_ok cfg td"
  by (auto simp: ValidateServer_def server_config_ok_def validateProjects_None validateUserSelectors_None
      maxProjects_def maxUserSelectors_def)

lemma ValidateAgent_None: "ValidateAgent cfg td = None \<longleftrightarrow> td \<noteq> [] \<and> 0 < ac_poll_timeout cfg"
  by (auto simp: ValidateAgent_def)

lemma allowed_not_reserved: "allowed_selector k \<Longrightarrow> \<not> reserved_key k"
  by (auto simp: allowed_selector_def reserved_key_def reservedNoncePrefix_def reservedNonceKey_def configKeyPrefix_def)

section \<open>Decoded durations\<close>

lemma parseOptionalDuration_Inr:
  "parseOptionalDuration raw d a = Inr t \<longleftrightarrow> (case raw of None \<Rightarrow> t = d | Some s \<Rightarrow> ParseDuration s = Inr t)"
  by (auto simp: parseOptionalDuration_def split: option.splits sum.splits)

lemma parseOptionalDuration_class: "parseOptionalDuration raw d a = Inl e \<Longrightarrow> err_is e ConfigInvalid"
  by (auto simp: parseOptionalDuration_def ErrInvalid_config_def split: option.splits sum.splits)

lemma parseOptionalDuration_int64: "parseOptionalDuration raw d a = Inr t \<Longrightarrow> int64 d \<Longrightarrow> int64 t"
  by (auto simp: parseOptionalDuration_Inr ParseDuration_int64 split: option.splits)

lemma default_int64 [simp]:
  "int64 defaultPollTimeout" "int64 defaultIncusTimeout" "int64 defaultChallengeResponseTimeout" "int64 defaultCleanupTimeout"
  by (simp_all add: int64_def defaultPollTimeout_def defaultIncusTimeout_def defaultChallengeResponseTimeout_def
      defaultCleanupTimeout_def Second_def)

definition sample_server_config :: server_config where
  "sample_server_config =
     \<lparr>sc_incus_endpoint = ''https://incus:8443'', sc_tls_ca_path = ''/ca'', sc_tls_cert_path = ''/cert'',
      sc_tls_key_path = ''/key'', sc_projects = [''default'', ''other''], sc_user_selectors = [''user.role''],
      sc_incus_timeout = 5000000000, sc_challenge_response_timeout = 10000000000, sc_cleanup_timeout = 5000000000\<rparr>"

lemma sample_server_config_ok: "ValidateServer sample_server_config ''example.org'' = None"
  by (simp add: ValidateServer_None server_config_ok_def sample_server_config_def allowed_selector_def
      userKeyPrefix_def reservedNonceKey_def reservedNoncePrefix_def)

section \<open>Properties\<close>

text \<open>
  C23: a server configuration is accepted exactly when the endpoint, the three TLS paths and the trust
  domain are given, every deadline is positive, there are 1 to 32 distinct nonempty projects and at
  most 32 distinct \<open>user.\<close> selector keys outside the nonce namespace; a refusal has the class
  \<open>ErrInvalid\<close> and no other.
\<close>

theorem validate_server_exact:
  "case ValidateServer cfg trustDomain of
     None \<Rightarrow> server_config_ok cfg trustDomain
   | Some e \<Rightarrow> \<not> server_config_ok cfg trustDomain \<and> (\<forall>s. err_is e s \<longleftrightarrow> s = ConfigInvalid)"
  using ValidateServer_None [of cfg trustDomain] ValidateServer_class [of cfg trustDomain]
  by (auto split: option.split)

text \<open>The same for the agent, which needs a trust domain and a positive poll timeout.\<close>

lemma validate_agent_exact:
  "case ValidateAgent cfg trustDomain of
     None \<Rightarrow> trustDomain \<noteq> [] \<and> 0 < ac_poll_timeout cfg
   | Some e \<Rightarrow> (trustDomain = [] \<or> ac_poll_timeout cfg \<le> 0) \<and> (\<forall>s. err_is e s \<longleftrightarrow> s = ConfigInvalid)"
  using ValidateAgent_None [of cfg trustDomain] ValidateAgent_class [of cfg trustDomain]
  by (auto split: option.split)

text \<open>
  Decoding keeps every attribute of the HCL document, fills an omitted deadline with its documented
  default (5s, 10s, 5s) and takes a given one from \<open>ParseDuration\<close>, within 64 bits; every failure has the
  class \<open>ErrInvalid\<close>.
\<close>

lemma decode_server_defaults:
  "case DecodeServer hcl src of
     Inl e \<Rightarrow> err_is e ConfigInvalid
   | Inr cfg \<Rightarrow> \<exists>raw. hcl src = Inr raw \<and> sc_projects cfg = rs_projects raw \<and>
       sc_user_selectors cfg = rs_user_selectors raw \<and>
       (case rs_incus_timeout raw of None \<Rightarrow> sc_incus_timeout cfg = 5 * Second
          | Some t \<Rightarrow> ParseDuration t = Inr (sc_incus_timeout cfg)) \<and>
       (case rs_challenge_response_timeout raw of None \<Rightarrow> sc_challenge_response_timeout cfg = 10 * Second
          | Some t \<Rightarrow> ParseDuration t = Inr (sc_challenge_response_timeout cfg)) \<and>
       (case rs_cleanup_timeout raw of None \<Rightarrow> sc_cleanup_timeout cfg = 5 * Second
          | Some t \<Rightarrow> ParseDuration t = Inr (sc_cleanup_timeout cfg)) \<and>
       int64 (sc_incus_timeout cfg) \<and> int64 (sc_challenge_response_timeout cfg) \<and> int64 (sc_cleanup_timeout cfg)"
proof (cases "DecodeServer hcl src")
  case (Inl e)
  then show ?thesis
    by (auto simp: DecodeServer_def parseOptionalDuration_class ErrInvalid_config_def split: sum.splits)
next
  case (Inr cfg)
  then obtain raw where raw: "hcl src = Inr raw"
    and t: "parseOptionalDuration (rs_incus_timeout raw) defaultIncusTimeout ''incus_timeout'' = Inr (sc_incus_timeout cfg)"
      "parseOptionalDuration (rs_challenge_response_timeout raw) defaultChallengeResponseTimeout
         ''challenge_response_timeout'' = Inr (sc_challenge_response_timeout cfg)"
      "parseOptionalDuration (rs_cleanup_timeout raw) defaultCleanupTimeout ''cleanup_timeout'' = Inr (sc_cleanup_timeout cfg)"
    and cfg: "sc_projects cfg = rs_projects raw" "sc_user_selectors cfg = rs_user_selectors raw"
    by (auto simp: DecodeServer_def split: sum.splits)
  from t [THEN parseOptionalDuration_int64] have "int64 (sc_incus_timeout cfg)"
    "int64 (sc_challenge_response_timeout cfg)" "int64 (sc_cleanup_timeout cfg)" by simp_all
  with Inr raw cfg t show ?thesis
    by (simp add: parseOptionalDuration_Inr defaultIncusTimeout_def defaultChallengeResponseTimeout_def defaultCleanupTimeout_def)
qed

text \<open>
  C32: the two copies of the nonce namespace agree: under a validated configuration no configured
  selector is refused as reserved when the attributes are built.
\<close>

theorem validated_selectors_never_reserved:
  assumes "ValidateServer cfg trustDomain = None"
  shows "append_user_selectors expanded (sc_user_selectors cfg) sels =
    Inr (sels @ concat (map (user_selector expanded) (sc_user_selectors cfg)))"
proof -
  have "list_all allowed_selector (sc_user_selectors cfg)"
    using assms by (simp add: ValidateServer_None server_config_ok_def)
  then show ?thesis
    using allowed_not_reserved by (intro append_user_selectors_ok) (auto simp: list_all_iff)
qed

theorem validated_selectors_never_reserved_witness:
  "append_user_selectors [''user.role'' \<mapsto> ''db''] (sc_user_selectors sample_server_config) [] = Inr [''user.role:db'']"
  using validated_selectors_never_reserved [OF sample_server_config_ok, of "[''user.role'' \<mapsto> ''db'']" "[]"]
  by (simp add: user_selector_def sample_server_config_def)

end
