(* ===== verification/GoContext.thy ===== *)
theory GoContext
  imports GoErrors GoDuration
begin

text \<open>
  \<open>context.Context\<close> on a timeline of nanoseconds: when its owner cancels it and when its deadline is,
  if ever. \<open>ctx_err c t\<close> is \<open>c.Err()\<close> observed at time \<open>t\<close>. The theory also holds \<open>waitDuration\<close>, which the
  agent and the Incus adapter define alike, the laws their loops need of a wait function, and the
  capped exponential backoff the two loops share.
\<close>

section \<open>Contexts\<close>

record ctx =
  ctx_cancel_at :: "int option"
  ctx_deadline :: "int option"

definition background :: ctx where
  "background = \<lparr>ctx_cancel_at = None, ctx_deadline = None\<rparr>"

definition min_time :: "int option \<Rightarrow> int option \<Rightarrow> int option" where
  "min_time a b =
     (case a of None \<Rightarrow> b | Some x \<Rightarrow> (case b of None \<Rightarrow> Some x | Some y \<Rightarrow> Some (min x y)))"

definition done_at :: "ctx \<Rightarrow> int option" where
  "done_at c = min_time (ctx_cancel_at c) (ctx_deadline c)"

definition reached :: "int option \<Rightarrow> int \<Rightarrow> bool" where
  "reached a t \<longleftrightarrow> (case a of None \<Rightarrow> False | Some x \<Rightarrow> x \<le> t)"

text \<open>The first of the two events decides the error.\<close>

definition ctx_err :: "ctx \<Rightarrow> int \<Rightarrow> goerr option" where
  "ctx_err c t =
     (if \<not> reached (done_at c) t then None
      else if ctx_cancel_at c = done_at c then Some (Sentinel CtxCanceled)
      else Some (Sentinel CtxDeadlineExceeded))"

text \<open>\<open>context.WithTimeout\<close> at time \<open>now\<close>, and \<open>context.WithoutCancel\<close>.\<close>

definition with_timeout :: "ctx \<Rightarrow> int \<Rightarrow> int \<Rightarrow> ctx" where
  "with_timeout c now d = c\<lparr>ctx_deadline := min_time (ctx_deadline c) (Some (now + d))\<rparr>"

definition without_cancel :: "ctx \<Rightarrow> ctx" where
  "without_cancel c = c\<lparr>ctx_cancel_at := None, ctx_deadline := None\<rparr>"

lemma reached_mono: "reached a t \<Longrightarrow> t \<le> u \<Longrightarrow> reached a u"
  by (auto simp: reached_def split: option.splits)

lemma ctx_err_mono: "ctx_err c t \<noteq> None \<Longrightarrow> t \<le> u \<Longrightarrow> ctx_err c u = ctx_err c t"
  by (auto simp: ctx_err_def reached_mono split: if_splits)

lemma ctx_err_class: "ctx_err c t = Some e \<Longrightarrow> context_error e"
  by (auto simp: ctx_err_def context_error_def split: if_splits)

lemma with_timeout_done: "now + d \<le> t \<Longrightarrow> ctx_err (with_timeout c now d) t \<noteq> None"
  by (auto simp: ctx_err_def with_timeout_def done_at_def reached_def min_time_def split: option.splits)

lemma detached_timeout:
  "ctx_cancel_at (with_timeout (without_cancel c) now d) = None"
  "ctx_deadline (with_timeout (without_cancel c) now d) = Some (now + d)"
  by (simp_all add: with_timeout_def without_cancel_def min_time_def)

section \<open>Waiting\<close>

text \<open>
  \<open>waitDuration\<close> on a world that is the current time: it returns at the end of the delay, or when the
  context is done if that is earlier.
\<close>

definition waitDuration :: "ctx \<Rightarrow> int \<Rightarrow> int \<Rightarrow> goerr option \<times> int" where
  "waitDuration c delay t =
     (let stop = t + max 0 delay
      in if reached (done_at c) stop then
           (let u = max t (the (done_at c)) in (ctx_err c u, u))
         else (None, stop))"

text \<open>What the retry loops need of a \<open>waitFunc\<close> over a world with a clock.\<close>

locale waiter =
  fixes wait :: "ctx \<Rightarrow> int \<Rightarrow> 'w \<Rightarrow> goerr option \<times> 'w"
    and clock :: "'w \<Rightarrow> int"
  assumes wait_elapsed: "wait c d w = (None, w') \<Longrightarrow> 0 < d \<Longrightarrow> clock w + d \<le> clock w' \<and> ctx_err c (clock w) = None"
    and wait_error: "wait c d w = (Some e, w') \<Longrightarrow> ctx_err c (clock w') = Some e \<and> clock w \<le> clock w'"
begin

lemma wait_class: "wait c d w = (Some e, w') \<Longrightarrow> context_error e"
  using wait_error ctx_err_class by blast

lemma wait_stops: "ctx_err c (clock w) \<noteq> None \<Longrightarrow> 0 < d \<Longrightarrow> \<exists>e w'. wait c d w = (Some e, w')"
  using wait_elapsed [of c d w] by (cases "wait c d w"; cases "fst (wait c d w)") auto

end

interpretation timer: waiter waitDuration "\<lambda>t. t"
proof
  fix c :: ctx and d w w' :: int
  assume "waitDuration c d w = (None, w')" "0 < d"
  then show "w + d \<le> w' \<and> ctx_err c w = None"
    by (auto simp: waitDuration_def ctx_err_def Let_def reached_def split: if_splits option.splits)
next
  fix c :: ctx and d w w' :: int and e
  assume "waitDuration c d w = (Some e, w')"
  then show "ctx_err c w' = Some e \<and> w \<le> w'"
    by (auto simp: waitDuration_def Let_def split: if_splits)
qed

section \<open>Backoff\<close>

text \<open>A delay that doubles up to a cap.\<close>

locale backoff =
  fixes next_delay :: "int \<Rightarrow> int"
    and first cap :: int
  assumes next_delay: "next_delay d = min (2 * d) cap"
    and first_pos: "0 < first"
    and first_cap: "first \<le> cap"
begin

lemma delay_closed_form: "(next_delay ^^ n) first = min (first * 2 ^ n) cap"
proof (induction n)
  case 0
  then show ?case using first_cap by simp
next
  case (Suc n)
  have "cap \<le> 2 * cap" using first_pos first_cap by simp
  with Suc show ?case by (simp add: next_delay algebra_simps min_def)
qed

lemma next_bounds: "first \<le> d \<Longrightarrow> d \<le> cap \<Longrightarrow> first \<le> next_delay d \<and> next_delay d \<le> cap \<and> d \<le> next_delay d"
  using first_pos first_cap by (simp add: next_delay)

end

end
