(* ===== verification/Traces.thy ===== *)
theory Traces
  imports GoContext
begin

text \<open>
  Recording what a component calls. A port operation takes the world and returns its result with the
  next world; on the world paired with a list of events, \<open>record_call\<close> makes the same call and appends
  its event. \<open>same_run\<close> states that a computation over recording ports is the plain one.
\<close>

type_synonym ('w, 'e) recorded = "'w \<times> 'e list"

definition record_call :: "('r \<Rightarrow> 'e) \<Rightarrow> ('w \<Rightarrow> 'r \<times> 'w) \<Rightarrow> ('w, 'e) recorded \<Rightarrow> 'r \<times> ('w, 'e) recorded" where
  "record_call ev call wt = (let (r, w1) = call (fst wt) in (r, (w1, snd wt @ [ev r])))"

lemma record_call_simp [simp]:
  "record_call ev call (w, tr) = (fst (call w), (snd (call w), tr @ [ev (fst (call w))]))"
  by (simp add: record_call_def split: prod.split)

text \<open>\<open>same_run f g\<close>: the recording computation \<open>f\<close> does what \<open>g\<close> does, whatever the trace so far.\<close>

definition same_run :: "(('w, 'e) recorded \<Rightarrow> 'r \<times> ('w, 'e) recorded) \<Rightarrow> ('w \<Rightarrow> 'r \<times> 'w) \<Rightarrow> bool" where
  "same_run f g \<longleftrightarrow> (\<forall>w tr. \<exists>tr'. f (w, tr) = (fst (g w), (snd (g w), tr')))"

lemma same_run_call: "same_run (record_call ev call) call"
  by (auto simp: same_run_def)

lemma same_runE:
  assumes "same_run f g"
  obtains r w' tr' where "f (w, tr) = (r, (w', tr'))" "g w = (r, w')"
  using assms unfolding same_run_def by (metis prod.collapse)

lemma same_run_result: "same_run f g \<Longrightarrow> fst (f (w, tr)) = fst (g w)"
  unfolding same_run_def by (metis fst_conv)

text \<open>A recorded wait function keeps the laws of the plain one.\<close>

lemma record_waiter:
  assumes "waiter wait clock"
  shows "waiter (\<lambda>c d. record_call (ev c d) (wait c d)) (clock \<circ> fst)"
proof (rule waiter.intro)
  fix c d w w'
  assume "record_call (ev c d) (wait c d) w = (None, w')" "0 < d"
  moreover from this have "wait c d (fst w) = (None, fst w')"
    by (cases w) (auto simp: prod_eq_iff)
  ultimately show "(clock \<circ> fst) w + d \<le> (clock \<circ> fst) w' \<and> ctx_err c ((clock \<circ> fst) w) = None"
    using waiter.wait_elapsed [OF assms] by simp
next
  fix c d w e w'
  assume "record_call (ev c d) (wait c d) w = (Some e, w')"
  then have "wait c d (fst w) = (Some e, fst w')"
    by (cases w) (auto simp: prod_eq_iff)
  then show "ctx_err c ((clock \<circ> fst) w') = Some e \<and> (clock \<circ> fst) w \<le> (clock \<circ> fst) w'"
    using waiter.wait_error [OF assms] by simp
qed

end
