(* ===== verification/Server.thy ===== *)
theory Server
  imports WireCodecs Config Traces
begin

text \<open>
  \<open>internal/server\<close>: the host-side attestation service. Every port operation is a function of the
  world \<open>'w\<close>, which it may change; the world also holds the time (\<open>clock\<close>) and the random source.
  The model follows \<open>Attest\<close> call by call. To state which calls a run makes, \<open>log_incus\<close>,
  \<open>log_exchange\<close> and \<open>log_random\<close> wrap arbitrary ports so that each call is appended to a trace.
\<close>

section \<open>Ports (\<open>ports.go\<close>)\<close>

text \<open>\<open>Lookup\<close> returns an instance and \<open>found\<close>; the instance is not read when \<open>found\<close> is false.\<close>

record 'w incus_port =
  ip_lookup :: "ctx \<Rightarrow> string \<Rightarrow> string \<Rightarrow> 'w \<Rightarrow> vm_instance option result \<times> 'w"
  ip_set_nonce :: "ctx \<Rightarrow> vm_instance \<Rightarrow> string \<Rightarrow> string \<Rightarrow> 'w \<Rightarrow> goerr option \<times> 'w"
  ip_unset_nonce :: "ctx \<Rightarrow> vm_instance \<Rightarrow> string \<Rightarrow> 'w \<Rightarrow> goerr option \<times> 'w"

record 'w server_exchange =
  se_receive_payload :: "ctx \<Rightarrow> 'w \<Rightarrow> string result \<times> 'w"
  se_send_challenge :: "ctx \<Rightarrow> string \<Rightarrow> 'w \<Rightarrow> goerr option \<times> 'w"
  se_receive_response :: "ctx \<Rightarrow> 'w \<Rightarrow> string result \<times> 'w"
  se_send_attributes :: "ctx \<Rightarrow> attributes \<Rightarrow> 'w \<Rightarrow> goerr option \<times> 'w"

text \<open>\<open>io.ReadFull\<close> on the random source, for a number of bytes.\<close>

type_synonym 'w random_source = "nat \<Rightarrow> 'w \<Rightarrow> string result \<times> 'w"

section \<open>Service (\<open>service.go\<close>)\<close>

definition randomPairBytes :: nat where
  "randomPairBytes = 16"

record 'w server_service =
  sv_client :: "'w incus_port"
  sv_projects :: "string list"
  sv_user_selectors :: "string list"
  sv_trust_domain :: string
  sv_incus_timeout :: int
  sv_challenge_timeout :: int
  sv_cleanup_timeout :: int
  sv_random :: "'w random_source"

text \<open>\<open>New\<close>; a nil interface is \<open>None\<close>.\<close>

definition New_server ::
    "'w incus_port option \<Rightarrow> server_config \<Rightarrow> string \<Rightarrow> 'w random_source option \<Rightarrow> 'w server_service result" where
  "New_server client cfg trustDomain random =
     (case client of
        None \<Rightarrow> Inl (Plain [Txt ''incus client is required''])
      | Some c \<Rightarrow>
         (case random of
            None \<Rightarrow> Inl (Plain [Txt ''random reader is required''])
          | Some r \<Rightarrow>
             (case ValidateServer cfg trustDomain of
                Some e \<Rightarrow> Inl e
              | None \<Rightarrow>
                  Inr \<lparr>sv_client = c, sv_projects = sc_projects cfg, sv_user_selectors = sc_user_selectors cfg,
                       sv_trust_domain = trustDomain, sv_incus_timeout = sc_incus_timeout cfg,
                       sv_challenge_timeout = sc_challenge_response_timeout cfg,
                       sv_cleanup_timeout = sc_cleanup_timeout cfg, sv_random = r\<rparr>)))"

text \<open>\<open>readRandomPair\<close>, between taking and releasing the mutex; \<open>RandomPair\<close> has the concurrent calls.\<close>

definition readRandomPair :: "'w server_service \<Rightarrow> 'w \<Rightarrow> (string \<times> string) result \<times> 'w" where
  "readRandomPair s w =
     (case sv_random s randomPairBytes w of
        (Inl e, w1) \<Rightarrow> (Inl (Wrapf [Txt ''read attempt id: ''] e []), w1)
      | (Inr attemptID, w1) \<Rightarrow>
         (case sv_random s randomPairBytes w1 of
            (Inl e, w2) \<Rightarrow> (Inl (Wrapf [Txt ''read nonce: ''] e []), w2)
          | (Inr raw, w2) \<Rightarrow>
             (case NewNonce raw of
                Inl e \<Rightarrow> (Inl (Wrapf [Txt ''read nonce: ''] e []), w2)
              | Inr nonce \<Rightarrow> (Inr (attemptID, nonce), w2))))"

section \<open>Resolution (\<open>resolve.go\<close>)\<close>

definition resolveHinted ::
    "uuid_lib \<Rightarrow> 'w server_service \<Rightarrow> ctx \<Rightarrow> claims \<Rightarrow> 'w \<Rightarrow> vm_instance result \<times> 'w" where
  "resolveHinted ul s c claims w =
     (if cl_project claims \<notin> set (sv_projects s) then (Inl (denied ''project is not allowed''), w)
      else case ip_lookup (sv_client s) c (cl_project claims) (cl_name claims) w of
        (Inl e, w1) \<Rightarrow> (Inl (Wrapf [Txt ''lookup instance: ''] e []), w1)
      | (Inr None, w1) \<Rightarrow> (Inl (denied ''instance not found''), w1)
      | (Inr (Some i), w1) \<Rightarrow>
         (case MatchClaims ul claims i of
            Some e \<Rightarrow> (Inl e, w1)
          | None \<Rightarrow> (Inr i, w1)))"

text \<open>
  The loop of \<open>resolveUnhinted\<close>, with the last match (first the zero value) and the number of matches.
\<close>

definition zero_instance :: vm_instance where
  "zero_instance = \<lparr>in_project = [], in_name = [], in_uuid = [], in_type = [], in_location = [],
     in_cloud_init_id = [], in_profiles = [], in_expanded_config = Map.empty\<rparr>"

fun search_projects ::
    "uuid_lib \<Rightarrow> 'w server_service \<Rightarrow> ctx \<Rightarrow> claims \<Rightarrow> string list \<Rightarrow> vm_instance \<Rightarrow> nat \<Rightarrow> 'w \<Rightarrow>
     (vm_instance \<times> nat) result \<times> 'w" where
  "search_projects ul s c claims [] matched matches w = (Inr (matched, matches), w)"
| "search_projects ul s c claims (p # ps) matched matches w =
     (case ip_lookup (sv_client s) c p (cl_name claims) w of
        (Inl e, w1) \<Rightarrow> (Inl (Wrapf [Txt ''lookup instance: ''] e []), w1)
      | (Inr None, w1) \<Rightarrow> search_projects ul s c claims ps matched matches w1
      | (Inr (Some i), w1) \<Rightarrow>
         (case MatchClaims ul claims i of
            Some _ \<Rightarrow> search_projects ul s c claims ps matched matches w1
          | None \<Rightarrow> search_projects ul s c claims ps i (Suc matches) w1))"

definition resolveUnhinted ::
    "uuid_lib \<Rightarrow> 'w server_service \<Rightarrow> ctx \<Rightarrow> claims \<Rightarrow> 'w \<Rightarrow> vm_instance result \<times> 'w" where
  "resolveUnhinted ul s c claims w =
     (case search_projects ul s c claims (sv_projects s) zero_instance 0 w of
        (Inl e, w1) \<Rightarrow> (Inl e, w1)
      | (Inr (matched, matches), w1) \<Rightarrow>
          (if matches = 1 then Inr matched
           else if matches = 0 then Inl (denied ''instance not found'')
           else Inl (denied ''multiple matching instances''), w1))"

definition resolveInstance ::
    "uuid_lib \<Rightarrow> ('w \<Rightarrow> int) \<Rightarrow> 'w server_service \<Rightarrow> ctx \<Rightarrow> claims \<Rightarrow> 'w \<Rightarrow> vm_instance result \<times> 'w" where
  "resolveInstance ul clock s c claims w =
     (let lookupCtx = with_timeout c (clock w) (sv_incus_timeout s)
      in if cl_project claims \<noteq> [] then resolveHinted ul s lookupCtx claims w
         else resolveUnhinted ul s lookupCtx claims w)"

section \<open>Cleanup (\<open>cleanup.go\<close>)\<close>

text \<open>The armed cleanup; \<open>cu_err\<close> is the result once it has run (\<open>sync.Once\<close>).\<close>

record cleanup =
  cu_rpc :: ctx
  cu_timeout :: int
  cu_instance :: vm_instance
  cu_key :: string
  cu_done :: "goerr option option"

definition cleanup_run ::
    "('w \<Rightarrow> int) \<Rightarrow> 'w incus_port \<Rightarrow> cleanup \<Rightarrow> 'w \<Rightarrow> goerr option \<times> cleanup \<times> 'w" where
  "cleanup_run clock client cu w =
     (case cu_done cu of
        Some e \<Rightarrow> (e, cu, w)
      | None \<Rightarrow>
         (let c = with_timeout (without_cancel (cu_rpc cu)) (clock w) (cu_timeout cu);
              (e, w1) = ip_unset_nonce client c (cu_instance cu) (cu_key cu) w
          in (e, cu\<lparr>cu_done := Some e\<rparr>, w1)))"

definition annotateCleanup :: "goerr option \<Rightarrow> goerr option \<Rightarrow> goerr option" where
  "annotateCleanup primary cleanErr =
     (case cleanErr of
        None \<Rightarrow> primary
      | Some ce \<Rightarrow>
         (case primary of
            None \<Rightarrow> Some (Wrapf [Txt ''cleanup nonce: ''] ce [])
          | Some p \<Rightarrow> Some (Wrapf [] p (Txt '' (cleanup: '' # err_text ce @ [Txt '')'']))))"

section \<open>Attestation\<close>

text \<open>
  The part of \<open>Attest\<close> in which the nonce key may be set: from \<open>SetNonce\<close> to the verified response.
  \<open>Inl\<close> is the error that ends it early, before the cleanup is annotated to it.
\<close>

definition challenge_guest ::
    "('w \<Rightarrow> int) \<Rightarrow> 'w server_service \<Rightarrow> 'w server_exchange \<Rightarrow> ctx \<Rightarrow> vm_instance \<Rightarrow> string \<Rightarrow> string \<Rightarrow> 'w \<Rightarrow>
     goerr option \<times> 'w" where
  "challenge_guest clock s ex c i key nonce w =
     (case ip_set_nonce (sv_client s) (with_timeout c (clock w) (sv_incus_timeout s)) i key (b64_encode nonce) w of
        (Some e, w1) \<Rightarrow> (Some (Wrapf [Txt ''set nonce: ''] e []), w1)
      | (None, w1) \<Rightarrow>
         (case EncodeChallenge key of
            Inl e \<Rightarrow> (Some e, w1)
          | Inr challenge \<Rightarrow>
             (case se_send_challenge ex c challenge w1 of
                (Some e, w2) \<Rightarrow> (Some (Wrapf [Txt ''send challenge: ''] e []), w2)
              | (None, w2) \<Rightarrow>
                 (case se_receive_response ex (with_timeout c (clock w2) (sv_challenge_timeout s)) w2 of
                    (Inl e, w3) \<Rightarrow> (Some (Wrapf [Txt ''receive response: ''] e []), w3)
                  | (Inr rawResp, w3) \<Rightarrow>
                     (case DecodeResponse rawResp of
                        Inl e \<Rightarrow> (Some e, w3)
                      | Inr got \<Rightarrow> (VerifyNonce nonce got, w3))))))"

text \<open>
  Every return after arming runs the cleanup: explicitly, annotating the error, and once more by the
  deferred call, which \<open>cleanup_run\<close> makes a no-op.
\<close>

definition attest_armed ::
    "uuid_lib \<Rightarrow> ('w \<Rightarrow> int) \<Rightarrow> 'w server_service \<Rightarrow> 'w server_exchange \<Rightarrow> ctx \<Rightarrow> vm_instance \<Rightarrow> string \<Rightarrow> string \<Rightarrow> 'w \<Rightarrow>
     goerr option \<times> 'w" where
  "attest_armed ul clock s ex c i key nonce w =
     (let armed = \<lparr>cu_rpc = c, cu_timeout = sv_cleanup_timeout s, cu_instance = i, cu_key = key, cu_done = None\<rparr>;
          (primary, w1) = challenge_guest clock s ex c i key nonce w;
          (cleanErr, armed1, w2) = cleanup_run clock (sv_client s) armed w1;
          (result, w3) =
            (case primary of
               Some e \<Rightarrow> (annotateCleanup (Some e) cleanErr, w2)
             | None \<Rightarrow>
                (case cleanErr of
                   Some e \<Rightarrow> (annotateCleanup None (Some e), w2)
                 | None \<Rightarrow>
                    (case BuildAttributes ul (sv_trust_domain s) i (sv_user_selectors s) of
                       Inl e \<Rightarrow> (Some e, w2)
                     | Inr attrs \<Rightarrow>
                        (case se_send_attributes ex c attrs w2 of
                           (Some e, w3) \<Rightarrow> (Some (Wrapf [Txt ''send attributes: ''] e []), w3)
                         | (None, w3) \<Rightarrow> (None, w3)))));
          (deferredErr, armed2, w4) = cleanup_run clock (sv_client s) armed1 w3
      in (result, w4))"

definition Attest_server ::
    "uuid_lib \<Rightarrow> ('w \<Rightarrow> int) \<Rightarrow> 'w server_service \<Rightarrow> ctx \<Rightarrow> 'w server_exchange option \<Rightarrow> 'w \<Rightarrow> goerr option \<times> 'w" where
  "Attest_server ul clock s c exchange w =
     (case exchange of
        None \<Rightarrow> (Some (Plain [Txt ''exchange is required'']), w)
      | Some ex \<Rightarrow>
         (case se_receive_payload ex c w of
            (Inl e, w1) \<Rightarrow> (Some (Wrapf [Txt ''receive payload: ''] e []), w1)
          | (Inr raw, w1) \<Rightarrow>
             (case DecodePayload ul raw of
                Inl e \<Rightarrow> (Some e, w1)
              | Inr claims \<Rightarrow>
                 (case ValidateClaims ul claims of
                    Some e \<Rightarrow> (Some e, w1)
                  | None \<Rightarrow>
                     (case resolveInstance ul clock s c claims w1 of
                        (Inl e, w2) \<Rightarrow> (Some e, w2)
                      | (Inr i, w2) \<Rightarrow>
                         (case readRandomPair s w2 of
                            (Inl e, w3) \<Rightarrow> (Some e, w3)
                          | (Inr (attemptID, nonce), w3) \<Rightarrow>
                              attest_armed ul clock s ex c i (NewConfigKeyFromAttemptID attemptID) nonce w3))))))"

section \<open>Traces\<close>

datatype server_event =
    EvPayload "string result"
  | EvLookup ctx string string "vm_instance option result"
  | EvRandom "string result"
  | EvSet ctx vm_instance string string "goerr option"
  | EvChallenge string "goerr option"
  | EvResponse ctx "string result"
  | EvUnset int ctx vm_instance string "goerr option"
  | EvAttributes attributes "goerr option"

type_synonym 'w traced = "('w, server_event) recorded"

definition log_incus :: "('w \<Rightarrow> int) \<Rightarrow> 'w incus_port \<Rightarrow> 'w traced incus_port" where
  "log_incus clock p =
     \<lparr>ip_lookup = (\<lambda>c pr n. record_call (EvLookup c pr n) (ip_lookup p c pr n)),
      ip_set_nonce = (\<lambda>c i k v. record_call (EvSet c i k v) (ip_set_nonce p c i k v)),
      ip_unset_nonce = (\<lambda>c i k wt. record_call (EvUnset (clock (fst wt)) c i k) (ip_unset_nonce p c i k) wt)\<rparr>"

definition log_exchange :: "'w server_exchange \<Rightarrow> 'w traced server_exchange" where
  "log_exchange ex =
     \<lparr>se_receive_payload = (\<lambda>c. record_call EvPayload (se_receive_payload ex c)),
      se_send_challenge = (\<lambda>c m. record_call (EvChallenge m) (se_send_challenge ex c m)),
      se_receive_response = (\<lambda>c. record_call (EvResponse c) (se_receive_response ex c)),
      se_send_attributes = (\<lambda>c a. record_call (EvAttributes a) (se_send_attributes ex c a))\<rparr>"

definition log_service :: "('w \<Rightarrow> int) \<Rightarrow> 'w server_service \<Rightarrow> 'w traced server_service" where
  "log_service clock s =
     \<lparr>sv_client = log_incus clock (sv_client s), sv_projects = sv_projects s, sv_user_selectors = sv_user_selectors s,
      sv_trust_domain = sv_trust_domain s, sv_incus_timeout = sv_incus_timeout s,
      sv_challenge_timeout = sv_challenge_timeout s, sv_cleanup_timeout = sv_cleanup_timeout s,
      sv_random = (\<lambda>n. record_call EvRandom (sv_random s n))\<rparr>"

lemmas log_simps [port_simps] = log_incus_def log_exchange_def log_service_def

text \<open>A run of \<open>Attest\<close> and the calls it made.\<close>

definition attest_trace ::
    "uuid_lib \<Rightarrow> ('w \<Rightarrow> int) \<Rightarrow> 'w server_service \<Rightarrow> ctx \<Rightarrow> 'w server_exchange \<Rightarrow> 'w \<Rightarrow>
     goerr option \<times> server_event list" where
  "attest_trace ul clock s c ex w =
     (let (r, (_, tr)) = Attest_server ul (clock \<circ> fst) (log_service clock s) c (Some (log_exchange ex)) (w, [])
      in (r, tr))"

section \<open>Trace lemmas\<close>

fun lookup_event :: "server_event \<Rightarrow> bool" where
  "lookup_event (EvLookup _ _ _ _) = True"
| "lookup_event _ = False"

fun key_event :: "server_event \<Rightarrow> bool" where
  "key_event (EvSet _ _ _ _ _) = True"
| "key_event (EvUnset _ _ _ _ _) = True"
| "key_event _ = False"

fun attributes_event :: "server_event \<Rightarrow> bool" where
  "attributes_event (EvAttributes _ _) = True"
| "attributes_event _ = False"

text \<open>The projects asked for, and the instances found with the project they were asked under.\<close>

fun lookup_projects :: "server_event list \<Rightarrow> string list" where
  "lookup_projects [] = []"
| "lookup_projects (EvLookup _ p _ _ # evs) = p # lookup_projects evs"
| "lookup_projects (_ # evs) = lookup_projects evs"

lemma lookup_projects_append [simp]: "lookup_projects (a @ b) = lookup_projects a @ lookup_projects b"
  by (induction a rule: lookup_projects.induct) simp_all

lemma log_lookup:
  "ip_lookup (sv_client (log_service clock s)) c p n (w, tr) =
     (let (x, w1) = ip_lookup (sv_client s) c p n w in (x, (w1, tr @ [EvLookup c p n x])))"
  by (simp add: log_service_def log_incus_def Let_def split: prod.split)

lemma search_events:
  "search_projects ul (log_service clock s) c claims ps m k (w, tr) = (r, (w', tr')) \<Longrightarrow>
   \<exists>ls. tr' = tr @ ls \<and> list_all lookup_event ls \<and> set (lookup_projects ls) \<subseteq> set ps"
proof (induction ps arbitrary: m k w tr)
  case (Cons p ps)
  obtain x w1 where l: "ip_lookup (sv_client s) c p (cl_name claims) w = (x, w1)" by fastforce
  let ?tr = "tr @ [EvLookup c p (cl_name claims) x]"
  consider (stop) e where "x = Inl e"
    | (go) m' k' where "search_projects ul (log_service clock s) c claims ps m' k' (w1, ?tr) = (r, (w', tr'))"
    using Cons.prems l by (auto simp: log_lookup split: sum.splits option.splits)
  then show ?case
  proof cases
    case stop
    with Cons.prems l show ?thesis by (auto simp: log_lookup)
  next
    case go
    from Cons.IH [OF this] obtain ls where "tr' = ?tr @ ls" "list_all lookup_event ls"
      "set (lookup_projects ls) \<subseteq> set ps" by blast
    then show ?thesis by (intro exI [of _ "EvLookup c p (cl_name claims) x # ls"]) auto
  qed
qed simp

lemma search_found:
  "search_projects ul (log_service clock s) c claims ps m k (w, tr) = (Inr (i, j), (w', tr')) \<Longrightarrow>
   j = k \<and> i = m \<or> k < j \<and> MatchClaims ul claims i = None \<and>
     (\<exists>p\<in>set ps. EvLookup c p (cl_name claims) (Inr (Some i)) \<in> set tr' \<and>
        (\<exists>w1 w2. ip_lookup (sv_client s) c p (cl_name claims) w1 = (Inr (Some i), w2)))"
proof (induction ps arbitrary: m k w tr)
  case (Cons p ps)
  obtain x w1 where l: "ip_lookup (sv_client s) c p (cl_name claims) w = (x, w1)" by fastforce
  let ?tr = "tr @ [EvLookup c p (cl_name claims) x]"
  consider (skip) "search_projects ul (log_service clock s) c claims ps m k (w1, ?tr) = (Inr (i, j), (w', tr'))"
    | (hit) i' where "x = Inr (Some i')" "MatchClaims ul claims i' = None"
        "search_projects ul (log_service clock s) c claims ps i' (Suc k) (w1, ?tr) = (Inr (i, j), (w', tr'))"
    using Cons.prems l by (auto simp: log_lookup split: sum.splits option.splits)
  then show ?case
  proof cases
    case skip
    from Cons.IH [OF this] show ?thesis by auto
  next
    case hit
    from search_events [OF hit(3)] have "EvLookup c p (cl_name claims) (Inr (Some i')) \<in> set tr'"
      using hit(1) by auto
    with Cons.IH [OF hit(3)] hit(1,2) l show ?thesis by auto
  qed
qed simp

text \<open>Resolution only looks up, in allowed projects only, and returns a matching instance it found.\<close>

lemma resolve_events:
  assumes "resolveInstance ul clk (log_service clock s) c claims (w, tr) = (r, (w', tr'))"
  shows "\<exists>ls. tr' = tr @ ls \<and> list_all lookup_event ls \<and> set (lookup_projects ls) \<subseteq> set (sv_projects s)"
proof -
  have pr: "sv_projects (log_service clock s) = sv_projects s" by (simp add: log_service_def)
  show ?thesis
  proof (cases "cl_project claims = []")
    case True
    with assms obtain r1 c1 where "search_projects ul (log_service clock s) c1 claims (sv_projects s) zero_instance 0 (w, tr) = (r1, (w', tr'))"
      by (auto simp: resolveInstance_def resolveUnhinted_def pr Let_def split: prod.splits sum.splits)
    from search_events [OF this] show ?thesis .
  next
    case False
    with assms show ?thesis
      by (auto simp: resolveInstance_def resolveHinted_def log_lookup pr Let_def
          split: prod.splits sum.splits option.splits if_splits)
  qed
qed

lemma resolve_found:
  assumes "resolveInstance ul clk (log_service clock s) c claims (w, tr) = (Inr i, (w', tr'))"
  shows "MatchClaims ul claims i = None \<and>
    (\<exists>c1. \<exists>p\<in>set (sv_projects s). EvLookup c1 p (cl_name claims) (Inr (Some i)) \<in> set tr' \<and>
       (\<exists>w1 w2. ip_lookup (sv_client s) c1 p (cl_name claims) w1 = (Inr (Some i), w2)))"
proof -
  have pr: "sv_projects (log_service clock s) = sv_projects s" by (simp add: log_service_def)
  show ?thesis
  proof (cases "cl_project claims = []")
    case True
    with assms obtain c1 where "search_projects ul (log_service clock s) c1 claims (sv_projects s) zero_instance 0 (w, tr) = (Inr (i, 1), (w', tr'))"
      by (auto simp: resolveInstance_def resolveUnhinted_def pr Let_def split: prod.splits sum.splits if_splits)
    from search_found [OF this] show ?thesis by auto
  next
    case False
    with assms have "MatchClaims ul claims i = None" "cl_project claims \<in> set (sv_projects s)"
      "EvLookup (with_timeout c (clk (w, tr)) (sv_incus_timeout (log_service clock s))) (cl_project claims) (cl_name claims)
         (Inr (Some i)) \<in> set tr'"
      "ip_lookup (sv_client s) (with_timeout c (clk (w, tr)) (sv_incus_timeout (log_service clock s)))
         (cl_project claims) (cl_name claims) w = (Inr (Some i), w')"
      by (auto simp: resolveInstance_def resolveHinted_def log_lookup pr Let_def
          split: prod.splits sum.splits option.splits if_splits)
    then show ?thesis by blast
  qed
qed

text \<open>The challenge: the events it adds, and all of them when it succeeds.\<close>

definition other_event :: "server_event \<Rightarrow> bool" where
  "other_event e \<longleftrightarrow> \<not> key_event e \<and> \<not> attributes_event e"

lemma challenge_events:
  assumes "challenge_guest clk (log_service clock s) (log_exchange ex) c i key nonce (w, tr) = (r, (w', tr'))"
  shows "\<exists>c1 e1 rest. tr' = tr @ EvSet c1 i key (b64_encode nonce) e1 # rest \<and> list_all other_event rest \<and>
    lookup_projects rest = []"
  using assms
  by (auto simp: challenge_guest_def log_simps other_event_def split: prod.splits option.splits sum.splits)

lemma challenge_verified:
  assumes "challenge_guest clk (log_service clock s) (log_exchange ex) c i key nonce (w, tr) = (None, (w', tr'))"
  shows "\<exists>c1 ch c2 resp. tr' = tr @ [EvSet c1 i key (b64_encode nonce) None, EvChallenge ch None, EvResponse c2 (Inr resp)] \<and>
    EncodeChallenge key = Inr ch \<and> DecodeResponse resp = Inr nonce"
  using assms
  by (auto simp: challenge_guest_def log_simps VerifyNonce_None split: prod.splits option.splits sum.splits)

lemma log_unset:
  "ip_unset_nonce (sv_client (log_service clock s)) c i k (w, tr) =
     (let (e, w1) = ip_unset_nonce (sv_client s) c i k w in (e, (w1, tr @ [EvUnset (clock w) c i k e])))"
  by (simp add: log_service_def log_incus_def Let_def split: prod.split)

lemma log_send_attributes:
  "se_send_attributes (log_exchange ex) c a (w, tr) =
     (let (e, w1) = se_send_attributes ex c a w in (e, (w1, tr @ [EvAttributes a e])))"
  by (simp add: log_exchange_def Let_def split: prod.split)

text \<open>
  The context of a cleanup that starts at \<open>now\<close>: it cannot be cancelled, and its deadline is the cleanup
  timeout after its start, whatever the deadline of the caller.
\<close>

definition detached :: "int \<Rightarrow> int \<Rightarrow> ctx \<Rightarrow> bool" where
  "detached now timeout c \<longleftrightarrow> ctx_cancel_at c = None \<and> ctx_deadline c = Some (now + timeout)"

lemma armed_events:
  assumes "attest_armed ul (clock \<circ> fst) (log_service clock s) (log_exchange ex) c i key nonce (w, tr) = (r, (w', tr'))"
  obtains c1 e1 rest now c2 u post where
    "tr' = tr @ EvSet c1 i key (b64_encode nonce) e1 # rest @ EvUnset now c2 i key u # post"
    "list_all other_event rest" "lookup_projects rest = []" "detached now (sv_cleanup_timeout s) c2"
    "post = [] \<and> r \<noteq> None \<or>
     (\<exists>ch c3 resp attrs e. e1 = None \<and> rest = [EvChallenge ch None, EvResponse c3 (Inr resp)] \<and> u = None \<and>
        post = [EvAttributes attrs e] \<and> (r = None \<longleftrightarrow> e = None) \<and> EncodeChallenge key = Inr ch \<and>
        DecodeResponse resp = Inr nonce \<and> BuildAttributes ul (sv_trust_domain s) i (sv_user_selectors s) = Inr attrs)"
proof -
  obtain primary w1 tr1 where ch: "challenge_guest (clock \<circ> fst) (log_service clock s) (log_exchange ex) c i key nonce (w, tr) = (primary, (w1, tr1))"
    by (metis surj_pair)
  define cc where "cc = with_timeout (without_cancel c) (clock w1) (sv_cleanup_timeout s)"
  obtain u w2 where u: "ip_unset_nonce (sv_client s) cc i key w1 = (u, w2)" by fastforce
  have det: "detached (clock w1) (sv_cleanup_timeout s) cc" by (auto simp: detached_def cc_def detached_timeout)
  have flds: "sv_cleanup_timeout (log_service clock s) = sv_cleanup_timeout s" "sv_trust_domain (log_service clock s) = sv_trust_domain s"
    "sv_user_selectors (log_service clock s) = sv_user_selectors s"
    by (simp_all add: log_service_def)
  let ?tr2 = "tr1 @ [EvUnset (clock w1) cc i key u]"
  from challenge_events [OF ch] obtain c1 e1 rest where
    t1: "tr1 = tr @ EvSet c1 i key (b64_encode nonce) e1 # rest" "list_all other_event rest"
      "lookup_projects rest = []" by blast
  note run = assms [unfolded attest_armed_def Let_def ch prod.case cleanup_run_def cleanup.simps option.case
      flds comp_apply fst_conv cc_def [symmetric] log_unset u]
  show ?thesis
  proof (cases "primary = None \<and> u = None \<and> is_ok (BuildAttributes ul (sv_trust_domain s) i (sv_user_selectors s))")
    case False
    then have "tr' = ?tr2 \<and> r \<noteq> None"
      using run by (auto simp: annotateCleanup_def is_ok_def split: option.splits sum.splits)
    with t1 det show ?thesis by (intro that [of c1 e1 rest "clock w1" cc u "[]"]) auto
  next
    case True
    then obtain attrs where at: "BuildAttributes ul (sv_trust_domain s) i (sv_user_selectors s) = Inr attrs" by (auto simp: is_ok_iff)
    obtain e w3 where e: "se_send_attributes ex c attrs w2 = (e, w3)" by fastforce
    have "tr' = ?tr2 @ [EvAttributes attrs e] \<and> (r = None \<longleftrightarrow> e = None)"
      using run True at e by (auto simp: log_send_attributes split: option.splits)
    moreover from challenge_verified [of "clock \<circ> fst" clock s ex c i key nonce w tr w1 tr1] ch True obtain c1' ch' c3 resp where
      "tr1 = tr @ [EvSet c1' i key (b64_encode nonce) None, EvChallenge ch' None, EvResponse c3 (Inr resp)]"
      "EncodeChallenge key = Inr ch'" "DecodeResponse resp = Inr nonce" by blast
    ultimately show ?thesis using True t1 det at
      by (intro that [of c1 e1 rest "clock w1" cc u "[EvAttributes attrs e]"]) auto
  qed
qed

text \<open>A whole run: it ends before the key is set, or it passes through the armed part.\<close>

definition resolved :: "uuid_lib \<Rightarrow> 'w server_service \<Rightarrow> string \<Rightarrow> server_event list \<Rightarrow> vm_instance \<Rightarrow> bool" where
  "resolved ul s raw ls i \<longleftrightarrow>
     (\<exists>claims c1 p. DecodePayload ul raw = Inr claims \<and> describes ul claims i \<and> p \<in> set (sv_projects s) \<and>
        EvLookup c1 p (cl_name claims) (Inr (Some i)) \<in> set ls \<and>
        (\<exists>w1 w2. ip_lookup (sv_client s) c1 p (cl_name claims) w1 = (Inr (Some i), w2))) \<and>
     list_all lookup_event ls \<and> set (lookup_projects ls) \<subseteq> set (sv_projects s)"

lemma lookup_other: "lookup_event e \<Longrightarrow> other_event e"
  by (cases e) (simp_all add: other_event_def)

lemma lookups_other: "list_all lookup_event ls \<Longrightarrow> list_all other_event ls"
  by (auto simp: list_all_iff lookup_other)

lemma readRandomPair_events:
  assumes "readRandomPair (log_service clock s) (w, tr) = (r, (w', tr'))"
  shows "(\<exists>evs. tr' = tr @ evs \<and> list_all other_event evs \<and> lookup_projects evs = []) \<and>
    (\<forall>a n. r = Inr (a, n) \<longrightarrow> tr' = tr @ [EvRandom (Inr a), EvRandom (Inr n)] \<and> length n = nonceSize)"
  using assms
  by (auto simp: readRandomPair_def log_service_def NewNonce_def other_event_def split: prod.splits sum.splits if_splits)

lemma attest_shape:
  assumes "attest_trace ul clock s c ex w = (r, tr)"
  obtains (early) "r \<noteq> None" "list_all other_event tr" "set (lookup_projects tr) \<subseteq> set (sv_projects s)"
  | (armed) raw ls a n i w3 w4 where
      "resolved ul s raw ls i" "length n = nonceSize"
      "attest_armed ul (clock \<circ> fst) (log_service clock s) (log_exchange ex) c i (NewConfigKeyFromAttemptID a) n
         (w3, EvPayload (Inr raw) # ls @ [EvRandom (Inr a), EvRandom (Inr n)]) = (r, (w4, tr))"
proof -
  from assms obtain w4 where run: "Attest_server ul (clock \<circ> fst) (log_service clock s) c (Some (log_exchange ex)) (w, []) = (r, (w4, tr))"
    by (auto simp: attest_trace_def split: prod.splits)
  obtain p w1 where p: "se_receive_payload ex c w = (p, w1)" by fastforce
  then have p': "se_receive_payload (log_exchange ex) c (w, []) = (p, (w1, [EvPayload p]))"
    by (simp add: log_exchange_def)
  note run1 = run [unfolded Attest_server_def option.case p' prod.case]
  show ?thesis
  proof (cases "\<exists>raw claims. p = Inr raw \<and> DecodePayload ul raw = Inr claims \<and> ValidateClaims ul claims = None")
    case False
    with run1 have "r \<noteq> None \<and> tr = [EvPayload p]"
      by (auto split: sum.splits option.splits) (metis option.distinct(1))+
    then show ?thesis by (intro early) (auto simp: other_event_def)
  next
    case True
    then obtain raw claims where cl: "p = Inr raw" "DecodePayload ul raw = Inr claims" "ValidateClaims ul claims = None" by blast
    obtain ri w2 tr2 where ri: "resolveInstance ul (clock \<circ> fst) (log_service clock s) c claims (w1, [EvPayload p]) = (ri, (w2, tr2))"
      by (metis surj_pair)
    from resolve_events [OF ri] obtain ls where ls: "tr2 = EvPayload p # ls" "list_all lookup_event ls"
      "set (lookup_projects ls) \<subseteq> set (sv_projects s)" by auto
    note run2 = run1 [unfolded cl(1) sum.case cl(2,3) option.case ri [unfolded cl(1)] prod.case]
    show ?thesis
    proof (cases ri)
      case (Inl e)
      with run2 have "r \<noteq> None \<and> tr = tr2" by auto
      with ls show ?thesis by (intro early) (auto simp: other_event_def [of "EvPayload p"] lookups_other)
    next
      case (Inr i)
      from resolve_found [of ul "clock \<circ> fst" clock s c claims w1 "[EvPayload p]" i w2 tr2] ri Inr ls(1)
      have res: "resolved ul s raw ls i"
        unfolding resolved_def using cl(2) ls(2,3) by (auto simp: MatchClaims_None)
      obtain rp w3 tr3 where rp: "readRandomPair (log_service clock s) (w2, tr2) = (rp, (w3, tr3))" by (metis surj_pair)
      note rnd = readRandomPair_events [OF rp]
      show ?thesis
      proof (cases rp)
        case rpl: (Inl e)
        with run2 Inr rp have "r \<noteq> None \<and> tr = tr3" by auto
        with rnd ls show ?thesis by (intro early) (auto simp: other_event_def [of "EvPayload p"] lookups_other)
      next
        case rpr: (Inr an)
        obtain a n where an: "an = (a, n)" by fastforce
        with rnd rpr ls(1) cl(1) have t: "tr3 = EvPayload (Inr raw) # ls @ [EvRandom (Inr a), EvRandom (Inr n)]" "length n = nonceSize"
          by auto
        with run2 Inr rp rpr an show ?thesis by (intro armed [OF res t(2), of a w3 w4]) auto
      qed
    qed
  qed
qed

text \<open>
  All lookups of one attempt run under one context, whose deadline is set once: the time limit is for the
  whole search, not for each lookup.
\<close>

lemma search_one_context:
  "search_projects ul (log_service clock s) c claims ps m k (w, tr) = (r, (w', tr')) \<Longrightarrow>
   EvLookup c1 p n x \<in> set tr' \<Longrightarrow> EvLookup c1 p n x \<in> set tr \<or> c1 = c"
proof (induction ps arbitrary: m k w tr)
  case (Cons q ps)
  obtain y w1 where l: "ip_lookup (sv_client s) c q (cl_name claims) w = (y, w1)" by fastforce
  let ?tr = "tr @ [EvLookup c q (cl_name claims) y]"
  consider (stop) e where "y = Inl e"
    | (go) m' k' where "search_projects ul (log_service clock s) c claims ps m' k' (w1, ?tr) = (r, (w', tr'))"
    using Cons.prems(1) l by (auto simp: log_lookup split: sum.splits option.splits)
  then show ?case
  proof cases
    case stop
    with Cons.prems l show ?thesis by (auto simp: log_lookup)
  next
    case go
    from Cons.IH [OF this Cons.prems(2)] show ?thesis by auto
  qed
qed simp

lemma lookup_context:
  assumes "resolveInstance ul clk (log_service clock s) c claims (w, []) = (r, (w', tr'))"
    and "EvLookup c1 p n x \<in> set tr'"
  shows "c1 = with_timeout c (clk (w, [])) (sv_incus_timeout s)"
proof -
  have f: "sv_incus_timeout (log_service clock s) = sv_incus_timeout s" by (simp add: log_service_def)
  show ?thesis
  proof (cases "cl_project claims = []")
    case True
    with assms(1) obtain r1 where "search_projects ul (log_service clock s) (with_timeout c (clk (w, [])) (sv_incus_timeout s)) claims
        (sv_projects (log_service clock s)) zero_instance 0 (w, []) = (r1, (w', tr'))"
      by (auto simp: resolveInstance_def resolveUnhinted_def f Let_def split: prod.splits sum.splits)
    from search_one_context [OF this assms(2)] show ?thesis by simp
  next
    case False
    with assms show ?thesis
      by (auto simp: resolveInstance_def resolveHinted_def log_lookup f Let_def
          split: prod.splits sum.splits option.splits if_splits)
  qed
qed

section \<open>What a run guarantees\<close>

text \<open>
  \<open>verified_run ul s tr attrs e\<close>: the calls of a complete attestation of one VM that ends by sending
  \<open>attrs\<close> with the result \<open>e\<close>.
\<close>

definition verified_run ::
    "uuid_lib \<Rightarrow> 'w server_service \<Rightarrow> server_event list \<Rightarrow> attributes \<Rightarrow> goerr option \<Rightarrow> bool" where
  "verified_run ul s tr attrs e \<longleftrightarrow>
     (\<exists>raw ls i a n c1 ch c2 resp now c3.
        tr = [EvPayload (Inr raw)] @ ls @
             [EvRandom (Inr a), EvRandom (Inr n), EvSet c1 i (NewConfigKeyFromAttemptID a) (b64_encode n) None,
              EvChallenge ch None, EvResponse c2 (Inr resp), EvUnset now c3 i (NewConfigKeyFromAttemptID a) None,
              EvAttributes attrs e] \<and>
        resolved ul s raw ls i \<and> length n = nonceSize \<and>
        EncodeChallenge (NewConfigKeyFromAttemptID a) = Inr ch \<and> DecodeResponse resp = Inr n \<and>
        BuildAttributes ul (sv_trust_domain s) i (sv_user_selectors s) = Inr attrs)"

text \<open>
  \<open>key_removed s tr\<close>: the nonce key is never touched, or it is set once and later removed once, from
  the same instance, in a context the caller cannot cancel.
\<close>

definition key_removed :: "'w server_service \<Rightarrow> server_event list \<Rightarrow> bool" where
  "key_removed s tr \<longleftrightarrow>
     \<not> list_ex key_event tr \<or>
     (\<exists>pre c1 i k v e mid now c2 u post.
        tr = pre @ [EvSet c1 i k v e] @ mid @ [EvUnset now c2 i k u] @ post \<and>
        \<not> list_ex key_event (pre @ mid @ post) \<and> detached now (sv_cleanup_timeout s) c2)"

lemma attest_outcome:
  assumes "attest_trace ul clock s c ex w = (r, tr)"
  shows "key_removed s tr"
    and "set (lookup_projects tr) \<subseteq> set (sv_projects s)"
    and "EvAttributes attrs e \<in> set tr \<Longrightarrow> verified_run ul s tr attrs e"
    and "r = None \<longleftrightarrow> (\<exists>attrs. EvAttributes attrs None \<in> set tr)"
proof -
  have "key_removed s tr \<and> set (lookup_projects tr) \<subseteq> set (sv_projects s) \<and>
    (\<forall>attrs e. EvAttributes attrs e \<in> set tr \<longrightarrow> verified_run ul s tr attrs e) \<and>
    (r = None \<longleftrightarrow> (\<exists>attrs. EvAttributes attrs None \<in> set tr))"
    using assms
  proof (cases rule: attest_shape)
    case early
    then have "\<not> list_ex key_event tr" "EvAttributes attrs e \<notin> set tr" for attrs e
      by (auto simp: list_all_iff other_event_def)
    with early show ?thesis by (auto simp: key_removed_def)
  next
    case (armed raw ls a n i w3 w4)
    let ?key = "NewConfigKeyFromAttemptID a"
    let ?pre = "EvPayload (Inr raw) # ls @ [EvRandom (Inr a), EvRandom (Inr n)]"
    have pre: "list_all other_event ?pre" "lookup_projects ?pre = lookup_projects ls"
      using armed(1) by (auto simp: resolved_def other_event_def [of "EvPayload _"] other_event_def [of "EvRandom _"] lookups_other)
    from armed_events [OF armed(3)] obtain c1 e1 rest now c2 u post where
      tr: "tr = ?pre @ EvSet c1 i ?key (b64_encode n) e1 # rest @ EvUnset now c2 i ?key u # post"
      and rest: "list_all other_event rest" "lookup_projects rest = []" and det: "detached now (sv_cleanup_timeout s) c2"
      and post: "post = [] \<and> r \<noteq> None \<or>
       (\<exists>ch c3 resp attrs e. e1 = None \<and> rest = [EvChallenge ch None, EvResponse c3 (Inr resp)] \<and> u = None \<and>
          post = [EvAttributes attrs e] \<and> (r = None \<longleftrightarrow> e = None) \<and> EncodeChallenge ?key = Inr ch \<and>
          DecodeResponse resp = Inr n \<and> BuildAttributes ul (sv_trust_domain s) i (sv_user_selectors s) = Inr attrs)"
      by metis
    have nokey: "\<not> list_ex key_event (?pre @ rest @ post)"
      using pre(1) rest(1) post by (auto simp: list_all_iff other_event_def)
    then have kr: "key_removed s tr" unfolding key_removed_def tr using det
      by (intro disjI2 exI [of _ ?pre] exI conjI) auto
    have noattr: "EvAttributes attrs e \<notin> set ?pre \<union> set rest" for attrs e
      using pre(1) rest(1) by (auto simp: list_all_iff other_event_def)
    have lp: "set (lookup_projects tr) \<subseteq> set (sv_projects s)"
      unfolding tr using pre(2) rest(2) armed(1) post by (auto simp: resolved_def)
    show ?thesis
    proof (cases "post = []")
      case True
      with post noattr kr lp show ?thesis by (auto simp: tr)
    next
      case False
      with post obtain ch c3 resp attrs e where
        succ: "e1 = None" "rest = [EvChallenge ch None, EvResponse c3 (Inr resp)]" "u = None" "post = [EvAttributes attrs e]"
          "r = None \<longleftrightarrow> e = None" "EncodeChallenge ?key = Inr ch" "DecodeResponse resp = Inr n"
          "BuildAttributes ul (sv_trust_domain s) i (sv_user_selectors s) = Inr attrs" by blast
      have "tr = [EvPayload (Inr raw)] @ ls @
             [EvRandom (Inr a), EvRandom (Inr n), EvSet c1 i ?key (b64_encode n) None,
              EvChallenge ch None, EvResponse c3 (Inr resp), EvUnset now c2 i ?key None, EvAttributes attrs e]"
        unfolding tr using succ(1-4) by simp
      with succ(6-8) armed(1,2) have "verified_run ul s tr attrs e" unfolding verified_run_def by blast
      moreover have "EvAttributes attrs' e' \<in> set tr \<longleftrightarrow> attrs' = attrs \<and> e' = e" for attrs' e'
        unfolding tr using noattr succ(2,4) by auto
      ultimately show ?thesis using kr lp succ(5) by auto
    qed
  qed
  then show "key_removed s tr" "set (lookup_projects tr) \<subseteq> set (sv_projects s)"
    "EvAttributes attrs e \<in> set tr \<Longrightarrow> verified_run ul s tr attrs e"
    "r = None \<longleftrightarrow> (\<exists>attrs. EvAttributes attrs None \<in> set tr)" by blast+
qed

section \<open>Errors\<close>

lemma annotateCleanup_class [simp, err_simps]:
  "annotateCleanup (Some p) ce = Some e \<Longrightarrow> err_is e = err_is p"
  "annotateCleanup (Some p) ce \<noteq> None"
  "annotateCleanup None (Some ce') = Some e \<Longrightarrow> err_is e = err_is ce'"
  by (auto simp: annotateCleanup_def fun_eq_iff split: option.splits)

lemma challenge_response_result:
  assumes "challenge_guest clk (log_service clock s) (log_exchange ex) c i key nonce (w, tr) = (r, (w', tr'))"
    "EvResponse c2 (Inr resp) \<in> set tr'" "EvResponse c2 (Inr resp) \<notin> set tr"
  shows "r = (case DecodeResponse resp of Inl d \<Rightarrow> Some d | Inr got \<Rightarrow> VerifyNonce nonce got)"
  using assms
  by (auto simp: challenge_guest_def log_simps split: prod.splits option.splits sum.splits)

lemma armed_error:
  assumes "attest_armed ul clk (log_service clock s) (log_exchange ex) c i key nonce (w, tr) = (r, (w', tr'))"
    "EvResponse c2 (Inr resp) \<in> set tr'" "EvResponse c2 (Inr resp) \<notin> set tr"
    "(case DecodeResponse resp of Inl d \<Rightarrow> Some d | Inr got \<Rightarrow> VerifyNonce nonce got) = Some p"
  shows "\<exists>e. r = Some e \<and> err_is e = err_is p"
proof -
  obtain primary w1 tr1 where ch: "challenge_guest clk (log_service clock s) (log_exchange ex) c i key nonce (w, tr) = (primary, (w1, tr1))"
    by (metis surj_pair)
  have "EvResponse c2 (Inr resp) \<in> set tr1"
    using assms(1,2) ch
    by (auto simp: attest_armed_def Let_def cleanup_run_def log_unset log_send_attributes
        split: prod.splits option.splits sum.splits)
  from challenge_response_result [OF ch this assms(3)] assms(4) have "primary = Some p" by simp
  with assms(1) ch obtain u where "r = annotateCleanup (Some p) u"
    by (auto simp: attest_armed_def Let_def cleanup_run_def log_unset split: prod.splits)
  then show ?thesis
    using annotateCleanup_class(2) [of p u] annotateCleanup_class(1) [of p u] by (cases "annotateCleanup (Some p) u") simp_all
qed

section \<open>The unhinted search\<close>

text \<open>
  The specification of the search over the lookup results of the allowed projects, in order: the first
  error ends it, otherwise exactly one instance must match.
\<close>

fun all_found :: "vm_instance option result list \<Rightarrow> vm_instance list result" where
  "all_found [] = Inr []"
| "all_found (Inl e # rs) = Inl e"
| "all_found (Inr None # rs) = all_found rs"
| "all_found (Inr (Some i) # rs) = (case all_found rs of Inl e \<Rightarrow> Inl e | Inr is \<Rightarrow> Inr (i # is))"

definition unique_match :: "uuid_lib \<Rightarrow> claims \<Rightarrow> vm_instance option result list \<Rightarrow> vm_instance result" where
  "unique_match ul claims rs =
     (case all_found rs of
        Inl e \<Rightarrow> Inl (Wrapf [Txt ''lookup instance: ''] e [])
      | Inr is \<Rightarrow>
         (case filter (describes ul claims) is of
            [] \<Rightarrow> Inl (denied ''instance not found'')
          | [i] \<Rightarrow> Inr i
          | _ \<Rightarrow> Inl (denied ''multiple matching instances'')))"

lemma search_projects_pure:
  assumes "\<And>p n. ip_lookup (sv_client s) c p n w = (res p n, w)"
  shows "search_projects ul s c claims ps m k w =
    (case all_found (map (\<lambda>p. res p (cl_name claims)) ps) of
       Inl e \<Rightarrow> Inl (Wrapf [Txt ''lookup instance: ''] e [])
     | Inr is \<Rightarrow> Inr (last (m # filter (describes ul claims) is), k + length (filter (describes ul claims) is)), w)"
proof (induction ps arbitrary: m k)
  case (Cons p ps)
  show ?case
  proof (cases "res p (cl_name claims)")
    case (Inr fo)
    show ?thesis
    proof (cases fo)
      case (Some i)
      show ?thesis
      proof (cases "describes ul claims i")
        case True
        then have "MatchClaims ul claims i = None" by (simp add: MatchClaims_None)
        with True Some Inr assms [of p "cl_name claims"] Cons [of i "Suc k"] show ?thesis
          by (cases "all_found (map (\<lambda>p. res p (cl_name claims)) ps)") simp_all
      next
        case False
        then obtain e where "MatchClaims ul claims i = Some e" using MatchClaims_None by (metis option.exhaust)
        with False Some Inr assms [of p "cl_name claims"] Cons [of m k] show ?thesis
          by (cases "all_found (map (\<lambda>p. res p (cl_name claims)) ps)") simp_all
      qed
    qed (use Inr assms [of p "cl_name claims"] Cons [of m k] in simp)
  qed (use assms [of p "cl_name claims"] in simp)
qed simp

section \<open>Logging changes nothing\<close>

lemma log_fields [simp]:
  "sv_projects (log_service clock s) = sv_projects s" "sv_user_selectors (log_service clock s) = sv_user_selectors s"
  "sv_trust_domain (log_service clock s) = sv_trust_domain s" "sv_incus_timeout (log_service clock s) = sv_incus_timeout s"
  "sv_challenge_timeout (log_service clock s) = sv_challenge_timeout s" "sv_cleanup_timeout (log_service clock s) = sv_cleanup_timeout s"
  by (simp_all add: log_service_def)

lemma same_search: "same_run (search_projects ul (log_service clock s) c claims ps m k) (search_projects ul s c claims ps m k)"
proof (induction ps arbitrary: m k)
  case Nil
  then show ?case by (simp add: same_run_def)
next
  case (Cons p ps)
  then show ?case
    unfolding same_run_def by (auto simp: log_lookup split: prod.split sum.split option.split)
qed

lemma same_resolve: "same_run (resolveInstance ul (clock \<circ> fst) (log_service clock s) c claims) (resolveInstance ul clock s c claims)"
  unfolding same_run_def
proof (intro allI)
  fix w tr
  show "\<exists>tr'. resolveInstance ul (clock \<circ> fst) (log_service clock s) c claims (w, tr) =
    (fst (resolveInstance ul clock s c claims w), (snd (resolveInstance ul clock s c claims w), tr'))"
  proof (cases "cl_project claims = []")
    case True
    obtain r w' tr' where "search_projects ul (log_service clock s) (with_timeout c (clock w) (sv_incus_timeout s)) claims
        (sv_projects s) zero_instance 0 (w, tr) = (r, (w', tr'))"
      "search_projects ul s (with_timeout c (clock w) (sv_incus_timeout s)) claims (sv_projects s) zero_instance 0 w = (r, w')"
      by (rule same_runE [OF same_search])
    with True show ?thesis
      by (auto simp: resolveInstance_def resolveUnhinted_def Let_def split: sum.split prod.split)
  next
    case False
    then show ?thesis
      by (auto simp: resolveInstance_def resolveHinted_def log_lookup Let_def split: prod.split sum.split option.split)
  qed
qed

lemma same_random: "same_run (readRandomPair (log_service clock s)) (readRandomPair s)"
  by (auto simp: same_run_def readRandomPair_def log_service_def split: prod.split sum.split)

lemma same_challenge:
  "same_run (challenge_guest (clock \<circ> fst) (log_service clock s) (log_exchange ex) c i key nonce) (challenge_guest clock s ex c i key nonce)"
  by (auto simp: same_run_def challenge_guest_def log_simps split: prod.split sum.split option.split)

lemma same_armed:
  "same_run (attest_armed ul (clock \<circ> fst) (log_service clock s) (log_exchange ex) c i key nonce) (attest_armed ul clock s ex c i key nonce)"
  unfolding same_run_def
proof (intro allI)
  fix w tr
  obtain r w' tr' where "challenge_guest (clock \<circ> fst) (log_service clock s) (log_exchange ex) c i key nonce (w, tr) = (r, (w', tr'))"
    "challenge_guest clock s ex c i key nonce w = (r, w')"
    by (rule same_runE [OF same_challenge])
  then show "\<exists>tr'. attest_armed ul (clock \<circ> fst) (log_service clock s) (log_exchange ex) c i key nonce (w, tr) =
      (fst (attest_armed ul clock s ex c i key nonce w), (snd (attest_armed ul clock s ex c i key nonce w), tr'))"
    by (auto simp: attest_armed_def Let_def cleanup_run_def log_unset log_send_attributes
        split: prod.split sum.split option.split)
qed

lemma same_attest:
  "same_run (Attest_server ul (clock \<circ> fst) (log_service clock s) c (map_option log_exchange ex)) (Attest_server ul clock s c ex)"
  unfolding same_run_def
proof (intro allI)
  fix w tr
  show "\<exists>tr'. Attest_server ul (clock \<circ> fst) (log_service clock s) c (map_option log_exchange ex) (w, tr) =
      (fst (Attest_server ul clock s c ex w), (snd (Attest_server ul clock s c ex w), tr'))"
  proof (cases ex)
    case (Some x)
    obtain p w1 where p: "se_receive_payload x c w = (p, w1)" by fastforce
    let ?tr = "tr @ [EvPayload p]"
    show ?thesis
    proof (cases "\<exists>raw claims. p = Inr raw \<and> DecodePayload ul raw = Inr claims \<and> ValidateClaims ul claims = None")
      case False
      with Some p show ?thesis
        by (auto simp: Attest_server_def log_exchange_def split: sum.split option.split)
    next
      case True
      then obtain raw claims where cl: "p = Inr raw" "DecodePayload ul raw = Inr claims" "ValidateClaims ul claims = None" by blast
      obtain r2 w2 tr2 where r2: "resolveInstance ul (clock \<circ> fst) (log_service clock s) c claims (w1, ?tr) = (r2, (w2, tr2))"
        "resolveInstance ul clock s c claims w1 = (r2, w2)" by (rule same_runE [OF same_resolve])
      obtain r3 w3 tr3 where r3: "readRandomPair (log_service clock s) (w2, tr2) = (r3, (w3, tr3))"
        "readRandomPair s w2 = (r3, w3)" by (rule same_runE [OF same_random])
      have p': "se_receive_payload (log_exchange x) c (w, tr) = (p, (w1, ?tr))"
        using p by (simp add: log_exchange_def)
      have armed: "\<exists>tr'. attest_armed ul (clock \<circ> fst) (log_service clock s) (log_exchange x) c i k n (w3, tr3) =
        (fst (attest_armed ul clock s x c i k n w3), (snd (attest_armed ul clock s x c i k n w3), tr'))" for i k n
        using same_armed [of ul clock s x c i k n] unfolding same_run_def by simp
      show ?thesis
        using Some p p' cl r2 r3 armed
        by (auto simp: Attest_server_def split: sum.split)
    qed
  qed (simp add: Attest_server_def)
qed

section \<open>The contract of the Incus port\<close>

text \<open>
  What the service expects of \<open>Lookup\<close>: an instance that is found lies in the project and has the name
  asked for, and its UUID is canonical. The Incus adapter provides it.
\<close>

locale incus_lookup =
  fixes port :: "'w incus_port" and ul :: uuid_lib
  assumes found_project: "ip_lookup port c p n w = (Inr (Some i), w') \<Longrightarrow> in_project i = p"
    and found_name: "ip_lookup port c p n w = (Inr (Some i), w') \<Longrightarrow> in_name i = n"
    and found_uuid: "ip_lookup port c p n w = (Inr (Some i), w') \<Longrightarrow> \<exists>raw. NewInstanceUUID ul raw = Inr (in_uuid i)"
begin

lemma resolved_allowed:
  assumes "resolved ul s raw ls i" "sv_client s = port"
  shows "in_project i \<in> set (sv_projects s)"
  using assms found_project unfolding resolved_def by blast

lemma verified_allowed:
  assumes "verified_run ul s tr attrs e" "sv_client s = port"
  obtains i raw claims where "in_project i \<in> set (sv_projects s)" "DecodePayload ul raw = Inr claims"
    "describes ul claims i" "BuildAttributes ul (sv_trust_domain s) i (sv_user_selectors s) = Inr attrs"
proof -
  from assms(1) obtain raw ls i where r: "resolved ul s raw ls i"
    "BuildAttributes ul (sv_trust_domain s) i (sv_user_selectors s) = Inr attrs"
    unfolding verified_run_def by blast
  from r(1) obtain claims where "DecodePayload ul raw = Inr claims" "describes ul claims i"
    unfolding resolved_def by blast
  with resolved_allowed [OF r(1) assms(2)] r(2) show ?thesis by (intro that)
qed

end

section \<open>Samples for the witnesses\<close>

text \<open>
  An honest run: the world counts the random reads, Incus knows one VM, the guest answers with the
  nonce of the second read.
\<close>

definition sample_attempt :: string where
  "sample_attempt = ''attempt-00000001''"

definition response_text :: "string \<Rightarrow> string" where
  "response_text n = compact (response_json 1 configNonceType 1 (b64_encode n))"

definition sample_response :: string where
  "sample_response = response_text sample_nonce"

definition sample_incus :: "nat incus_port" where
  "sample_incus =
     \<lparr>ip_lookup = (\<lambda>c p n w. (Inr (if p = in_project sample_instance \<and> n = in_name sample_instance
         then Some sample_instance else None), w)),
      ip_set_nonce = (\<lambda>c i k v w. (None, w)),
      ip_unset_nonce = (\<lambda>c i k w. (None, w))\<rparr>"

definition sample_exchange :: "string \<Rightarrow> nat server_exchange" where
  "sample_exchange response =
     \<lparr>se_receive_payload = (\<lambda>c w. (Inr sample_payload, w)),
      se_send_challenge = (\<lambda>c m w. (None, w)),
      se_receive_response = (\<lambda>c w. (Inr response, w)),
      se_send_attributes = (\<lambda>c a w. (None, w))\<rparr>"

definition sample_random :: "nat random_source" where
  "sample_random n w = (Inr (if w = 0 then sample_attempt else sample_nonce), Suc w)"

definition sample_service :: "nat server_service" where
  "sample_service =
     \<lparr>sv_client = sample_incus, sv_projects = [''other'', ''default''], sv_user_selectors = [''user.role''],
      sv_trust_domain = ''example.org'', sv_incus_timeout = 5, sv_challenge_timeout = 5, sv_cleanup_timeout = 5,
      sv_random = sample_random\<rparr>"

definition sample_server_trace :: "string \<Rightarrow> goerr option \<times> server_event list" where
  "sample_server_trace response =
     attest_trace ref_uuid int sample_service background (sample_exchange response) 0"

lemma sample_nonce_length: "length sample_nonce = 16" "NewNonce sample_nonce = Inr sample_nonce"
  "VerifyNonce sample_nonce sample_nonce = None"
  by (simp_all add: sample_nonce_def NewNonce_def nonceSize_def VerifyNonce_None)

lemma response_text_decodes:
  assumes "length n = 16"
  shows "DecodeResponse (response_text n) = Inr n"
proof -
  obtain raw where raw: "EncodeResponse n = Inr raw" using EncodeResponse_ok [OF assms] .
  then have "raw = response_text n"
    by (auto simp: EncodeResponse_def encodeMessage_Inr response_text_def envelopeVersion_def configNonceVersion_def)
  with response.roundtrip [OF _ raw] assms show ?thesis by (simp add: nonceSize_def)
qed

lemma sample_response_decodes: "DecodeResponse sample_response = Inr sample_nonce"
  by (simp add: sample_response_def response_text_decodes sample_nonce_length)

lemma sample_claims_carried: "carried ref_uuid sample_claims = sample_claims"
proof -
  have "to_valid ''vm-01'' = ''vm-01''" "to_valid ''default'' = ''default''"
    "to_valid ''virtual-machine'' = ''virtual-machine''" "to_valid ''member-01'' = ''member-01''"
    "to_valid ''i-01'' = ''i-01''"
    by (rule to_valid_id, rule utf8_valid_ascii, simp)+
  then show ?thesis using sample_uuid_canonical by (simp add: carried_def sample_claims_def)
qed

lemma sample_payload_decodes: "DecodePayload ref_uuid sample_payload = Inr sample_claims"
  using payload.roundtrip [OF ref_uuid_laws sample_payload_encoded] sample_claims_carried by simp

lemma sample_claims_valid: "ValidateClaims ref_uuid sample_claims = None"
  using sample_uuid_canonical
  by (simp add: ValidateClaims_None validateClaims_Inr sample_claims_def InstanceTypeVirtualMachine_def)

lemma sample_fields:
  "cl_project sample_claims = ''default''" "cl_name sample_claims = ''vm-01''"
  "in_project sample_instance = ''default''" "in_name sample_instance = ''vm-01''"
  by (simp_all add: sample_claims_def sample_instance_def)

lemma sample_resolved:
  "resolveInstance ref_uuid (int \<circ> fst) (log_service int sample_service) background sample_claims (w, tr) =
     (Inr sample_instance, (w, tr @ [EvLookup (with_timeout background (int w) 5) ''default'' ''vm-01'' (Inr (Some sample_instance))]))"
  using MatchClaims_None [of ref_uuid sample_claims sample_instance] sample_describes
  by (simp add: resolveInstance_def resolveHinted_def log_lookup sample_fields Let_def)
    (simp add: sample_service_def sample_incus_def sample_fields)

definition sample_challenge_text :: string where
  "sample_challenge_text = compact (challenge_json 1 configNonceType 1 (NewConfigKeyFromAttemptID sample_attempt))"

lemma sample_challenge_encoded: "EncodeChallenge (NewConfigKeyFromAttemptID sample_attempt) = Inr sample_challenge_text"
proof -
  have key: "NewConfigKey (NewConfigKeyFromAttemptID sample_attempt) = Inr (NewConfigKeyFromAttemptID sample_attempt)"
    by (rule NewConfigKey_attempt) (simp add: sample_attempt_def)
  obtain raw where raw: "EncodeChallenge (NewConfigKeyFromAttemptID sample_attempt) = Inr raw"
    using EncodeChallenge_ok [OF key] .
  with key have "raw = sample_challenge_text"
    by (auto simp: EncodeChallenge_def encodeMessage_Inr sample_challenge_text_def envelopeVersion_def configNonceVersion_def)
  with raw show ?thesis by simp
qed

definition sample_attributes :: attributes where
  "sample_attributes = \<lparr>at_agent_id = ''spiffe://example.org/spire/agent/incus/'' @ sample_uuid, at_can_reattest = True,
     at_selectors = [''location:member-01'', ''name:vm-01'', ''profile:default'',
       ''project:default'', ''user.role:db'', ''uuid:'' @ sample_uuid]\<rparr>"

text \<open>A guest that answers with the nonce of another instance.\<close>

definition other_nonce :: string where
  "other_nonce = ''nonce-A123456789''"

lemma sample_wrong_run:
  "EvSet (with_timeout background 2 5) sample_instance (NewConfigKeyFromAttemptID sample_attempt) (b64_encode sample_nonce) None
     \<in> set (snd (sample_server_trace (response_text other_nonce)))"
  "EvResponse (with_timeout background 2 5) (Inr (response_text other_nonce)) \<in> set (snd (sample_server_trace (response_text other_nonce)))"
proof -
  have d: "DecodeResponse (response_text other_nonce) = Inr other_nonce"
    by (simp add: response_text_decodes other_nonce_def)
  obtain e where e: "VerifyNonce sample_nonce other_nonce = Some e"
    using VerifyNonce_None [of sample_nonce other_nonce]
    by (cases "VerifyNonce sample_nonce other_nonce") (auto simp: other_nonce_def sample_nonce_def)
  show "EvSet (with_timeout background 2 5) sample_instance (NewConfigKeyFromAttemptID sample_attempt) (b64_encode sample_nonce) None
     \<in> set (snd (sample_server_trace (response_text other_nonce)))"
    "EvResponse (with_timeout background 2 5) (Inr (response_text other_nonce)) \<in> set (snd (sample_server_trace (response_text other_nonce)))"
    by (simp_all add: sample_server_trace_def attest_trace_def Attest_server_def sample_exchange_def log_exchange_def
        sample_payload_decodes sample_claims_valid sample_resolved readRandomPair_def)
      (simp_all add: log_service_def sample_service_def sample_random_def randomPairBytes_def sample_nonce_length
        attest_armed_def challenge_guest_def log_incus_def sample_incus_def sample_challenge_encoded
        d e cleanup_run_def Let_def annotateCleanup_def)
qed

lemma sample_honest_run:
  "fst (sample_server_trace sample_response) = None"
  "EvAttributes sample_attributes None \<in> set (snd (sample_server_trace sample_response))"
  using sample_attributes
  by (simp_all add: sample_server_trace_def attest_trace_def Attest_server_def sample_exchange_def log_exchange_def
      sample_payload_decodes sample_claims_valid sample_resolved readRandomPair_def)
    (simp_all add: log_service_def sample_service_def sample_random_def randomPairBytes_def sample_nonce_length
      attest_armed_def challenge_guest_def log_incus_def sample_incus_def sample_challenge_encoded
      sample_response_decodes cleanup_run_def Let_def sample_attributes_def)

section \<open>Properties\<close>

lemma attest_trace_result: "fst (attest_trace ul clock s c ex w) = fst (Attest_server ul clock s c (Some ex) w)"
  using same_attest [of ul clock s c "Some ex"] unfolding same_run_def
  by (auto simp: attest_trace_def split: prod.splits) (metis fst_conv)

lemma unique_match_spec:
  assumes "\<And>p n. ip_lookup (sv_client s) c p n w = (res p n, w)"
  shows "resolveUnhinted ul s c claims w = (unique_match ul claims (map (\<lambda>p. res p (cl_name claims)) (sv_projects s)), w)"
proof (cases "all_found (map (\<lambda>p. res p (cl_name claims)) (sv_projects s))")
  case (Inr xs)
  have len: "length (filter (describes ul claims) xs) = 1 \<Longrightarrow> \<exists>i. filter (describes ul claims) xs = [i]"
    by (simp add: length_Suc_conv)
  with Inr search_projects_pure [OF assms, of ul claims "sv_projects s"] show ?thesis
    by (auto simp: resolveUnhinted_def unique_match_def split: list.split)
qed (simp add: resolveUnhinted_def unique_match_def search_projects_pure [OF assms])

text \<open>
  C1: the service sends attributes only at the end of a complete attestation: the payload decoded, an
  instance that matches the claims found in an allowed project, the nonce stored under the key of this
  attempt, the challenge sent, the response equal to the nonce, the key removed, and the attributes
  built from that instance. \<open>Attest\<close> returns nil exactly when it has sent them; recording the calls
  does not change its result.
\<close>

theorem attributes_only_when_verified:
  "case attest_trace ul clock s c ex w of (r, tr) \<Rightarrow>
     r = fst (Attest_server ul clock s c (Some ex) w) \<and>
     (r = None \<longleftrightarrow> (\<exists>attrs. EvAttributes attrs None \<in> set tr)) \<and>
     {(attrs, e). EvAttributes attrs e \<in> set tr} \<subseteq> {(attrs, e). verified_run ul s tr attrs e}"
proof -
  obtain r tr where run: "attest_trace ul clock s c ex w = (r, tr)" by fastforce
  with attest_trace_result [of ul clock s c ex w] attest_outcome(3,4) [OF run] show ?thesis by auto
qed

text \<open>
  C2: whatever the ports answer and however the attempt ends, the nonce key is either never touched or
  set exactly once and then removed exactly once, for the same instance and key, in a context that is not
  cancelled with the caller and whose deadline is the cleanup timeout after the removal begins.
\<close>

theorem nonce_key_always_removed: "key_removed s (snd (attest_trace ul clock s c ex w))"
  using attest_outcome(1) by (metis prod.collapse)

text \<open>C28: no lookup leaves the configured project allowlist, whatever project the claims name.\<close>

theorem lookups_stay_in_allowlist:
  "set (lookup_projects (snd (attest_trace ul clock s c ex w))) \<subseteq> set (sv_projects s)"
  using attest_outcome(2) by (metis prod.collapse)

lemma response_decides:
  assumes "attest_trace ul clock s c ex w = (r, tr)"
    and "EvSet c1 i k stored e \<in> set tr" and "EvResponse c2 (Inr resp) \<in> set tr"
  shows "case DecodeResponse resp of
           Inl d \<Rightarrow> \<exists>e. r = Some e \<and> err_is e = err_is d
         | Inr got \<Rightarrow> b64_encode got = stored \<or> (\<exists>e. r = Some e \<and> (\<forall>s. err_is e s \<longleftrightarrow> s = AttestDenied))"
  using assms(1)
proof (cases rule: attest_shape)
  case early
  with assms(2) show ?thesis by (auto simp: list_all_iff other_event_def)
next
  case (armed raw ls a n i' w3 w4)
  let ?pre = "EvPayload (Inr raw) # ls @ [EvRandom (Inr a), EvRandom (Inr n)]"
  have ls: "list_all lookup_event ls" using armed(1) by (simp add: resolved_def)
  then have fresh: "EvResponse c2 (Inr resp) \<notin> set ?pre" "EvSet c1 i k stored e \<notin> set ?pre"
    by (auto simp: list_all_iff)
  obtain c3 e1 rest now c4 u post where tr: "tr = ?pre @ EvSet c3 i' (NewConfigKeyFromAttemptID a) (b64_encode n) e1 # rest @
      EvUnset now c4 i' (NewConfigKeyFromAttemptID a) u # post" "list_all other_event rest"
    and post: "post = [] \<or> (\<exists>attrs e. post = [EvAttributes attrs e])"
  proof (rule armed_events [OF armed(3)])
    fix c3 e1 rest now c4 u post
    assume "tr = ?pre @ EvSet c3 i' (NewConfigKeyFromAttemptID a) (b64_encode n) e1 # rest @
      EvUnset now c4 i' (NewConfigKeyFromAttemptID a) u # post" "list_all other_event rest"
      "post = [] \<and> r \<noteq> None \<or> (\<exists>ch c3 resp attrs e. e1 = None \<and> rest = [EvChallenge ch None, EvResponse c3 (Inr resp)] \<and>
        u = None \<and> post = [EvAttributes attrs e] \<and> (r = None \<longleftrightarrow> e = None) \<and>
        EncodeChallenge (NewConfigKeyFromAttemptID a) = Inr ch \<and> DecodeResponse resp = Inr n \<and>
        BuildAttributes ul (sv_trust_domain s) i' (sv_user_selectors s) = Inr attrs)"
    then show thesis by (intro that) blast+
  qed
  then have "EvSet c1 i k stored e \<notin> set rest \<union> set post" using post by (auto simp: list_all_iff other_event_def)
  with fresh(2) tr(1) assms(2) have stored: "stored = b64_encode n" by auto
  note err = armed_error [OF armed(3) assms(3) fresh(1)]
  show ?thesis
  proof (cases "DecodeResponse resp")
    case (Inl d)
    with err show ?thesis by simp
  next
    case (Inr got)
    show ?thesis
    proof (cases "VerifyNonce n got")
      case None
      with Inr stored show ?thesis by (simp add: VerifyNonce_None)
    next
      case (Some p)
      with err Inr obtain e where "r = Some e" "err_is e = err_is p" by auto
      with Inr VerifyNonce_class [OF Some] show ?thesis by auto
    qed
  qed
qed

text \<open>
  C5: once a response was received, it decides: if it does not decode, \<open>Attest\<close> fails with the class of
  the wire error, and if it decodes to a nonce other than the stored one, it fails with the class
  \<open>ErrDenied\<close> only, whether or not the removal of the key fails as well.
\<close>

theorem bad_response_rejected:
  assumes "attest_trace ul clock s c ex w = (r, tr)"
    and "EvSet c1 i k stored e \<in> set tr" and "EvResponse c2 (Inr resp) \<in> set tr"
  shows "case DecodeResponse resp of
           Inl d \<Rightarrow> \<exists>e. r = Some e \<and> err_is e = err_is d
         | Inr got \<Rightarrow> b64_encode got = stored \<or> (\<exists>e. r = Some e \<and> (\<forall>s. err_is e s \<longleftrightarrow> s = AttestDenied))"
  using assms by (rule response_decides)

lemma bad_response_rejected_witness:
  "\<exists>e. fst (sample_server_trace (response_text other_nonce)) = Some e \<and> (\<forall>s. err_is e s \<longleftrightarrow> s = AttestDenied)"
proof -
  have d: "DecodeResponse (response_text other_nonce) = Inr other_nonce"
    by (simp add: response_text_decodes other_nonce_def)
  have ne: "b64_encode other_nonce \<noteq> b64_encode sample_nonce"
    by (simp add: other_nonce_def sample_nonce_def) code_simp
  show ?thesis
    using bad_response_rejected [OF _ sample_wrong_run, of ref_uuid int sample_service background
        "sample_exchange (response_text other_nonce)" 0 "fst (sample_server_trace (response_text other_nonce))"] d ne
    by (simp add: sample_server_trace_def)
qed

text \<open>
  C7: an unhinted search refines its specification: over lookups that do not change the world it returns
  the first lookup error, or the only matching instance of the allowed projects, or it is denied when
  none or several match.
\<close>

theorem unhinted_search_unique:
  assumes "\<And>p n. ip_lookup (sv_client s) c p n w = (res p n, w)"
  shows "resolveUnhinted ul s c claims w = (unique_match ul claims (map (\<lambda>p. res p (cl_name claims)) (sv_projects s)), w)"
  using assms by (rule unique_match_spec)

lemma unhinted_search_unique_witness:
  "resolveUnhinted ref_uuid sample_service background sample_claims 0 = (Inr sample_instance, 0)"
proof -
  have "resolveUnhinted ref_uuid sample_service background sample_claims 0 =
    (unique_match ref_uuid sample_claims (map (\<lambda>p. Inr (if p = ''default'' \<and> cl_name sample_claims = ''vm-01''
       then Some sample_instance else None)) (sv_projects sample_service)), 0)"
    by (rule unhinted_search_unique) (simp add: sample_service_def sample_incus_def sample_fields)
  then show ?thesis by (simp add: sample_service_def sample_fields unique_match_def sample_describes)
qed

text \<open>
  A service is constructed exactly from a client, a random source and a configuration that meets
  every constraint; it keeps the configured lists, trust domain and deadlines.
\<close>

lemma new_server_exact:
  "New_server client cfg td random = Inr s \<longleftrightarrow>
     server_config_ok cfg td \<and> client = Some (sv_client s) \<and> random = Some (sv_random s) \<and>
     sv_projects s = sc_projects cfg \<and> sv_user_selectors s = sc_user_selectors cfg \<and> sv_trust_domain s = td \<and>
     sv_incus_timeout s = sc_incus_timeout cfg \<and> sv_challenge_timeout s = sc_challenge_response_timeout cfg \<and>
     sv_cleanup_timeout s = sc_cleanup_timeout cfg"
  by (cases s) (auto simp: New_server_def ValidateServer_None [symmetric] split: option.split)

text \<open>
  C29: one deadline bounds the whole resolution: every lookup of an attempt, however many projects an
  unhinted search asks, runs under the same context, which ends \<open>incus_timeout\<close> after the resolution
  began or earlier.
\<close>

theorem lookups_share_deadline:
  assumes "resolveInstance ul clk (log_service clock s) c claims (w, []) = (r, (w', tr))"
    and "EvLookup c1 p n x \<in> set tr"
  shows "c1 = with_timeout c (clk (w, [])) (sv_incus_timeout s) \<and>
    (\<exists>D. done_at c1 = Some D \<and> D \<le> clk (w, []) + sv_incus_timeout s)"
  using lookup_context [OF assms] by (auto simp: with_timeout_def done_at_def min_time_def split: option.splits)

lemma lookups_share_deadline_witness:
  "\<exists>c1 D. EvLookup c1 ''default'' ''vm-01'' (Inr (Some sample_instance)) \<in>
      set (snd (snd (resolveInstance ref_uuid (int \<circ> fst) (log_service int sample_service) background sample_claims (7, [])))) \<and>
    done_at c1 = Some D \<and> D \<le> 12"
proof -
  have run: "resolveInstance ref_uuid (int \<circ> fst) (log_service int sample_service) background sample_claims (7, []) =
      (Inr sample_instance, (7, [EvLookup (with_timeout background 7 5) ''default'' ''vm-01'' (Inr (Some sample_instance))]))"
    using sample_resolved [of 7 "[]"] by simp
  have timeout: "sv_incus_timeout sample_service = 5" by (simp add: sample_service_def)
  from lookups_share_deadline [OF run, of "with_timeout background 7 5"] obtain D where
    "done_at (with_timeout background 7 5) = Some D" "D \<le> 12"
    by (auto simp: timeout)
  then show ?thesis unfolding run by (intro exI [of _ "with_timeout background 7 5"] exI [of _ D]) simp
qed

end
