(* ===== verification/Retry.thy ===== *)
theory Retry
  imports Traces
begin

text \<open>
  The shape the two retry loops of the program share: a step that ends the loop or not, a wait, the next
  delay. The loops are \<open>partial_function\<close>s of their own components; the locale takes one by its recursion
  equation and proves once that it returns under a context that ends, within a bounded number of steps.
\<close>

locale retry_loop = backoff next_delay first cap for next_delay :: "int \<Rightarrow> int" and first cap :: int +
  fixes step :: "'w \<Rightarrow> 'r option \<times> 'w"
    and wait :: "ctx \<Rightarrow> int \<Rightarrow> 'w \<Rightarrow> goerr option \<times> 'w"
    and c :: ctx
    and give_up :: "goerr \<Rightarrow> 'w \<Rightarrow> 'r"
    and loop :: "int \<Rightarrow> 'w \<Rightarrow> ('r \<times> 'w) option"
  assumes loop_step: "loop d w =
    (case step w of
       (Some r, w1) \<Rightarrow> Some (r, w1)
     | (None, w1) \<Rightarrow>
        (case wait c d w1 of
           (Some e, w2) \<Rightarrow> Some (give_up e w2, w2)
         | (None, w2) \<Rightarrow> loop (next_delay d) w2))"
begin

text \<open>
  \<open>cost\<close> counts the steps in the world. A step costs at most one and a wait nothing, so the deadline
  bounds the cost.
\<close>

lemma returns_within_deadline:
  assumes wait: "waiter wait clock"
    and time: "\<And>w. clock w \<le> clock (snd (step w))"
    and deadline: "done_at c = Some D"
    and cost: "\<And>w. cost (snd (step w)) \<le> cost w + 1" "\<And>d w. cost (snd (wait c d w)) = cost w"
    and "first \<le> d" "d \<le> cap"
  shows "\<exists>r w'. loop d w = Some (r, w') \<and>
    (cost w' - cost w) * first \<le> (if D \<le> clock w then first else D - clock w + 2 * first)"
  using assms(6,7)
proof (induction "nat (D - clock w)" arbitrary: d w rule: less_induct)
  case less
  obtain r1 w1 where step: "step w = (r1, w1)" by fastforce
  obtain we w2 where w2: "wait c d w1 = (we, w2)" by fastforce
  have clk: "clock w \<le> clock w1" using time [of w] step by simp
  have costs: "cost w1 - cost w \<le> 1" "cost w2 = cost w1" using cost(1) [of w] cost(2) [of d w1] step w2 by simp_all
  then have one: "(cost w1 - cost w) * first \<le> first"
    using mult_right_mono [of "cost w1 - cost w" 1 first] first_pos by linarith
  then have few: "(cost w1 - cost w) * first \<le> (if D \<le> clock w then first else D - clock w + 2 * first)"
    using first_pos by (cases "D \<le> clock w"; simp only: if_True if_False; linarith)
  show ?case
  proof (cases r1)
    case (Some r)
    with step few show ?thesis by (simp add: loop_step [of d w])
  next
    case again: None
    show ?thesis
    proof (cases we)
      case (Some e)
      with step w2 again few costs(2) show ?thesis by (simp add: loop_step [of d w])
    next
      case None
      have after: "clock w1 + d \<le> clock w2" "ctx_err c (clock w1) = None"
        using waiter.wait_elapsed [OF wait w2 [unfolded None]] first_pos less.prems by auto
      then have before: "clock w1 < D" using deadline by (simp add: ctx_err_def reached_def split: if_splits)
      have "nat (D - clock w2) < nat (D - clock w)" using after before clk first_pos less.prems by simp
      from less.hyps [OF this, of "next_delay d"] next_bounds [OF less.prems] less.prems obtain r w' where
        rest: "loop (next_delay d) w2 = Some (r, w')"
          "(cost w' - cost w2) * first \<le> (if D \<le> clock w2 then first else D - clock w2 + 2 * first)"
        by auto
      have "(cost w' - cost w) * first = (cost w1 - cost w) * first + (cost w' - cost w2) * first"
        using costs(2) by (simp add: algebra_simps)
      then have "(cost w' - cost w) * first \<le> D - clock w + 2 * first"
        using one rest(2) after(1) before clk less.prems first_pos
        by (cases "D \<le> clock w2"; simp only: if_True if_False; linarith)
      with rest(1) step w2 again None before clk show ?thesis by (simp add: loop_step [of d w])
    qed
  qed
qed

text \<open>
  When a step and a wait end at most \<open>latency\<close> after the context of the loop, the loop does too: it makes
  at most one step and one wait after the deadline.
\<close>

lemma returns_in_time:
  assumes wait: "waiter wait clock"
    and time: "\<And>w. clock w \<le> clock (snd (step w))"
    and deadline: "done_at c = Some D"
    and late: "\<And>w. clock (snd (step w)) \<le> max (clock w) D + latency"
      "\<And>d w. clock (snd (wait c d w)) \<le> max (clock w) D + latency"
    and "0 \<le> latency" "first \<le> d" "d \<le> cap" "loop d w = Some (r, w')"
  shows "clock w' \<le> (if clock w \<le> D then D + 3 * latency else clock w + 2 * latency)"
  using assms(7-9)
proof (induction "nat (D - clock w)" arbitrary: d w rule: less_induct)
  case less
  obtain r1 w1 where step: "step w = (r1, w1)" by fastforce
  obtain we w2 where w2: "wait c d w1 = (we, w2)" by fastforce
  have clk: "clock w \<le> clock w1" "clock w1 \<le> max (clock w) D + latency" using time [of w] late(1) [of w] step by simp_all
  have end2: "clock w2 \<le> max (clock w1) D + latency" using late(2) [of d w1] w2 by simp
  show ?case
  proof (cases r1)
    case (Some x)
    with less.prems(3) step have "w' = w1" by (simp add: loop_step [of d w])
    with clk \<open>0 \<le> latency\<close> show ?thesis by (auto split: if_splits)
  next
    case again: None
    show ?thesis
    proof (cases we)
      case (Some e)
      with less.prems(3) step again w2 have "w' = w2" by (simp add: loop_step [of d w])
      with clk end2 \<open>0 \<le> latency\<close> show ?thesis by (auto split: if_splits)
    next
      case None
      have after: "clock w1 + d \<le> clock w2" "ctx_err c (clock w1) = None"
        using waiter.wait_elapsed [OF wait w2 [unfolded None]] first_pos less.prems(1) by auto
      then have before: "clock w1 < D" using deadline by (simp add: ctx_err_def reached_def split: if_splits)
      have "nat (D - clock w2) < nat (D - clock w)" using after before clk first_pos less.prems(1) by simp
      moreover have "loop (next_delay d) w2 = Some (r, w')"
        using less.prems(3) step again w2 None by (simp add: loop_step [of d w])
      moreover have "first \<le> next_delay d" "next_delay d \<le> cap" using next_bounds [OF less.prems(1,2)] by simp_all
      ultimately have "clock w' \<le> (if clock w2 \<le> D then D + 3 * latency else clock w2 + 2 * latency)"
        by (intro less.hyps [of w2 "next_delay d"])
      with before clk(1) end2 show ?thesis by (auto split: if_splits)
    qed
  qed
qed

end

end
