(* ===== verification/Host.thy ===== *)
theory Host
  imports Server Retry
begin

text \<open>
  \<open>internal/incus/host\<close>: the host-side Incus adapter. The Incus client library is the record
  \<open>incus_api\<close> of the calls the adapter makes, over an arbitrary world; \<open>status_of\<close> stands for
  \<open>api.StatusErrorMatch\<close>. The retry loop is a \<open>partial_function\<close>: \<open>None\<close> is a loop that does not end.
\<close>

section \<open>The Incus API (\<open>github.com/lxc/incus\<close>)\<close>

text \<open>
  \<open>api.Instance\<close> embeds \<open>api.InstancePut\<close>, which \<open>Writable\<close> returns. A nil config map is \<open>None\<close>; the
  fields the adapter passes on unread are \<open>put_rest\<close>.
\<close>

type_synonym config_map = "string \<rightharpoonup> string"

record instance_put =
  put_config :: "config_map option"
  put_profiles :: "string list"
  put_rest :: string

record api_instance =
  ai_name :: string
  ai_project :: string
  ai_type :: string
  ai_location :: string
  ai_expanded :: "config_map option"
  ai_put :: instance_put

record server_info =
  si_clustered :: bool
  si_name :: string

text \<open>An operation is used through \<open>WaitContext\<close> only. \<open>api_contextual\<close>: the client has \<open>WithContext\<close>.\<close>

type_synonym 'w operation = "ctx \<Rightarrow> 'w \<Rightarrow> goerr option \<times> 'w"

record 'w incus_api =
  api_contextual :: bool
  api_get_server :: "'w \<Rightarrow> server_info option result \<times> 'w"
  api_get_instance :: "ctx \<Rightarrow> string \<Rightarrow> string \<Rightarrow> 'w \<Rightarrow> (api_instance option \<times> string) result \<times> 'w"
  api_update_instance :: "ctx \<Rightarrow> string \<Rightarrow> string \<Rightarrow> instance_put \<Rightarrow> string \<Rightarrow> 'w \<Rightarrow> 'w operation option result \<times> 'w"
  api_http_client :: "'w \<Rightarrow> ('w \<Rightarrow> 'w) option result"

type_synonym status_match = "goerr \<Rightarrow> int option"

text \<open>\<open>api.StatusErrorCheck\<close>.\<close>

definition status_check :: "status_match \<Rightarrow> goerr \<Rightarrow> int list \<Rightarrow> bool" where
  "status_check status_of e codes \<longleftrightarrow> (case status_of e of None \<Rightarrow> False | Some n \<Rightarrow> n \<in> set codes)"

section \<open>Retries (\<open>retry.go\<close>)\<close>

definition initialRetryDelay :: int where
  "initialRetryDelay = 25 * Millisecond"

definition maxRetryDelay :: int where
  "maxRetryDelay = 250 * Millisecond"

definition nextRetryDelay :: "int \<Rightarrow> int" where
  "nextRetryDelay d = (let n = d * 2 in if n > maxRetryDelay then maxRetryDelay else n)"

interpretation host_retry: backoff nextRetryDelay initialRetryDelay maxRetryDelay
  by unfold_locales (auto simp: nextRetryDelay_def initialRetryDelay_def maxRetryDelay_def Millisecond_def)

definition isConflict :: "status_match \<Rightarrow> goerr \<Rightarrow> bool" where
  "isConflict status_of e \<longleftrightarrow> status_check status_of e [412]"

definition isRetryable :: "status_match \<Rightarrow> goerr \<Rightarrow> bool" where
  "isRetryable status_of e \<longleftrightarrow>
     \<not> context_error e \<and>
     (isConflict status_of e \<or> status_check status_of e [408, 429, 500, 502, 503, 504] \<or>
      err_as node_timeout e = Some True \<or> err_as node_temporary e = Some True \<or>
      err_as node_op_error e \<noteq> None)"

section \<open>Mapping (\<open>map.go\<close>)\<close>

definition volatileUUIDKey :: string where
  "volatileUUIDKey = ''volatile.uuid''"

definition volatileCloudInitIDKey :: string where
  "volatileCloudInitIDKey = ''volatile.cloud-init.instance-id''"

definition standaloneLocationSentinel :: string where
  "standaloneLocationSentinel = ''none''"

definition configValue :: "config_map option \<Rightarrow> string \<Rightarrow> string" where
  "configValue cfg k =
     (case cfg of None \<Rightarrow> [] | Some m \<Rightarrow> (case m k of None \<Rightarrow> [] | Some v \<Rightarrow> v))"

definition copyStrings :: "string list \<Rightarrow> string list" where
  "copyStrings values = values"

definition copyConfig :: "config_map option \<Rightarrow> config_map" where
  "copyConfig cfg = (case cfg of None \<Rightarrow> Map.empty | Some m \<Rightarrow> m)"

definition mapInstance ::
    "uuid_lib \<Rightarrow> string \<Rightarrow> string \<Rightarrow> api_instance option \<Rightarrow> string \<Rightarrow> vm_instance result" where
  "mapInstance ul project name inst standalone =
     (case inst of
        None \<Rightarrow> Inl (denied ''instance is required'')
      | Some a \<Rightarrow>
          if ai_name a = [] then Inl (denied ''instance name is required'')
          else if ai_name a \<noteq> name then Inl (denied ''instance name mismatch'')
          else if ai_project a \<noteq> [] \<and> ai_project a \<noteq> project then Inl (denied ''project mismatch'')
          else (case NewInstanceUUID ul (configValue (ai_expanded a) volatileUUIDKey) of
            Inl _ \<Rightarrow> Inl (denied ''invalid instance uuid'')
          | Inr uuid \<Rightarrow>
             (let location = (if ai_location a = standaloneLocationSentinel then standalone else ai_location a)
              in if location = [] then Inl (denied ''instance location is required'')
                 else Inr \<lparr>in_project = project, in_name = name, in_uuid = uuid, in_type = ai_type a,
                        in_location = location,
                        in_cloud_init_id = configValue (ai_expanded a) volatileCloudInitIDKey,
                        in_profiles = copyStrings (put_profiles (ai_put a)),
                        in_expanded_config = copyConfig (ai_expanded a)\<rparr>)))"

section \<open>The client (\<open>client.go\<close>)\<close>

record 'w host_client =
  hc_server :: "'w incus_api"
  hc_wait :: "ctx \<Rightarrow> int \<Rightarrow> 'w \<Rightarrow> goerr option \<times> 'w"
  hc_standalone :: string

definition loadStandaloneLocation :: "'w host_client \<Rightarrow> 'w \<Rightarrow> 'w host_client result \<times> 'w" where
  "loadStandaloneLocation cl w =
     (case api_get_server (hc_server cl) w of
        (Inl e, w1) \<Rightarrow> (Inl (Wrapf [Txt ''read incus server: ''] e []), w1)
      | (Inr None, w1) \<Rightarrow> (Inl (Plain [Txt ''incus server metadata is unavailable'']), w1)
      | (Inr (Some info), w1) \<Rightarrow>
          (if si_clustered info then Inr cl
           else if si_name info = [] then Inl (Plain [Txt ''incus server name is required''])
           else Inr (cl\<lparr>hc_standalone := si_name info\<rparr>), w1))"

definition newClient ::
    "(ctx \<Rightarrow> int \<Rightarrow> 'w \<Rightarrow> goerr option \<times> 'w) \<Rightarrow> 'w incus_api \<Rightarrow> 'w \<Rightarrow> 'w host_client result \<times> 'w" where
  "newClient wait server w =
     loadStandaloneLocation \<lparr>hc_server = server, hc_wait = wait, hc_standalone = []\<rparr> w"

definition CloseIdleConnections :: "'w host_client \<Rightarrow> 'w \<Rightarrow> 'w" where
  "CloseIdleConnections cl w =
     (case api_http_client (hc_server cl) w of
        Inl _ \<Rightarrow> w
      | Inr None \<Rightarrow> w
      | Inr (Some close) \<Rightarrow> close w)"

text \<open>\<open>New\<close>; \<open>connect\<close> is \<open>incus.ConnectIncusWithContext\<close> with the CA, certificate and key.\<close>

definition New_host ::
    "(ctx \<Rightarrow> string \<Rightarrow> string \<times> string \<times> string \<Rightarrow> 'w \<Rightarrow> 'w incus_api result \<times> 'w) \<Rightarrow>
     (ctx \<Rightarrow> int \<Rightarrow> 'w \<Rightarrow> goerr option \<times> 'w) \<Rightarrow> ctx \<Rightarrow> string \<Rightarrow> string \<Rightarrow> string \<Rightarrow> string \<Rightarrow> 'w \<Rightarrow>
     'w host_client result \<times> 'w" where
  "New_host connect wait c endpoint ca cert key w =
     (case connect c endpoint (ca, cert, key) w of
        (Inl e, w1) \<Rightarrow> (Inl (Wrapf [Txt ''connect incus: ''] e []), w1)
      | (Inr server, w1) \<Rightarrow>
         (case newClient wait server w1 of
            (Inl e, w2) \<Rightarrow>
              (Inl e, CloseIdleConnections \<lparr>hc_server = server, hc_wait = wait, hc_standalone = []\<rparr> w2)
          | (Inr cl, w2) \<Rightarrow> (Inr cl, w2)))"

text \<open>\<open>scoped\<close> and \<open>withContext\<close>: the calls of the scoped client carry the project and the context.\<close>

definition scoped :: "'w host_client \<Rightarrow> 'w incus_api result" where
  "scoped cl = (if api_contextual (hc_server cl) then Inr (hc_server cl) else Inl (Sentinel MissingContext))"

definition Lookup_host ::
    "uuid_lib \<Rightarrow> status_match \<Rightarrow> 'w host_client \<Rightarrow> ctx \<Rightarrow> string \<Rightarrow> string \<Rightarrow> 'w \<Rightarrow> vm_instance option result \<times> 'w" where
  "Lookup_host ul status_of cl c project name w =
     (case scoped cl of
        Inl e \<Rightarrow> (Inl (Wrapf [Txt ''lookup instance: ''] e []), w)
      | Inr server \<Rightarrow>
         (case api_get_instance server c project name w of
            (Inl e, w1) \<Rightarrow>
              (if status_check status_of e [404] then Inr None
               else Inl (Wrapf [Txt ''lookup instance: ''] e []), w1)
          | (Inr (inst, _), w1) \<Rightarrow>
              (case mapInstance ul project name inst (hc_standalone cl) of
                 Inl e \<Rightarrow> Inl (Wrapf [Txt ''lookup instance: ''] e [])
               | Inr i \<Rightarrow> Inr (Some i), w1)))"

section \<open>Mutations (\<open>mutation.go\<close>)\<close>

definition setAction :: string where
  "setAction = ''set nonce''"

definition unsetAction :: string where
  "unsetAction = ''unset nonce''"

definition mutationMessage :: "status_match \<Rightarrow> string \<Rightarrow> goerr \<Rightarrow> msg" where
  "mutationMessage status_of action e =
     (case status_of e of
        Some n \<Rightarrow> [Txt (action @ '': ''), Num n]
      | None \<Rightarrow>
          if err_is e ReplacedTarget then Txt (action @ '': '') # sentinel_text ReplacedTarget
          else if err_is e CtxCanceled then Txt (action @ '': '') # sentinel_text CtxCanceled
          else if err_is e CtxDeadlineExceeded then Txt (action @ '': '') # sentinel_text CtxDeadlineExceeded
          else [Txt action])"

definition wrapMutation :: "status_match \<Rightarrow> string \<Rightarrow> goerr option \<Rightarrow> goerr option" where
  "wrapMutation status_of action e =
     (case e of None \<Rightarrow> None | Some e' \<Rightarrow> Some (SecretSafe (mutationMessage status_of action e') e'))"

definition matchResolvedTarget :: "uuid_lib \<Rightarrow> vm_instance \<Rightarrow> api_instance option \<Rightarrow> goerr option" where
  "matchResolvedTarget ul target current =
     (case current of
        None \<Rightarrow> Some (Sentinel ReplacedTarget)
      | Some a \<Rightarrow>
          if ai_project a \<noteq> [] \<and> ai_project a \<noteq> in_project target then Some (Sentinel ReplacedTarget)
          else if ai_name a \<noteq> in_name target then Some (Sentinel ReplacedTarget)
          else if ai_type a \<noteq> InstanceTypeVirtualMachine then Some (Sentinel ReplacedTarget)
          else (case NewInstanceUUID ul (configValue (ai_expanded a) volatileUUIDKey) of
                  Inl _ \<Rightarrow> Some (Sentinel ReplacedTarget)
                | Inr got \<Rightarrow> if got \<noteq> in_uuid target then Some (Sentinel ReplacedTarget) else None))"

text \<open>The edit of a configuration: a key is set to a nonce, or removed.\<close>

definition edit_config :: "string \<Rightarrow> string option \<Rightarrow> config_map \<Rightarrow> config_map" where
  "edit_config k nonce cfg = (case nonce of None \<Rightarrow> cfg(k := None) | Some n \<Rightarrow> cfg(k \<mapsto> n))"

text \<open>The last part of \<open>mutateOnce\<close>: the conditional update and the wait for its operation.\<close>

definition send_update ::
    "'w incus_api \<Rightarrow> ctx \<Rightarrow> vm_instance \<Rightarrow> instance_put \<Rightarrow> string \<Rightarrow> 'w \<Rightarrow> goerr option \<times> 'w" where
  "send_update server c target writable etag w =
     (case api_update_instance server c (in_project target) (in_name target) writable etag w of
        (Inl e, w1) \<Rightarrow> (Some e, w1)
      | (Inr None, w1) \<Rightarrow> (Some (Plain [Txt ''update instance returned no operation'']), w1)
      | (Inr (Some operation), w1) \<Rightarrow> operation c w1)"

definition mutateOnce ::
    "uuid_lib \<Rightarrow> status_match \<Rightarrow> 'w host_client \<Rightarrow> ctx \<Rightarrow> vm_instance \<Rightarrow> string \<Rightarrow> string option \<Rightarrow> 'w \<Rightarrow>
     goerr option \<times> 'w" where
  "mutateOnce ul status_of cl c target key nonce w =
     (case scoped cl of
        Inl e \<Rightarrow> (Some e, w)
      | Inr server \<Rightarrow>
         (case api_get_instance server c (in_project target) (in_name target) w of
            (Inl e, w1) \<Rightarrow>
              (if nonce = None \<and> status_check status_of e [404] then None else Some e, w1)
          | (Inr (current, etag), w1) \<Rightarrow>
             (case matchResolvedTarget ul target current of
                Some e \<Rightarrow> (if nonce = None \<and> err_is e ReplacedTarget then None else Some e, w1)
              | None \<Rightarrow>
                 (let writable = ai_put (the current); config = copyConfig (put_config writable)
                  in if nonce = None \<and> config key = None then (None, w1)
                     else send_update server c target (writable\<lparr>put_config := Some (edit_config key nonce config)\<rparr>) etag w1))))"

partial_function (option) mutate_loop ::
    "uuid_lib \<Rightarrow> status_match \<Rightarrow> 'w host_client \<Rightarrow> ctx \<Rightarrow> vm_instance \<Rightarrow> string \<Rightarrow> string option \<Rightarrow> int \<Rightarrow> 'w \<Rightarrow>
     (goerr option \<times> 'w) option" where
  [code]: "mutate_loop ul status_of cl c target key nonce delay w =
     (case mutateOnce ul status_of cl c target key nonce w of
        (None, w1) \<Rightarrow> Some (None, w1)
      | (Some e, w1) \<Rightarrow>
          if err_is e ReplacedTarget \<or> \<not> isRetryable status_of e then Some (Some e, w1)
          else (case hc_wait cl c delay w1 of
                  (Some waitErr, w2) \<Rightarrow> Some (Some waitErr, w2)
                | (None, w2) \<Rightarrow> mutate_loop ul status_of cl c target key nonce (nextRetryDelay delay) w2))"

definition mutate ::
    "uuid_lib \<Rightarrow> status_match \<Rightarrow> 'w host_client \<Rightarrow> ctx \<Rightarrow> vm_instance \<Rightarrow> string \<Rightarrow> string option \<Rightarrow> 'w \<Rightarrow>
     (goerr option \<times> 'w) option" where
  "mutate ul status_of cl c target key nonce w =
     mutate_loop ul status_of cl c target key nonce initialRetryDelay w"

definition SetNonce ::
    "uuid_lib \<Rightarrow> status_match \<Rightarrow> 'w host_client \<Rightarrow> ctx \<Rightarrow> vm_instance \<Rightarrow> string \<Rightarrow> string \<Rightarrow> 'w \<Rightarrow>
     (goerr option \<times> 'w) option" where
  "SetNonce ul status_of cl c i key nonce w =
     map_option (\<lambda>(e, w1). (wrapMutation status_of setAction e, w1)) (mutate ul status_of cl c i key (Some nonce) w)"

definition UnsetNonce ::
    "uuid_lib \<Rightarrow> status_match \<Rightarrow> 'w host_client \<Rightarrow> ctx \<Rightarrow> vm_instance \<Rightarrow> string \<Rightarrow> 'w \<Rightarrow> (goerr option \<times> 'w) option" where
  "UnsetNonce ul status_of cl c i key w =
     map_option (\<lambda>(e, w1). (wrapMutation status_of unsetAction e, w1)) (mutate ul status_of cl c i key None w)"

section \<open>Runs of the retry loop\<close>

text \<open>A result that ends the loop without a wait.\<close>

definition final_result :: "status_match \<Rightarrow> goerr option \<Rightarrow> bool" where
  "final_result status_of r \<longleftrightarrow>
     (case r of None \<Rightarrow> True | Some e \<Rightarrow> err_is e ReplacedTarget \<or> \<not> isRetryable status_of e)"

inductive attempts ::
    "uuid_lib \<Rightarrow> status_match \<Rightarrow> 'w host_client \<Rightarrow> ctx \<Rightarrow> vm_instance \<Rightarrow> string \<Rightarrow> string option \<Rightarrow>
     int \<Rightarrow> 'w \<Rightarrow> goerr option \<Rightarrow> 'w \<Rightarrow> bool"
  for ul status_of cl c target key nonce where
  last_attempt: "mutateOnce ul status_of cl c target key nonce w = (r, w1) \<Longrightarrow> final_result status_of r \<Longrightarrow>
     attempts ul status_of cl c target key nonce d w r w1"
| interrupted: "mutateOnce ul status_of cl c target key nonce w = (Some e, w1) \<Longrightarrow>
     \<not> final_result status_of (Some e) \<Longrightarrow> hc_wait cl c d w1 = (Some waitErr, w2) \<Longrightarrow>
     attempts ul status_of cl c target key nonce d w (Some waitErr) w2"
| retried: "mutateOnce ul status_of cl c target key nonce w = (Some e, w1) \<Longrightarrow>
     \<not> final_result status_of (Some e) \<Longrightarrow> hc_wait cl c d w1 = (None, w2) \<Longrightarrow>
     attempts ul status_of cl c target key nonce (nextRetryDelay d) w2 r w3 \<Longrightarrow>
     attempts ul status_of cl c target key nonce d w r w3"

lemma mutate_loop_attempts_pair:
  assumes "mutate_loop ul status_of cl c target key nonce d w = Some y"
  shows "attempts ul status_of cl c target key nonce d w (fst y) (snd y)"
proof (rule mutate_loop.raw_induct [where
      P = "\<lambda>ul status_of cl c target key nonce d w y. attempts ul status_of cl c target key nonce d w (fst y) (snd y)",
      OF _ assms], goal_cases)
  case (1 loop ul status_of cl c target key nonce d w y)
  obtain r1 w1 where once: "mutateOnce ul status_of cl c target key nonce w = (r1, w1)" by fastforce
  show ?case
  proof (cases "final_result status_of r1")
    case True
    with 1(2) once have "y = (r1, w1)"
      by (auto simp: final_result_def split: option.splits)
    with last_attempt [OF once True] show ?thesis by simp
  next
    case False
    then obtain e where e: "r1 = Some e" "\<not> (err_is e ReplacedTarget \<or> \<not> isRetryable status_of e)"
      by (auto simp: final_result_def split: option.splits)
    obtain we w2 where wait: "hc_wait cl c d w1 = (we, w2)" by fastforce
    show ?thesis
    proof (cases we)
      case None
      with 1(2) once e wait have "loop ul status_of cl c target key nonce (nextRetryDelay d) w2 = Some y" by simp
      from 1(1) [OF this] once e(1) False wait None show ?thesis by (auto intro: retried)
    next
      case (Some x)
      with 1(2) once e wait have "y = (Some x, w2)" by simp
      with once e(1) False wait Some show ?thesis by (auto intro: interrupted)
    qed
  qed
qed

lemma mutate_loop_attempts:
  "mutate_loop ul status_of cl c target key nonce d w = Some (r, w') \<Longrightarrow>
   attempts ul status_of cl c target key nonce d w r w'"
  using mutate_loop_attempts_pair by fastforce

lemmas mutate_attempts = mutate_loop_attempts [of _ _ _ _ _ _ _ initialRetryDelay, folded mutate_def]

lemma context_error_final: "context_error e \<Longrightarrow> final_result status_of (Some e)"
  by (simp add: final_result_def isRetryable_def)

section \<open>Recorded calls\<close>

datatype host_event =
    HGet ctx string string "(api_instance option \<times> string) result"
  | HUpdate ctx string string instance_put string "bool result"
  | HOperation ctx "goerr option"
  | HWait ctx int "goerr option"

type_synonym 'w host_world = "('w, host_event) recorded"

definition log_operation :: "'w operation \<Rightarrow> 'w host_world operation" where
  "log_operation operation = (\<lambda>c. record_call (HOperation c) (operation c))"

text \<open>An update is recorded with whether it returned an operation.\<close>

definition log_update ::
    "(ctx \<Rightarrow> string \<Rightarrow> string \<Rightarrow> instance_put \<Rightarrow> string \<Rightarrow> 'w \<Rightarrow> 'w operation option result \<times> 'w) \<Rightarrow>
     ctx \<Rightarrow> string \<Rightarrow> string \<Rightarrow> instance_put \<Rightarrow> string \<Rightarrow> 'w host_world \<Rightarrow> 'w host_world operation option result \<times> 'w host_world" where
  "log_update update c p n put tag wt =
     (let (r, w1) = update c p n put tag (fst wt)
      in (map_sum id (map_option log_operation) r,
          (w1, snd wt @ [HUpdate c p n put tag (map_sum id (\<lambda>x. x \<noteq> None) r)])))"

definition log_api :: "'w incus_api \<Rightarrow> 'w host_world incus_api" where
  "log_api api =
     \<lparr>api_contextual = api_contextual api,
      api_get_server = (\<lambda>wt. let (r, w1) = api_get_server api (fst wt) in (r, (w1, snd wt))),
      api_get_instance = (\<lambda>c p n. record_call (HGet c p n) (api_get_instance api c p n)),
      api_update_instance = log_update (api_update_instance api),
      api_http_client = (\<lambda>wt. map_sum id (map_option (\<lambda>close wt. (close (fst wt), snd wt))) (api_http_client api (fst wt)))\<rparr>"

definition log_client :: "'w host_client \<Rightarrow> 'w host_world host_client" where
  "log_client cl =
     \<lparr>hc_server = log_api (hc_server cl), hc_wait = (\<lambda>c d. record_call (HWait c d) (hc_wait cl c d)),
      hc_standalone = hc_standalone cl\<rparr>"

lemmas host_log_simps = log_client_def log_api_def log_update_def log_operation_def scoped_def

fun update_event :: "host_event \<Rightarrow> bool" where
  "update_event (HUpdate _ _ _ _ _ _) = True"
| "update_event _ = False"

fun get_event :: "host_event \<Rightarrow> bool" where
  "get_event (HGet _ _ _ _) = True"
| "get_event _ = False"

text \<open>
  \<open>exact_edit\<close>: an update directly follows a fetch of the target, matches it, carries its ETag and
  changes the one key only; an unset is sent only when the key is there.
\<close>

definition exact_edit ::
    "uuid_lib \<Rightarrow> vm_instance \<Rightarrow> string \<Rightarrow> string option \<Rightarrow> host_event \<Rightarrow> host_event \<Rightarrow> bool" where
  "exact_edit ul target key nonce fetch update \<longleftrightarrow>
     (\<exists>c a tag u. fetch = HGet c (in_project target) (in_name target) (Inr (Some a, tag)) \<and>
        update = HUpdate c (in_project target) (in_name target)
          ((ai_put a)\<lparr>put_config := Some (edit_config key nonce (copyConfig (put_config (ai_put a))))\<rparr>) tag u \<and>
        matchResolvedTarget ul target (Some a) = None \<and>
        (nonce \<noteq> None \<or> copyConfig (put_config (ai_put a)) key \<noteq> None))"

text \<open>Each update of a trace is related by \<open>P\<close> to the event right before it.\<close>

fun updates_follow :: "(host_event \<Rightarrow> host_event \<Rightarrow> bool) \<Rightarrow> host_event option \<Rightarrow> host_event list \<Rightarrow> bool" where
  "updates_follow P prev [] = True"
| "updates_follow P prev (e # es) \<longleftrightarrow>
     (update_event e \<longrightarrow> (case prev of None \<Rightarrow> False | Some g \<Rightarrow> P g e)) \<and> updates_follow P (Some e) es"

lemma updates_follow_any: "updates_follow P None es \<Longrightarrow> updates_follow P prev es"
  by (cases es) auto

lemma updates_follow_append:
  "updates_follow P prev xs \<Longrightarrow> updates_follow P None ys \<Longrightarrow> updates_follow P prev (xs @ ys)"
  by (induction xs arbitrary: prev) (auto simp: updates_follow_any)

lemma matchResolvedTarget_Some:
  "matchResolvedTarget ul target x = None \<Longrightarrow> \<exists>a. x = Some a \<and> matchResolvedTarget ul target (Some a) = None"
  by (cases x) (auto simp: matchResolvedTarget_def)

lemma map_sum_id_iff:
  "map_sum id f r = Inl e \<longleftrightarrow> r = Inl e"
  "map_sum id f r = Inr x \<longleftrightarrow> (\<exists>y. r = Inr y \<and> f y = x)"
  by (cases r; auto)+

lemma log_send_update:
  obtains u ops where
    "send_update (log_api api) c target put tag (w, tr) =
       (fst (send_update api c target put tag w), (snd (send_update api c target put tag w),
        tr @ HUpdate c (in_project target) (in_name target) put tag u # ops))"
    "list_all (\<lambda>e. \<not> update_event e \<and> \<not> get_event e) ops"
proof -
  obtain x w1 where x: "api_update_instance api c (in_project target) (in_name target) put tag w = (x, w1)" by fastforce
  consider (err) e where "x = Inl e" | (nil) "x = Inr None" | (sent) y where "x = Inr (Some y)"
    by (cases x; auto)
  then show ?thesis
  proof cases
    case err
    with x show ?thesis by (intro that [of "Inl e" "[]"]) (simp_all add: send_update_def log_api_def log_update_def)
  next
    case nil
    with x show ?thesis by (intro that [of "Inr False" "[]"]) (simp_all add: send_update_def log_api_def log_update_def)
  next
    case sent
    with x show ?thesis
      by (intro that [of "Inr True" "[HOperation c (fst (y c w1))]"])
        (simp_all add: send_update_def log_api_def log_update_def log_operation_def)
  qed
qed

text \<open>The cases of one attempt: no change is sent, or an exact edit is.\<close>

lemma mutateOnce_cases:
  obtains (unscoped) "scoped cl = Inl (Sentinel MissingContext)"
      "mutateOnce ul status_of cl c target key nonce w = (Some (Sentinel MissingContext), w)"
  | (fetch_error) e w1 where "scoped cl = Inr (hc_server cl)"
      "api_get_instance (hc_server cl) c (in_project target) (in_name target) w = (Inl e, w1)"
      "mutateOnce ul status_of cl c target key nonce w =
         (if nonce = None \<and> status_check status_of e [404] then None else Some e, w1)"
  | (replaced) x w1 where "scoped cl = Inr (hc_server cl)"
      "api_get_instance (hc_server cl) c (in_project target) (in_name target) w = (Inr x, w1)"
      "matchResolvedTarget ul target (fst x) = Some (Sentinel ReplacedTarget)"
      "mutateOnce ul status_of cl c target key nonce w =
         (if nonce = None then None else Some (Sentinel ReplacedTarget), w1)"
  | (absent) a tag w1 where "scoped cl = Inr (hc_server cl)"
      "api_get_instance (hc_server cl) c (in_project target) (in_name target) w = (Inr (Some a, tag), w1)"
      "matchResolvedTarget ul target (Some a) = None" "nonce = None" "copyConfig (put_config (ai_put a)) key = None"
      "mutateOnce ul status_of cl c target key nonce w = (None, w1)"
  | (sent) a tag w1 where "scoped cl = Inr (hc_server cl)"
      "api_get_instance (hc_server cl) c (in_project target) (in_name target) w = (Inr (Some a, tag), w1)"
      "matchResolvedTarget ul target (Some a) = None" "nonce \<noteq> None \<or> copyConfig (put_config (ai_put a)) key \<noteq> None"
      "mutateOnce ul status_of cl c target key nonce w =
         send_update (hc_server cl) c target
           ((ai_put a)\<lparr>put_config := Some (edit_config key nonce (copyConfig (put_config (ai_put a))))\<rparr>) tag w1"
proof (cases "api_contextual (hc_server cl)")
  case False
  then show ?thesis by (intro unscoped) (simp_all add: scoped_def mutateOnce_def)
next
  case True
  then have sc: "scoped cl = Inr (hc_server cl)" by (simp add: scoped_def)
  obtain x w1 where x: "api_get_instance (hc_server cl) c (in_project target) (in_name target) w = (x, w1)" by fastforce
  note once = mutateOnce_def [of ul status_of cl c target key nonce w, unfolded sc sum.case x prod.case]
  show ?thesis
  proof (cases x)
    case (Inl e)
    with once show ?thesis by (intro fetch_error [OF sc x [unfolded Inl]]) simp
  next
    case (Inr y)
    obtain cur tag where y: "y = (cur, tag)" by fastforce
    show ?thesis
    proof (cases "matchResolvedTarget ul target cur")
      case (Some e)
      then have "e = Sentinel ReplacedTarget" by (auto simp: matchResolvedTarget_def split: option.splits sum.splits if_splits)
      with Some once Inr y show ?thesis by (intro replaced [OF sc x [unfolded Inr]]) simp_all
    next
      case None
      then obtain a where a: "cur = Some a" "matchResolvedTarget ul target (Some a) = None"
        using matchResolvedTarget_Some by blast
      note got = x [unfolded Inr y a(1)]
      show ?thesis
      proof (cases "nonce = None \<and> copyConfig (put_config (ai_put a)) key = None")
        case True
        with once a Inr y show ?thesis by (intro absent [OF sc got a(2)]) (simp_all add: Let_def)
      next
        case False
        with once a Inr y show ?thesis by (intro sent [OF sc got a(2)]) (auto simp: Let_def)
      qed
    qed
  qed
qed

lemma log_get:
  "api_get_instance (hc_server (log_client cl)) c p n (w, tr) =
     (fst (api_get_instance (hc_server cl) c p n w), (snd (api_get_instance (hc_server cl) c p n w),
      tr @ [HGet c p n (fst (api_get_instance (hc_server cl) c p n w))]))"
  by (simp add: log_client_def log_api_def)

lemma log_scoped: "scoped (log_client cl) = map_sum id log_api (scoped cl)"
  by (simp add: scoped_def log_client_def log_api_def)

lemma mutateOnce_log:
  obtains evs where
    "mutateOnce ul status_of (log_client cl) c target key nonce (w, tr) =
       (fst (mutateOnce ul status_of cl c target key nonce w), (snd (mutateOnce ul status_of cl c target key nonce w), tr @ evs))"
    "updates_follow (exact_edit ul target key nonce) None evs" "length (filter get_event evs) \<le> 1"
proof (cases rule: mutateOnce_cases [of cl ul status_of c target key nonce w])
  case unscoped
  then show ?thesis by (intro that [of "[]"]) (simp_all add: mutateOnce_def log_scoped)
next
  case (fetch_error e w1)
  then show ?thesis
    by (intro that [of "[HGet c (in_project target) (in_name target) (Inl e)]"])
      (simp_all add: mutateOnce_def [of _ _ "log_client cl"] log_scoped log_get [unfolded log_client_def, simplified])
next
  case (replaced x w1)
  then show ?thesis
    by (intro that [of "[HGet c (in_project target) (in_name target) (Inr x)]"])
      (auto simp: mutateOnce_def [of _ _ "log_client cl"] log_scoped log_get [unfolded log_client_def, simplified] split: prod.split)
next
  case (absent a tag w1)
  then show ?thesis
    by (intro that [of "[HGet c (in_project target) (in_name target) (Inr (Some a, tag))]"])
      (simp_all add: mutateOnce_def [of _ _ "log_client cl"] log_scoped log_get [unfolded log_client_def, simplified])
next
  case (sent a tag w1)
  let ?put = "(ai_put a)\<lparr>put_config := Some (edit_config key nonce (copyConfig (put_config (ai_put a))))\<rparr>"
  let ?get = "HGet c (in_project target) (in_name target) (Inr (Some a, tag))"
  obtain u ops where u: "send_update (log_api (hc_server cl)) c target ?put tag (w1, tr @ [?get]) =
       (fst (send_update (hc_server cl) c target ?put tag w1), (snd (send_update (hc_server cl) c target ?put tag w1),
        (tr @ [?get]) @ HUpdate c (in_project target) (in_name target) ?put tag u # ops))"
    and ops: "list_all (\<lambda>e. \<not> update_event e \<and> \<not> get_event e) ops"
    by (rule log_send_update)
  have "updates_follow P prev ops" for P prev using ops by (induction ops arbitrary: prev) auto
  moreover have "filter get_event ops = []" using ops by (induction ops) auto
  moreover have "exact_edit ul target key nonce ?get (HUpdate c (in_project target) (in_name target) ?put tag u)"
    using sent(3,4) by (auto simp: exact_edit_def)
  moreover have "mutateOnce ul status_of (log_client cl) c target key nonce (w, tr) =
      send_update (log_api (hc_server cl)) c target ?put tag (w1, tr @ [?get])"
    using sent by (auto simp: mutateOnce_def [of _ _ "log_client cl"] log_scoped log_get [unfolded log_client_def, simplified] Let_def)
  ultimately show ?thesis
    using u sent(5) by (intro that [of "?get # HUpdate c (in_project target) (in_name target) ?put tag u # ops"]) simp_all
qed

lemma mutateOnce_events:
  assumes "mutateOnce ul status_of (log_client cl) c target key nonce (w, tr) = (r, (w', tr'))"
  shows "\<exists>evs. tr' = tr @ evs \<and> updates_follow (exact_edit ul target key nonce) None evs \<and> length (filter get_event evs) \<le> 1"
  using assms mutateOnce_log by (metis prod.inject)

lemma same_mutateOnce:
  "same_run (mutateOnce ul status_of (log_client cl) c target key nonce) (mutateOnce ul status_of cl c target key nonce)"
  unfolding same_run_def using mutateOnce_log by metis

lemma attempts_events:
  "attempts ul status_of (log_client cl) c target key nonce d (w, tr) r (w', tr') \<Longrightarrow>
   \<exists>evs. tr' = tr @ evs \<and> updates_follow (exact_edit ul target key nonce) None evs"
proof (induction d "(w, tr)" r "(w', tr')" arbitrary: w tr w' tr' rule: attempts.induct)
  case (last_attempt r d)
  from mutateOnce_events [OF last_attempt(1)] show ?case by blast
next
  case (interrupted e w1 d waitErr)
  obtain u1 tr1 where w1: "w1 = (u1, tr1)" by fastforce
  from mutateOnce_events [OF interrupted(1) [unfolded w1]] obtain evs where
    "tr1 = tr @ evs" "updates_follow (exact_edit ul target key nonce) None evs" by blast
  moreover from interrupted(3) w1 have "tr' = tr1 @ [HWait c d (Some waitErr)]" by (auto simp: log_client_def)
  ultimately show ?case by (auto intro!: updates_follow_append)
next
  case (retried e w1 d w2 r)
  obtain u1 tr1 where w1: "w1 = (u1, tr1)" by fastforce
  from mutateOnce_events [OF retried(1) [unfolded w1]] obtain evs where
    evs: "tr1 = tr @ evs" "updates_follow (exact_edit ul target key nonce) None evs" by blast
  from retried(3) w1 obtain u2 where w2: "w2 = (u2, tr1 @ [HWait c d None])" by (auto simp: log_client_def)
  from retried(5) [OF w2] obtain evs' where "tr' = tr1 @ [HWait c d None] @ evs'"
    "updates_follow (exact_edit ul target key nonce) None evs'" by auto
  with evs show ?case
    by (intro exI [of _ "evs @ [HWait c d None] @ evs'"]) (auto intro!: updates_follow_append simp: updates_follow_any)
qed

text \<open>Recording the calls changes nothing.\<close>

lemma attempts_plain:
  "attempts ul status_of (log_client cl) c target key nonce d (w, tr) r (w', tr') \<Longrightarrow>
   mutate_loop ul status_of cl c target key nonce d w = Some (r, w')"
proof (induction d "(w, tr)" r "(w', tr')" arbitrary: w tr w' tr' rule: attempts.induct)
  case (last_attempt r d)
  then have "mutateOnce ul status_of cl c target key nonce w = (r, w')"
    using same_runE [OF same_mutateOnce] by (metis prod.inject)
  with last_attempt(2) show ?case
    by (subst mutate_loop.simps) (auto simp: final_result_def split: option.split)
next
  case (interrupted e w1 d waitErr)
  then have "mutateOnce ul status_of cl c target key nonce w = (Some e, fst w1)"
    using same_runE [OF same_mutateOnce] by (metis prod.inject prod.collapse)
  moreover from interrupted(3) have "hc_wait cl c d (fst w1) = (Some waitErr, w')"
    by (cases w1) (auto simp: log_client_def prod_eq_iff)
  ultimately show ?case
    using interrupted(2) by (subst mutate_loop.simps) (simp add: final_result_def)
next
  case (retried e w1 d w2 r)
  then have "mutateOnce ul status_of cl c target key nonce w = (Some e, fst w1)"
    using same_runE [OF same_mutateOnce] by (metis prod.inject prod.collapse)
  moreover from retried(3) have "hc_wait cl c d (fst w1) = (None, fst w2)"
    by (cases w1) (auto simp: log_client_def prod_eq_iff)
  moreover have "mutate_loop ul status_of cl c target key nonce (nextRetryDelay d) (fst w2) = Some (r, w')"
    by (rule retried(5) [OF prod.collapse [symmetric]])
  ultimately show ?case
    using retried(2) by (subst mutate_loop.simps) (simp add: final_result_def)
qed

section \<open>Termination\<close>

text \<open>The calls of the API take time, never negative.\<close>

definition time_passes :: "('w \<Rightarrow> int) \<Rightarrow> 'w incus_api \<Rightarrow> bool" where
  "time_passes clock api \<longleftrightarrow>
     (\<forall>c p n w. clock w \<le> clock (snd (api_get_instance api c p n w))) \<and>
     (\<forall>c p n put tag w. clock w \<le> clock (snd (api_update_instance api c p n put tag w))) \<and>
     (\<forall>c p n put tag w operation. fst (api_update_instance api c p n put tag w) = Inr (Some operation) \<longrightarrow>
        (\<forall>c' w'. clock w' \<le> clock (snd (operation c' w'))))"

lemma time_get: "time_passes clock api \<Longrightarrow> api_get_instance api c p n w = (x, w1) \<Longrightarrow> clock w \<le> clock w1"
  unfolding time_passes_def by (metis snd_conv)

lemma time_send:
  assumes "time_passes clock api"
  shows "clock w \<le> clock (snd (send_update api c target put tag w))"
proof -
  obtain x w1 where x: "api_update_instance api c (in_project target) (in_name target) put tag w = (x, w1)" by fastforce
  with assms have "clock w \<le> clock w1" "\<And>operation. x = Inr (Some operation) \<Longrightarrow> \<forall>c w. clock w \<le> clock (snd (operation c w))"
    unfolding time_passes_def by (metis snd_conv, metis fst_conv)
  with x show ?thesis
    by (cases x) (auto simp: send_update_def intro: order_trans split: option.split)
qed

lemma time_mutateOnce:
  assumes "time_passes clock (hc_server cl)"
  shows "clock w \<le> clock (snd (mutateOnce ul status_of cl c target key nonce w))"
proof (cases rule: mutateOnce_cases [of cl ul status_of c target key nonce w])
  case (sent a tag w1)
  show ?thesis
    unfolding sent(5) by (rule order_trans [OF time_get [OF assms sent(2)] time_send [OF assms]])
qed (simp_all add: time_get [OF assms])

text \<open>The loop of \<open>mutate\<close> as an instance of the shared shape.\<close>

definition mutate_step ::
    "uuid_lib \<Rightarrow> status_match \<Rightarrow> 'w host_client \<Rightarrow> ctx \<Rightarrow> vm_instance \<Rightarrow> string \<Rightarrow> string option \<Rightarrow> 'w \<Rightarrow>
     goerr option option \<times> 'w" where
  "mutate_step ul status_of cl c target key nonce w =
     (let (r, w1) = mutateOnce ul status_of cl c target key nonce w
      in (if final_result status_of r then Some r else None, w1))"

interpretation mutation: retry_loop nextRetryDelay initialRetryDelay maxRetryDelay
    "mutate_step ul status_of cl c target key nonce" "hc_wait cl" c "\<lambda>e w. Some e"
    "mutate_loop ul status_of cl c target key nonce"
  for ul status_of cl c target key nonce
  by unfold_locales
    (subst mutate_loop.simps, auto simp: mutate_step_def final_result_def split: prod.split option.split)

lemma log_waiter: "waiter (hc_wait cl) clock \<Longrightarrow> waiter (hc_wait (log_client cl)) (clock \<circ> fst)"
  by (simp add: log_client_def record_waiter)

lemma mutate_loop_bounded:
  assumes wait: "waiter (hc_wait cl) clock" and time: "time_passes clock (hc_server cl)"
    and deadline: "done_at c = Some D"
  shows "\<exists>r w' evs. mutate_loop ul status_of (log_client cl) c target key nonce initialRetryDelay (w, []) = Some (r, (w', evs)) \<and>
    int (length (filter get_event evs)) * initialRetryDelay \<le>
      (if D \<le> clock w then initialRetryDelay else D - clock w + 2 * initialRetryDelay)"
proof -
  let ?cost = "\<lambda>wt :: 'a host_world. int (length (filter get_event (snd wt)))"
  let ?step = "mutate_step ul status_of (log_client cl) c target key nonce"
  have log: "fst (snd (?step wt)) = snd (mutateOnce ul status_of cl c target key nonce (fst wt)) \<and> ?cost (snd (?step wt)) \<le> ?cost wt + 1" for wt
  proof -
    obtain w tr where wt: "wt = (w, tr)" by fastforce
    obtain evs where "mutateOnce ul status_of (log_client cl) c target key nonce (w, tr) =
        (fst (mutateOnce ul status_of cl c target key nonce w), (snd (mutateOnce ul status_of cl c target key nonce w), tr @ evs))"
      "length (filter get_event evs) \<le> 1"
      using mutateOnce_log by metis
    with wt show ?thesis by (simp add: mutate_step_def)
  qed
  have t: "(clock \<circ> fst) wt \<le> (clock \<circ> fst) (snd (?step wt))" for wt
    using log [of wt] time_mutateOnce [OF time] by (simp add: mutate_step_def)
  have w: "?cost (snd (hc_wait (log_client cl) c d wt)) = ?cost wt" for d wt
    by (cases wt) (simp add: log_client_def)
  from mutation.returns_within_deadline [of "log_client cl" "clock \<circ> fst" ul status_of c target key nonce D ?cost initialRetryDelay "(w, [])",
      OF log_waiter [OF wait] t deadline _ w] log host_retry.first_cap
  show ?thesis by fastforce
qed

section \<open>Conditional updates\<close>

text \<open>
  The documented behaviour of Incus the mutations rely on, for a view of the stored instances with their
  ETags: a fetch returns what is stored, a 404 means there is nothing, equal ETags mean equal writable
  parts, and an update whose operation succeeded was applied to an instance with the given ETag. Between
  two calls other clients may change anything.
\<close>

type_synonym 'w store_view = "'w \<Rightarrow> string \<Rightarrow> string \<Rightarrow> (api_instance \<times> string) option"

definition etag_store :: "status_match \<Rightarrow> 'w store_view \<Rightarrow> 'w incus_api \<Rightarrow> bool" where
  "etag_store status_of view api \<longleftrightarrow>
     (\<forall>c p n w x tag. fst (api_get_instance api c p n w) = Inr (x, tag) \<longrightarrow>
        (\<exists>a. x = Some a \<and> view (snd (api_get_instance api c p n w)) p n = Some (a, tag))) \<and>
     (\<forall>c p n w e. fst (api_get_instance api c p n w) = Inl e \<longrightarrow> status_of e = Some 404 \<longrightarrow>
        view (snd (api_get_instance api c p n w)) p n = None) \<and>
     (\<forall>u v p n a b tag. view u p n = Some (a, tag) \<longrightarrow> view v p n = Some (b, tag) \<longrightarrow> ai_put a = ai_put b) \<and>
     (\<forall>c p n put tag w operation c' w'. api_update_instance api c p n put tag w = (Inr (Some operation), w') \<longrightarrow>
        fst (operation c' w') = None \<longrightarrow>
        (\<exists>u a b tag'. view u p n = Some (a, tag) \<and> ai_put b = put \<and>
           view (snd (operation c' w')) = (view u)(p := (view u p)(n \<mapsto> (b, tag')))))"

lemma etag_store_get:
  "etag_store status_of view api \<Longrightarrow> api_get_instance api c p n w = (Inr (x, tag), w') \<Longrightarrow>
   \<exists>a. x = Some a \<and> view w' p n = Some (a, tag)"
  unfolding etag_store_def by (metis fst_conv snd_conv)

lemma etag_store_missing:
  "etag_store status_of view api \<Longrightarrow> api_get_instance api c p n w = (Inl e, w') \<Longrightarrow> status_of e = Some 404 \<Longrightarrow>
   view w' p n = None"
  unfolding etag_store_def by (metis fst_conv snd_conv)

lemma etag_store_update:
  assumes "etag_store status_of view api" "send_update api c target put tag w = (None, w')"
  shows "\<exists>u a b tag'. view u (in_project target) (in_name target) = Some (a, tag) \<and> ai_put b = put \<and>
    view w' = (view u)(in_project target := (view u (in_project target))(in_name target \<mapsto> (b, tag')))"
proof -
  from assms(2) obtain operation w1 where
    "api_update_instance api c (in_project target) (in_name target) put tag w = (Inr (Some operation), w1)"
    "operation c w1 = (None, w')"
    by (auto simp: send_update_def split: prod.splits sum.splits option.splits)
  with assms(1) show ?thesis unfolding etag_store_def by (metis fst_conv snd_conv)
qed

lemma etag_store_tag:
  "etag_store status_of view api \<Longrightarrow> view u p n = Some (a, tag) \<Longrightarrow> view v p n = Some (b, tag) \<Longrightarrow> ai_put a = ai_put b"
  unfolding etag_store_def by (elim conjE) metis

text \<open>
  \<open>edited\<close>: what a successful edit leaves, relative to the stored instances \<open>v\<close> it was applied to.
\<close>

definition edited ::
    "vm_instance \<Rightarrow> string \<Rightarrow> string option \<Rightarrow> (string \<Rightarrow> string \<Rightarrow> (api_instance \<times> string) option) \<Rightarrow>
     (string \<Rightarrow> string \<Rightarrow> (api_instance \<times> string) option) \<Rightarrow> bool" where
  "edited target key nonce v v' \<longleftrightarrow>
     (\<exists>a b tag tag'. v (in_project target) (in_name target) = Some (a, tag) \<and>
        ai_put b = (ai_put a)\<lparr>put_config := Some (edit_config key nonce (copyConfig (put_config (ai_put a))))\<rparr> \<and>
        v' = v(in_project target := (v (in_project target))(in_name target \<mapsto> (b, tag'))))"

lemma mutateOnce_success:
  assumes store: "etag_store status_of view (hc_server cl)"
    and ok: "mutateOnce ul status_of cl c target key nonce w = (None, w')"
  shows "(\<exists>u. edited target key nonce (view u) (view w')) \<or>
    nonce = None \<and> (case view w' (in_project target) (in_name target) of
       None \<Rightarrow> True
     | Some (a, _) \<Rightarrow> matchResolvedTarget ul target (Some a) \<noteq> None \<or> copyConfig (put_config (ai_put a)) key = None)"
proof (cases rule: mutateOnce_cases [of cl ul status_of c target key nonce w])
  case unscoped
  with ok show ?thesis by simp
next
  case (fetch_error e w1)
  with ok have "nonce = None" "status_of e = Some 404" "w1 = w'"
    by (auto simp: status_check_def split: if_splits option.splits)
  with etag_store_missing [OF store fetch_error(2)] show ?thesis by simp
next
  case (replaced x w1)
  with ok have n: "nonce = None" "w1 = w'" by (auto split: if_splits)
  obtain cur tag where x: "x = (cur, tag)" by fastforce
  with etag_store_get [OF store] replaced(2) n(2) obtain a where
    "cur = Some a" "view w' (in_project target) (in_name target) = Some (a, tag)" by blast
  with replaced(3) x n(1) show ?thesis by simp
next
  case (absent a tag w1)
  with ok have "w1 = w'" by simp
  with etag_store_get [OF store absent(2)] absent(4,5) show ?thesis by simp
next
  case (sent a tag w1)
  let ?put = "(ai_put a)\<lparr>put_config := Some (edit_config key nonce (copyConfig (put_config (ai_put a))))\<rparr>"
  from sent(5) ok have "send_update (hc_server cl) c target ?put tag w1 = (None, w')" by simp
  from etag_store_update [OF store this] obtain u b0 b tag' where u:
    "view u (in_project target) (in_name target) = Some (b0, tag)" "ai_put b = ?put"
    "view w' = (view u)(in_project target := (view u (in_project target))(in_name target \<mapsto> (b, tag')))" by blast
  from etag_store_get [OF store sent(2)] have "view w1 (in_project target) (in_name target) = Some (a, tag)" by simp
  from etag_store_tag [OF store u(1) this] u have "edited target key nonce (view u) (view w')"
    unfolding edited_def by (intro exI [of _ b0] exI [of _ b] exI [of _ tag] exI [of _ tag']) simp
  then show ?thesis by blast
qed

lemma mutate_success:
  assumes "mutate ul status_of cl c target key nonce w = Some (None, w')"
  obtains v where "mutateOnce ul status_of cl c target key nonce v = (None, w')"
proof -
  have "attempts ul status_of cl c target key nonce d u r w2 \<Longrightarrow> r = None \<Longrightarrow>
    \<exists>v. mutateOnce ul status_of cl c target key nonce v = (None, w2)" for d u r w2
    by (induction rule: attempts.induct) auto
  with mutate_attempts [OF assms] that show ?thesis by blast
qed

lemma wrapMutation_None: "wrapMutation status_of action e = None \<longleftrightarrow> e = None"
  by (simp add: wrapMutation_def split: option.split)

lemma SetNonce_None:
  "SetNonce ul status_of cl c i key nonce w = Some (None, w') \<longleftrightarrow> mutate ul status_of cl c i key (Some nonce) w = Some (None, w')"
  by (auto simp: SetNonce_def wrapMutation_None)

lemma UnsetNonce_None:
  "UnsetNonce ul status_of cl c i key w = Some (None, w') \<longleftrightarrow> mutate ul status_of cl c i key None w = Some (None, w')"
  by (auto simp: UnsetNonce_def wrapMutation_None)

section \<open>The adapter as the port of the service\<close>

text \<open>
  The Go methods have no result when the loop does not end; \<open>returning\<close> gives the total function of the
  port. The service passes contexts with a deadline only, under which the loop ends.
\<close>

definition returning :: "(goerr option \<times> 'w) option \<Rightarrow> 'w \<Rightarrow> goerr option \<times> 'w" where
  "returning r w = (case r of Some x \<Rightarrow> x | None \<Rightarrow> (Some (Plain []), w))"

definition host_port :: "uuid_lib \<Rightarrow> status_match \<Rightarrow> 'w host_client \<Rightarrow> 'w incus_port" where
  "host_port ul status_of cl =
     \<lparr>ip_lookup = Lookup_host ul status_of cl,
      ip_set_nonce = (\<lambda>c i k v w. returning (SetNonce ul status_of cl c i k v w) w),
      ip_unset_nonce = (\<lambda>c i k w. returning (UnsetNonce ul status_of cl c i k w) w)\<rparr>"

lemma mapInstance_Inr:
  "mapInstance ul p n x standalone = Inr i \<longleftrightarrow>
     (\<exists>a uuid. x = Some a \<and> n \<noteq> [] \<and> ai_name a = n \<and> (ai_project a = [] \<or> ai_project a = p) \<and>
        NewInstanceUUID ul (configValue (ai_expanded a) volatileUUIDKey) = Inr uuid \<and>
        (if ai_location a = standaloneLocationSentinel then standalone else ai_location a) \<noteq> [] \<and>
        i = \<lparr>in_project = p, in_name = n, in_uuid = uuid, in_type = ai_type a,
             in_location = (if ai_location a = standaloneLocationSentinel then standalone else ai_location a),
             in_cloud_init_id = configValue (ai_expanded a) volatileCloudInitIDKey,
             in_profiles = put_profiles (ai_put a), in_expanded_config = copyConfig (ai_expanded a)\<rparr>)"
  by (auto simp: mapInstance_def Let_def copyStrings_def split: option.splits sum.splits if_splits)

lemma mapInstance_class: "mapInstance ul p n x standalone = Inl e \<Longrightarrow> err_is e s \<longleftrightarrow> s = AttestDenied"
  by (auto simp: mapInstance_def Let_def split: option.splits sum.splits if_splits)

lemma Lookup_host_found:
  assumes "Lookup_host ul status_of cl c p n w = (Inr (Some i), w')"
  obtains x where "mapInstance ul p n x (hc_standalone cl) = Inr i"
  using assms that by (auto simp: Lookup_host_def split: sum.splits prod.splits if_splits)

interpretation host: incus_lookup "host_port ul status_of cl" ul for ul status_of cl
proof
  fix c p n w i w'
  assume "ip_lookup (host_port ul status_of cl) c p n w = (Inr (Some i), w')"
  then have "Lookup_host ul status_of cl c p n w = (Inr (Some i), w')" by (simp add: host_port_def)
  then obtain x where "mapInstance ul p n x (hc_standalone cl) = Inr i" by (rule Lookup_host_found)
  then show "in_project i = p" "in_name i = n" "\<exists>raw. NewInstanceUUID ul raw = Inr (in_uuid i)"
    by (auto simp: mapInstance_Inr)
qed

section \<open>A sample store\<close>

text \<open>
  One VM, whose local configuration holds the nonce key or not, and the time. The ETag is determined by
  the value of the key; an update with another ETag is refused with 412.
\<close>

type_synonym sample_store = "string option \<times> int"

definition sample_put :: "string option \<Rightarrow> instance_put" where
  "sample_put v = \<lparr>put_config = Some ([''limits.cpu'' \<mapsto> ''2''](sample_key := v)),
     put_profiles = [''default''], put_rest = []\<rparr>"

definition sample_stored :: "string option \<Rightarrow> api_instance" where
  "sample_stored v =
     \<lparr>ai_name = ''vm-01'', ai_project = ''default'', ai_type = ''virtual-machine'', ai_location = ''none'',
      ai_expanded = Some [volatileUUIDKey \<mapsto> sample_uuid, volatileCloudInitIDKey \<mapsto> ''i-01''],
      ai_put = sample_put v\<rparr>"

definition sample_tag :: "string option \<Rightarrow> string" where
  "sample_tag v = (case v of None \<Rightarrow> ''absent'' | Some x \<Rightarrow> ''set:'' @ x)"

definition store_view :: "sample_store store_view" where
  "store_view w p n =
     (if p = ''default'' \<and> n = ''vm-01'' then Some (sample_stored (fst w), sample_tag (fst w)) else None)"

definition status_error :: "int \<Rightarrow> goerr" where
  "status_error n = Foreign \<lparr>attr_text = [Num n], attr_is = [], attr_timeout = None, attr_temporary = None,
     attr_op_error = False\<rparr> None"

fun sample_status :: status_match where
  "sample_status (Foreign a _) = (case attr_text a of [Num n] \<Rightarrow> Some n | _ \<Rightarrow> None)"
| "sample_status _ = None"

definition sample_update ::
    "ctx \<Rightarrow> string \<Rightarrow> string \<Rightarrow> instance_put \<Rightarrow> string \<Rightarrow> sample_store \<Rightarrow> sample_store operation option result \<times> sample_store" where
  "sample_update c p n put tag w =
     (let v = (case put_config put of None \<Rightarrow> None | Some m \<Rightarrow> m sample_key)
      in if p = ''default'' \<and> n = ''vm-01'' \<and> tag = sample_tag (fst w) \<and> put = sample_put v
         then (Inr (Some (\<lambda>c (_, t). (None, (v, t)))), w) else (Inl (status_error 412), w))"

definition sample_api :: "sample_store incus_api" where
  "sample_api =
     \<lparr>api_contextual = True,
      api_get_server = (\<lambda>w. (Inr (Some \<lparr>si_clustered = False, si_name = ''member-01''\<rparr>), w)),
      api_get_instance = (\<lambda>c p n w. (case store_view w p n of
          None \<Rightarrow> Inl (status_error 404) | Some (a, tag) \<Rightarrow> Inr (Some a, tag), w)),
      api_update_instance = sample_update,
      api_http_client = (\<lambda>w. Inr None)\<rparr>"

definition sample_wait :: "ctx \<Rightarrow> int \<Rightarrow> sample_store \<Rightarrow> goerr option \<times> sample_store" where
  "sample_wait c d w = (let (e, t) = waitDuration c d (snd w) in (e, (fst w, t)))"

definition sample_client :: "sample_store host_client" where
  "sample_client = \<lparr>hc_server = sample_api, hc_wait = sample_wait, hc_standalone = ''member-01''\<rparr>"

lemma sample_waiter: "waiter (hc_wait sample_client) snd"
  by unfold_locales
    (auto simp: sample_client_def sample_wait_def dest: timer.wait_elapsed timer.wait_error split: prod.splits)

lemma sample_time: "time_passes snd (hc_server sample_client)"
  by (auto simp: time_passes_def sample_client_def sample_api_def sample_update_def Let_def)

lemma sample_etag_store: "etag_store sample_status store_view (hc_server sample_client)"
proof -
  have tag: "sample_tag u = sample_tag v \<longleftrightarrow> u = v" for u v
    by (auto simp: sample_tag_def split: option.splits)
  have val: "(\<lambda>m. m sample_key) ([''limits.cpu'' \<mapsto> ''2''](sample_key := v)) = v" for v by simp
  show ?thesis
    unfolding etag_store_def
  proof (intro conjI allI impI, goal_cases)
    case (4 c p n put tag w operation c' w')
    then have u: "p = ''default''" "n = ''vm-01''" "tag = sample_tag (fst w)"
      "put = sample_put (case put_config put of None \<Rightarrow> None | Some m \<Rightarrow> m sample_key)"
      "snd (operation c' w') = (case put_config put of None \<Rightarrow> None | Some m \<Rightarrow> m sample_key, snd w')"
      by (auto simp: sample_client_def sample_api_def sample_update_def Let_def split: if_splits prod.split)
    then show ?case
      by (intro exI [of _ w] exI [of _ "sample_stored (fst w)"]
          exI [of _ "sample_stored (case put_config put of None \<Rightarrow> None | Some m \<Rightarrow> m sample_key)"]
          exI [of _ "sample_tag (case put_config put of None \<Rightarrow> None | Some m \<Rightarrow> m sample_key)"])
        (auto simp: store_view_def sample_stored_def fun_eq_iff)
  qed (auto simp: sample_client_def sample_api_def store_view_def status_error_def tag split: if_splits option.splits)
qed

lemma sample_key_config: "sample_key \<noteq> ''limits.cpu''"
  by (simp add: sample_key_def NewConfigKeyFromAttemptID_def configKeyPrefix_def)

lemma sample_target_matches: "matchResolvedTarget ref_uuid sample_instance (Some (sample_stored v)) = None"
  using sample_uuid_canonical
  by (simp add: matchResolvedTarget_def sample_stored_def sample_instance_def InstanceTypeVirtualMachine_def configValue_def
      volatileUUIDKey_def volatileCloudInitIDKey_def)

lemma sample_edit:
  "(sample_put u)\<lparr>put_config := Some (edit_config sample_key v (copyConfig (put_config (sample_put u))))\<rparr> = sample_put v"
  using sample_key_config by (auto simp: sample_put_def edit_config_def copyConfig_def split: option.split)

lemma sample_mutateOnce:
  assumes "v \<noteq> None \<or> fst w \<noteq> None"
  shows "mutateOnce ref_uuid sample_status sample_client c sample_instance sample_key v w = (None, (v, snd w))"
proof -
  have cfg: "copyConfig (put_config (sample_put u)) sample_key = u" for u
    by (simp add: copyConfig_def sample_put_def)
  have upd: "sample_update c ''default'' ''vm-01'' (sample_put v) (sample_tag (fst w)) w =
    (Inr (Some (\<lambda>c (_, t). (None, (v, t)))), w)"
    by (simp add: sample_update_def) (simp add: sample_put_def)
  have fields: "in_project sample_instance = ''default''" "in_name sample_instance = ''vm-01''" "ai_put (sample_stored u) = sample_put u" for u
    by (simp_all add: sample_instance_def sample_stored_def)
  show ?thesis using assms
    by (auto simp: mutateOnce_def send_update_def scoped_def fields store_view_def sample_client_def sample_api_def
        sample_target_matches cfg sample_edit upd Let_def split: prod.split)
qed

lemma sample_mutate:
  assumes "v \<noteq> None \<or> fst w \<noteq> None"
  shows "mutate ref_uuid sample_status sample_client c sample_instance sample_key v w = Some (None, (v, snd w))"
  using sample_mutateOnce [OF assms] by (simp add: mutate_def mutate_loop.simps)

section \<open>Properties\<close>

text \<open>
  C4: whatever Incus answers, every update a mutation sends directly follows a fetch of the target that
  still matches it (project, name, type and UUID), carries the ETag of that fetch, and changes the one
  nonce key and nothing else; an unset is sent only for a key that is there.
\<close>

theorem updates_are_exact_edits:
  "case mutate ul status_of (log_client cl) c target key nonce (w, []) of
     None \<Rightarrow> True
   | Some (r, (w', tr)) \<Rightarrow>
       mutate ul status_of cl c target key nonce w = Some (r, w') \<and>
       updates_follow (exact_edit ul target key nonce) None tr"
proof (cases "mutate ul status_of (log_client cl) c target key nonce (w, [])")
  case (Some y)
  obtain r w' tr where y: "y = (r, (w', tr))" by (metis surj_pair)
  from mutate_attempts [OF Some [unfolded y]]
  have "attempts ul status_of (log_client cl) c target key nonce initialRetryDelay (w, []) r (w', tr)" .
  from attempts_events [OF this] attempts_plain [OF this] Some y show ?thesis by (auto simp: mutate_def)
qed simp

text \<open>
  C10: when setting a nonce succeeds, the key holds it in Incus: the update was applied to the stored
  instance with the fetched ETag, and changed only that key of it, whatever other clients did between
  the calls.
\<close>

theorem set_nonce_stored:
  assumes "etag_store status_of view (hc_server cl)"
    and "SetNonce ul status_of cl c i key nonce w = Some (None, w')"
  shows "\<exists>u. edited i key (Some nonce) (view u) (view w')"
proof -
  from assms(2) obtain v where "mutateOnce ul status_of cl c i key (Some nonce) v = (None, w')"
    by (auto simp: SetNonce_None elim: mutate_success)
  from mutateOnce_success [OF assms(1) this] show ?thesis by simp
qed

lemma set_nonce_stored_witness:
  "\<exists>u. edited sample_instance sample_key (Some ''abc'') (store_view u) (store_view (Some ''abc'', 7))"
  by (rule set_nonce_stored [OF sample_etag_store, of ref_uuid background _ _ _ "(None, 7)"])
    (simp add: SetNonce_None sample_mutate)

lemma unset_leaves_no_key:
  assumes "etag_store status_of view (hc_server cl)"
    and "UnsetNonce ul status_of cl c i key w = Some (None, w')"
  shows "case view w' (in_project i) (in_name i) of
      None \<Rightarrow> True
    | Some (a, _) \<Rightarrow> copyConfig (put_config (ai_put a)) key = None \<or> matchResolvedTarget ul i (Some a) \<noteq> None"
proof -
  from assms(2) obtain v where "mutateOnce ul status_of cl c i key None v = (None, w')"
    by (auto simp: UnsetNonce_None elim: mutate_success)
  from mutateOnce_success [OF assms(1) this] show ?thesis
  proof (elim disjE exE conjE)
    fix u
    assume "edited i key None (view u) (view w')"
    then obtain a :: api_instance and b tag' where "view w' = (view u)(in_project i := (view u (in_project i))(in_name i \<mapsto> (b, tag')))"
      "ai_put b = (ai_put a)\<lparr>put_config := Some (edit_config key None (copyConfig (put_config (ai_put a))))\<rparr>"
      unfolding edited_def by blast
    then show ?thesis by (simp add: edit_config_def copyConfig_def)
  qed (auto split: option.splits)
qed

text \<open>
  C11: when removing the nonce succeeds, no instance that is still the resolved VM holds the key: it was
  removed by an exact edit, or was not there, or the VM is gone or was replaced.
\<close>

theorem unset_nonce_removed:
  assumes "etag_store status_of view (hc_server cl)"
    and "UnsetNonce ul status_of cl c i key w = Some (None, w')"
  shows "case view w' (in_project i) (in_name i) of
      None \<Rightarrow> True
    | Some (a, _) \<Rightarrow> copyConfig (put_config (ai_put a)) key = None \<or> matchResolvedTarget ul i (Some a) \<noteq> None"
  using assms by (rule unset_leaves_no_key)

lemma unset_nonce_removed_witness:
  "case store_view (None, 7) (in_project sample_instance) (in_name sample_instance) of
      None \<Rightarrow> True
    | Some (a, _) \<Rightarrow> copyConfig (put_config (ai_put a)) sample_key = None \<or>
        matchResolvedTarget ref_uuid sample_instance (Some a) \<noteq> None"
  by (rule unset_nonce_removed [OF sample_etag_store, of ref_uuid background _ _ "(Some ''abc'', 7)"])
    (simp add: UnsetNonce_None sample_mutate)

text \<open>
  C12: a mutation returns: under a context with a deadline or a cancellation at time \<open>D\<close>, whatever Incus
  answers, the retry loop ends, after at most (D - now) / 25ms + 2 attempts.
\<close>

theorem mutation_terminates:
  assumes "waiter (hc_wait cl) clock" and "time_passes clock (hc_server cl)" and "done_at c = Some D"
  shows "\<exists>r w' tr. mutate ul status_of cl c target key nonce w = Some (r, w') \<and>
    mutate ul status_of (log_client cl) c target key nonce (w, []) = Some (r, (w', tr)) \<and>
    int (length (filter get_event tr)) * initialRetryDelay \<le> max 0 (D - clock w) + 2 * initialRetryDelay"
proof -
  from mutate_loop_bounded [OF assms, of ul status_of target key nonce w] obtain r w' evs where
    run: "mutate ul status_of (log_client cl) c target key nonce (w, []) = Some (r, (w', evs))"
    and le: "int (length (filter get_event evs)) * initialRetryDelay \<le>
      (if D \<le> clock w then initialRetryDelay else D - clock w + 2 * initialRetryDelay)"
    by (auto simp: mutate_def)
  from attempts_plain [OF mutate_attempts [OF run]] have "mutate ul status_of cl c target key nonce w = Some (r, w')"
    by (simp add: mutate_def)
  moreover have "(if D \<le> clock w then initialRetryDelay else D - clock w + 2 * initialRetryDelay) \<le>
      max 0 (D - clock w) + 2 * initialRetryDelay"
    using host_retry.first_pos by simp
  ultimately show ?thesis using run le by (intro exI conjI) (assumption | linarith)+
qed

lemma mutation_terminates_witness:
  "\<exists>r w' tr. mutate ref_uuid sample_status sample_client (with_timeout background 0 5) sample_instance sample_key None (None, 0) = Some (r, w') \<and>
    mutate ref_uuid sample_status (log_client sample_client) (with_timeout background 0 5) sample_instance sample_key None ((None, 0), []) = Some (r, (w', tr)) \<and>
    int (length (filter get_event tr)) * initialRetryDelay \<le> max 0 (5 - snd (None :: string option, 0 :: int)) + 2 * initialRetryDelay"
  by (rule mutation_terminates [OF sample_waiter sample_time])
    (simp add: done_at_def with_timeout_def background_def min_time_def)

text \<open>
  C34: an error of \<open>SetNonce\<close> never carries the nonce: its text is one of a fixed set that mentions the
  action, a status number or a fixed phrase, while the cause stays inspectable.
\<close>

definition public_texts :: "string \<Rightarrow> msg set" where
  "public_texts action =
     {[Txt action]} \<union> {[Txt (action @ '': ''), Num n] | n. True} \<union>
     (\<lambda>s. Txt (action @ '': '') # sentinel_text s) ` {ReplacedTarget, CtxCanceled, CtxDeadlineExceeded}"

theorem set_nonce_errors_public:
  "case SetNonce ul status_of cl c i key nonce w of
     Some (Some e, w') \<Rightarrow> err_text e \<in> public_texts setAction \<and>
       (\<exists>cause. mutate ul status_of cl c i key (Some nonce) w = Some (Some cause, w') \<and> err_is e = err_is cause)
   | _ \<Rightarrow> True"
  by (auto simp: SetNonce_def wrapMutation_def mutationMessage_def public_texts_def split: option.split)

text \<open>
  C33: the loop gives up only for a reason: a failed mutation ends with a cause that is not retryable
  (which includes the end of the context) or with a replaced target.
\<close>

theorem mutation_fails_finally:
  assumes "waiter (hc_wait cl) clock" and "mutate ul status_of cl c target key nonce w = Some (Some e, w')"
  shows "err_is e ReplacedTarget \<or> \<not> isRetryable status_of e"
proof -
  have "attempts ul status_of cl c target key nonce d u r w2 \<Longrightarrow> final_result status_of r" for d u r w2
    by (induction rule: attempts.induct)
      (auto dest: waiter.wait_class [OF assms(1)] intro: context_error_final)
  from this [OF mutate_attempts [OF assms(2)]] show ?thesis by (simp add: final_result_def)
qed

lemma mutation_fails_finally_witness: "\<not> isRetryable sample_status (status_error 404)"
proof -
  have "mutate ref_uuid sample_status sample_client background (sample_instance\<lparr>in_name := ''gone''\<rparr>) sample_key (Some ''abc'') (None, 0) =
    Some (Some (status_error 404), (None, 0))"
    by (simp add: mutate_def mutate_loop.simps mutateOnce_def scoped_def sample_client_def sample_api_def store_view_def
        isRetryable_def isConflict_def status_check_def status_error_def context_error_def)
  from mutation_fails_finally [OF sample_waiter this] show ?thesis by (simp add: status_error_def)
qed

text \<open>
  C35: a lookup returns a snapshot exactly for a fetched instance with the requested name, the requested
  or no project, a canonical UUID and a location, the sentinel \<open>none\<close> standing for the cached name of a
  standalone server; 404 is \<open>not found\<close>, and an instance that does not qualify is refused with the class
  \<open>ErrDenied\<close> only.
\<close>

theorem map_instance_exact:
  "case mapInstance ul p n x standalone of
     Inr i \<Rightarrow> \<exists>a. x = Some a \<and> n \<noteq> [] \<and> ai_name a = n \<and> ai_project a \<in> {[], p} \<and>
       NewInstanceUUID ul (configValue (ai_expanded a) volatileUUIDKey) = Inr (in_uuid i) \<and>
       in_location i = (if ai_location a = ''none'' then standalone else ai_location a) \<and> in_location i \<noteq> [] \<and>
       in_project i = p \<and> in_name i = n \<and> in_type i = ai_type a \<and> in_profiles i = put_profiles (ai_put a) \<and>
       in_cloud_init_id i = configValue (ai_expanded a) volatileCloudInitIDKey \<and>
       in_expanded_config i = copyConfig (ai_expanded a)
   | Inl e \<Rightarrow> err_is e = (\<lambda>s. s = AttestDenied) \<and>
       (\<nexists>a uuid. x = Some a \<and> n \<noteq> [] \<and> ai_name a = n \<and> ai_project a \<in> {[], p} \<and>
          NewInstanceUUID ul (configValue (ai_expanded a) volatileUUIDKey) = Inr uuid \<and>
          (if ai_location a = ''none'' then standalone else ai_location a) \<noteq> [])"
proof (cases "mapInstance ul p n x standalone")
  case (Inl e)
  have "\<nexists>i. mapInstance ul p n x standalone = Inr i" using Inl by simp
  then have "\<nexists>a uuid. x = Some a \<and> n \<noteq> [] \<and> ai_name a = n \<and> ai_project a \<in> {[], p} \<and>
      NewInstanceUUID ul (configValue (ai_expanded a) volatileUUIDKey) = Inr uuid \<and>
      (if ai_location a = ''none'' then standalone else ai_location a) \<noteq> []"
    unfolding mapInstance_Inr standaloneLocationSentinel_def by blast
  with Inl mapInstance_class [OF Inl] show ?thesis by (simp add: fun_eq_iff)
next
  case (Inr i)
  then obtain a uuid where "x = Some a" "n \<noteq> []" "ai_name a = n" "ai_project a = [] \<or> ai_project a = p"
    "NewInstanceUUID ul (configValue (ai_expanded a) volatileUUIDKey) = Inr uuid"
    "(if ai_location a = ''none'' then standalone else ai_location a) \<noteq> []"
    "i = \<lparr>in_project = p, in_name = n, in_uuid = uuid, in_type = ai_type a,
       in_location = (if ai_location a = ''none'' then standalone else ai_location a),
       in_cloud_init_id = configValue (ai_expanded a) volatileCloudInitIDKey,
       in_profiles = put_profiles (ai_put a), in_expanded_config = copyConfig (ai_expanded a)\<rparr>"
    unfolding mapInstance_Inr standaloneLocationSentinel_def by blast
  with Inr show ?thesis by (simp split del: if_split)
qed

end
