(* ===== verification/Agent.thy ===== *)
theory Agent
  imports WireCodecs Retry
begin

text \<open>
  \<open>internal/agent\<close>: the guest-side attestation service. The evidence and exchange ports are functions
  of the world; the poll loop is a \<open>partial_function\<close>, \<open>None\<close> being a poll that does not end. As for the
  server, \<open>agent_trace\<close> runs the service over ports that record every call.
\<close>

section \<open>Ports (\<open>ports.go\<close>)\<close>

text \<open>\<open>ReadConfig\<close> returns a value and \<open>found\<close>; the value is not read when \<open>found\<close> is false.\<close>

record 'w guest_evidence =
  ge_claims :: "ctx \<Rightarrow> 'w \<Rightarrow> claims result \<times> 'w"
  ge_read_config :: "ctx \<Rightarrow> string \<Rightarrow> 'w \<Rightarrow> string option result \<times> 'w"

record 'w agent_exchange =
  ax_send_payload :: "ctx \<Rightarrow> string \<Rightarrow> 'w \<Rightarrow> goerr option \<times> 'w"
  ax_receive_challenge :: "ctx \<Rightarrow> 'w \<Rightarrow> string result \<times> 'w"
  ax_send_response :: "ctx \<Rightarrow> string \<Rightarrow> 'w \<Rightarrow> goerr option \<times> 'w"

type_synonym 'w wait_func = "ctx \<Rightarrow> int \<Rightarrow> 'w \<Rightarrow> goerr option \<times> 'w"

section \<open>Service (\<open>service.go\<close>)\<close>

record 'w agent_service =
  ag_evidence :: "'w guest_evidence"
  ag_poll_timeout :: int
  ag_wait :: "'w wait_func"

text \<open>\<open>newService\<close>; a nil port or wait function is \<open>None\<close>, and \<open>real_wait\<close> is \<open>waitDuration\<close> on the world.\<close>

definition newService ::
    "'w wait_func \<Rightarrow> 'w guest_evidence option \<Rightarrow> int \<Rightarrow> 'w wait_func option \<Rightarrow> 'w agent_service result" where
  "newService real_wait evidence pollTimeout wait =
     (case evidence of
        None \<Rightarrow> Inl (Plain [Txt ''evidence is required''])
      | Some e \<Rightarrow>
          if pollTimeout \<le> 0 then Inl (Plain [Txt ''poll timeout must be positive''])
          else Inr \<lparr>ag_evidence = e, ag_poll_timeout = pollTimeout,
                 ag_wait = (case wait of None \<Rightarrow> real_wait | Some f \<Rightarrow> f)\<rparr>)"

definition New_agent :: "'w wait_func \<Rightarrow> 'w guest_evidence option \<Rightarrow> int \<Rightarrow> 'w agent_service result" where
  "New_agent real_wait evidence pollTimeout = newService real_wait evidence pollTimeout (Some real_wait)"

section \<open>Polling (\<open>poll.go\<close>)\<close>

definition initialPollDelay :: int where
  "initialPollDelay = 25 * Millisecond"

definition maxPollDelay :: int where
  "maxPollDelay = 250 * Millisecond"

definition nextPollDelay :: "int \<Rightarrow> int" where
  "nextPollDelay d = (let n = d * 2 in if n > maxPollDelay then maxPollDelay else n)"

interpretation poll_backoff: backoff nextPollDelay initialPollDelay maxPollDelay
  by unfold_locales (auto simp: nextPollDelay_def initialPollDelay_def maxPollDelay_def Millisecond_def)

definition wrapReadConfig :: "goerr \<Rightarrow> goerr" where
  "wrapReadConfig e = SecretSafe [Txt ''read challenge config''] e"

definition isRetryable_agent :: "goerr \<Rightarrow> bool" where
  "isRetryable_agent e \<longleftrightarrow> err_as node_timeout e = Some True \<or> err_as node_temporary e = Some True"

text \<open>One pass of the loop over a read: what it returns, or \<open>None\<close> to wait and read again.\<close>

definition poll_verdict :: "string option result \<Rightarrow> string result option" where
  "poll_verdict r =
     (case r of
        Inl e \<Rightarrow>
          if context_error e then Some (Inl (wrapReadConfig e))
          else if \<not> isRetryable_agent e then Some (Inl (wrapReadConfig e))
          else None
      | Inr (Some value) \<Rightarrow> Some (Inr value)
      | Inr None \<Rightarrow> None)"

definition poll_wait_error :: "ctx \<Rightarrow> int \<Rightarrow> goerr \<Rightarrow> goerr" where
  "poll_wait_error pollCtx now e =
     (case ctx_err pollCtx now of
        Some cause \<Rightarrow> Wrapf [Txt ''poll config: ''] cause []
      | None \<Rightarrow> Wrapf [Txt ''poll config: ''] e [])"

partial_function (option) poll_loop ::
    "('w \<Rightarrow> int) \<Rightarrow> 'w agent_service \<Rightarrow> ctx \<Rightarrow> string \<Rightarrow> int \<Rightarrow> 'w \<Rightarrow> (string result \<times> 'w) option" where
  [code]: "poll_loop clock s pollCtx key delay w =
     (case ge_read_config (ag_evidence s) pollCtx key w of
        (read, w1) \<Rightarrow>
          (case poll_verdict read of
             Some r \<Rightarrow> Some (r, w1)
           | None \<Rightarrow>
              (case ag_wait s pollCtx delay w1 of
                 (Some e, w2) \<Rightarrow> Some (Inl (poll_wait_error pollCtx (clock w2) e), w2)
               | (None, w2) \<Rightarrow> poll_loop clock s pollCtx key (nextPollDelay delay) w2)))"

definition pollConfig ::
    "('w \<Rightarrow> int) \<Rightarrow> 'w agent_service \<Rightarrow> ctx \<Rightarrow> string \<Rightarrow> 'w \<Rightarrow> (string result \<times> 'w) option" where
  "pollConfig clock s c key w =
     poll_loop clock s (with_timeout c (clock w) (ag_poll_timeout s)) key initialPollDelay w"

section \<open>Attestation\<close>

text \<open>The end of \<open>Attest\<close>: the polled value is parsed and answered.\<close>

definition answer_challenge ::
    "'w agent_exchange \<Rightarrow> ctx \<Rightarrow> string \<Rightarrow> 'w \<Rightarrow> goerr option \<times> 'w" where
  "answer_challenge ex c value w =
     (case ParseNonce value of
        Inl e \<Rightarrow> (Some (Wrapf [Txt ''parse nonce: ''] e []), w)
      | Inr nonce \<Rightarrow>
         (case EncodeResponse nonce of
            Inl e \<Rightarrow> (Some (Wrapf [Txt ''encode response: ''] e []), w)
          | Inr response \<Rightarrow>
             (case ax_send_response ex c response w of
                (Some e, w1) \<Rightarrow> (Some (Wrapf [Txt ''send response: ''] e []), w1)
              | (None, w1) \<Rightarrow> (None, w1))))"

text \<open>The start of \<open>Attest\<close>, up to the key of a valid challenge.\<close>

definition receive_key ::
    "uuid_lib \<Rightarrow> 'w agent_service \<Rightarrow> ctx \<Rightarrow> 'w agent_exchange \<Rightarrow> 'w \<Rightarrow> string result \<times> 'w" where
  "receive_key ul s c ex w =
     (case ge_claims (ag_evidence s) c w of
        (Inl e, w1) \<Rightarrow> (Inl (Wrapf [Txt ''read guest claims: ''] e []), w1)
      | (Inr claims, w1) \<Rightarrow>
         (case ValidateClaims ul claims of
            Some e \<Rightarrow> (Inl (Wrapf [Txt ''validate guest claims: ''] e []), w1)
          | None \<Rightarrow>
             (case EncodePayload ul claims of
                Inl e \<Rightarrow> (Inl (Wrapf [Txt ''encode payload: ''] e []), w1)
              | Inr payload \<Rightarrow>
                 (case ax_send_payload ex c payload w1 of
                    (Some e, w2) \<Rightarrow> (Inl (Wrapf [Txt ''send payload: ''] e []), w2)
                  | (None, w2) \<Rightarrow>
                     (case ax_receive_challenge ex c w2 of
                        (Inl e, w3) \<Rightarrow> (Inl (Wrapf [Txt ''receive challenge: ''] e []), w3)
                      | (Inr challenge, w3) \<Rightarrow>
                         (case DecodeChallenge challenge of
                            Inl e \<Rightarrow> (Inl (Wrapf [Txt ''decode challenge: ''] e []), w3)
                          | Inr key \<Rightarrow> (Inr key, w3)))))))"

definition Attest_agent ::
    "uuid_lib \<Rightarrow> ('w \<Rightarrow> int) \<Rightarrow> 'w agent_service \<Rightarrow> ctx \<Rightarrow> 'w agent_exchange option \<Rightarrow> 'w \<Rightarrow> (goerr option \<times> 'w) option" where
  "Attest_agent ul clock s c exchange w =
     (case exchange of
        None \<Rightarrow> Some (Some (Plain [Txt ''exchange is required'']), w)
      | Some ex \<Rightarrow>
         (case receive_key ul s c ex w of
            (Inl e, w1) \<Rightarrow> Some (Some e, w1)
          | (Inr key, w1) \<Rightarrow>
             (case pollConfig clock s c key w1 of
                None \<Rightarrow> None
              | Some (Inl e, w2) \<Rightarrow> Some (Some e, w2)
              | Some (Inr value, w2) \<Rightarrow> Some (answer_challenge ex c value w2))))"

section \<open>Recorded calls\<close>

datatype agent_event =
    EvClaims "claims result"
  | EvSendPayload string "goerr option"
  | EvReceived "string result"
  | EvRead ctx string "string option result"
  | EvPollWait ctx int "goerr option"
  | EvRespond string "goerr option"

type_synonym 'w agent_world = "('w, agent_event) recorded"

definition log_evidence :: "'w guest_evidence \<Rightarrow> 'w agent_world guest_evidence" where
  "log_evidence ev =
     \<lparr>ge_claims = (\<lambda>c. record_call EvClaims (ge_claims ev c)),
      ge_read_config = (\<lambda>c k. record_call (EvRead c k) (ge_read_config ev c k))\<rparr>"

definition log_agent_exchange :: "'w agent_exchange \<Rightarrow> 'w agent_world agent_exchange" where
  "log_agent_exchange ex =
     \<lparr>ax_send_payload = (\<lambda>c p. record_call (EvSendPayload p) (ax_send_payload ex c p)),
      ax_receive_challenge = (\<lambda>c. record_call EvReceived (ax_receive_challenge ex c)),
      ax_send_response = (\<lambda>c r. record_call (EvRespond r) (ax_send_response ex c r))\<rparr>"

definition log_agent :: "'w agent_service \<Rightarrow> 'w agent_world agent_service" where
  "log_agent s =
     \<lparr>ag_evidence = log_evidence (ag_evidence s), ag_poll_timeout = ag_poll_timeout s,
      ag_wait = (\<lambda>c d. record_call (EvPollWait c d) (ag_wait s c d))\<rparr>"

lemmas agent_log_simps = log_evidence_def log_agent_exchange_def log_agent_def

definition agent_trace ::
    "uuid_lib \<Rightarrow> ('w \<Rightarrow> int) \<Rightarrow> 'w agent_service \<Rightarrow> ctx \<Rightarrow> 'w agent_exchange \<Rightarrow> 'w \<Rightarrow>
     (goerr option \<times> agent_event list) option" where
  "agent_trace ul clock s c ex w =
     map_option (\<lambda>(r, wt). (r, snd wt))
       (Attest_agent ul (clock \<circ> fst) (log_agent s) c (Some (log_agent_exchange ex)) (w, []))"

text \<open>
  The polls allowed for a key under the poll context, the delay before the next wait and the result:
  reads of that key only, a wait after each read that was invisible or failed transiently, with the
  delays of the backoff.
\<close>

definition keep_polling :: "string option result \<Rightarrow> bool" where
  "keep_polling read \<longleftrightarrow>
     (case read of Inr None \<Rightarrow> True | Inr (Some _) \<Rightarrow> False | Inl e \<Rightarrow> \<not> context_error e \<and> isRetryable_agent e)"

inductive poll_run :: "ctx \<Rightarrow> string \<Rightarrow> int \<Rightarrow> agent_event list \<Rightarrow> string result \<Rightarrow> bool" for c key where
  found: "poll_run c key d [EvRead c key (Inr (Some v))] (Inr v)"
| failed: "\<not> keep_polling (Inl e) \<Longrightarrow> poll_run c key d [EvRead c key (Inl e)] (Inl (wrapReadConfig e))"
| stopped: "keep_polling read \<Longrightarrow>
     poll_run c key d [EvRead c key read, EvPollWait c d (Some e)] (Inl (poll_wait_error c now e))"
| polled: "keep_polling read \<Longrightarrow> poll_run c key (nextPollDelay d) evs r \<Longrightarrow>
     poll_run c key d (EvRead c key read # EvPollWait c d None # evs) r"

lemma poll_verdict_None: "poll_verdict read = None \<longleftrightarrow> keep_polling read"
  by (auto simp: poll_verdict_def keep_polling_def split: sum.split option.split)

lemma poll_decided: "poll_verdict read = Some r \<Longrightarrow> poll_run c key d [EvRead c key read] r"
  by (auto simp: poll_verdict_def keep_polling_def intro!: poll_run.intros split: sum.splits option.splits if_splits)

lemma poll_loop_log:
  assumes "poll_loop (clock \<circ> fst) (log_agent s) pollCtx key d wt = Some y"
  shows "\<exists>evs. snd (snd y) = snd wt @ evs \<and> poll_run pollCtx key d evs (fst y) \<and>
    poll_loop clock s pollCtx key d (fst wt) = Some (fst y, fst (snd y))"
proof -
  have "\<forall>clock s. clk = clock \<circ> fst \<longrightarrow> ls = log_agent s \<longrightarrow>
      (\<exists>evs. snd (snd y) = snd wt @ evs \<and> poll_run pollCtx key d evs (fst y) \<and>
       poll_loop clock s pollCtx key d (fst wt) = Some (fst y, fst (snd y)))"
    if "poll_loop clk ls pollCtx key d wt = Some y" for clk and ls :: "'a agent_world agent_service" and pollCtx key d wt y
  proof (rule poll_loop.raw_induct [where P = "\<lambda>clk ls pollCtx key d wt y. \<forall>clock s. clk = clock \<circ> fst \<longrightarrow> ls = log_agent s \<longrightarrow>
      (\<exists>evs. snd (snd y) = snd wt @ evs \<and> poll_run pollCtx key d evs (fst y) \<and>
       poll_loop clock s pollCtx key d (fst wt) = Some (fst y, fst (snd y)))", OF _ that], intro allI impI, goal_cases)
    case (1 loop clk ls pollCtx key d wt y clock s)
    obtain w tr where wt: "wt = (w, tr)" by fastforce
    obtain read w1 where read: "ge_read_config (ag_evidence s) pollCtx key w = (read, w1)" by fastforce
    then have lread: "ge_read_config (ag_evidence ls) pollCtx key wt = (read, (w1, tr @ [EvRead pollCtx key read]))"
      using wt 1(4) by (simp add: agent_log_simps)
    note body = 1(2) [unfolded lread prod.case]
    show ?case
    proof (cases "poll_verdict read")
      case (Some r)
      with body wt read poll_decided [OF Some] show ?thesis
        by (intro exI [of _ "[EvRead pollCtx key read]"]) (auto simp: poll_loop.simps [of clock])
    next
      case None
      obtain e w2 where wait: "ag_wait s pollCtx d w1 = (e, w2)" by fastforce
      then have lwait: "ag_wait ls pollCtx d (w1, tr @ [EvRead pollCtx key read]) =
          (e, (w2, tr @ [EvRead pollCtx key read, EvPollWait pollCtx d e]))"
        using 1(4) by (simp add: agent_log_simps)
      show ?thesis
      proof (cases e)
        case e: (Some x)
        with body None lwait 1(3) have "y = (Inl (poll_wait_error pollCtx (clock w2) x),
            (w2, tr @ [EvRead pollCtx key read, EvPollWait pollCtx d (Some x)]))" by simp
        with None wt read wait e stopped [OF None [unfolded poll_verdict_None]] show ?thesis
          by (intro exI [of _ "[EvRead pollCtx key read, EvPollWait pollCtx d (Some x)]"])
            (simp add: poll_loop.simps [of clock])
      next
        case e: None
        with body None lwait have
          "loop clk ls pollCtx key (nextPollDelay d) (w2, tr @ [EvRead pollCtx key read, EvPollWait pollCtx d None]) = Some y" by simp
        from 1(1) [OF this] 1(3,4) obtain evs where "snd (snd y) = (tr @ [EvRead pollCtx key read, EvPollWait pollCtx d None]) @ evs"
          "poll_run pollCtx key (nextPollDelay d) evs (fst y)"
          "poll_loop clock s pollCtx key (nextPollDelay d) w2 = Some (fst y, fst (snd y))" by auto
        with None wt read wait e polled [OF None [unfolded poll_verdict_None]] show ?thesis
          by (intro exI [of _ "EvRead pollCtx key read # EvPollWait pollCtx d None # evs"])
            (simp add: poll_loop.simps [of clock])
      qed
    qed
  qed
  from this [OF assms] show ?thesis by blast
qed

section \<open>Termination\<close>

definition poll_step :: "'w agent_service \<Rightarrow> ctx \<Rightarrow> string \<Rightarrow> 'w \<Rightarrow> string result option \<times> 'w" where
  "poll_step s c key w = (let (read, w1) = ge_read_config (ag_evidence s) c key w in (poll_verdict read, w1))"

interpretation polling: retry_loop nextPollDelay initialPollDelay maxPollDelay
    "poll_step s c key" "ag_wait s" c "\<lambda>e w. Inl (poll_wait_error c (clock w) e)" "poll_loop clock s c key"
  for s c key clock
  by unfold_locales (subst poll_loop.simps, simp add: poll_step_def split: prod.split option.split)

text \<open>The reads of the evidence take time, never negative.\<close>

definition reads_take_time :: "('w \<Rightarrow> int) \<Rightarrow> 'w guest_evidence \<Rightarrow> bool" where
  "reads_take_time clock ev \<longleftrightarrow> (\<forall>c key w. clock w \<le> clock (snd (ge_read_config ev c key w)))"

text \<open>The reads and the waits heed their context: they end at most \<open>latency\<close> after it does.\<close>

definition calls_end :: "int \<Rightarrow> ('w \<Rightarrow> int) \<Rightarrow> 'w agent_service \<Rightarrow> bool" where
  "calls_end latency clock s \<longleftrightarrow>
     (\<forall>c D. done_at c = Some D \<longrightarrow>
        (\<forall>key w. clock (snd (ge_read_config (ag_evidence s) c key w)) \<le> max (clock w) D + latency) \<and>
        (\<forall>d w. clock (snd (ag_wait s c d w)) \<le> max (clock w) D + latency))"

fun read_event :: "agent_event \<Rightarrow> bool" where
  "read_event (EvRead _ _ _) = True"
| "read_event _ = False"

lemma log_agent_waiter: "waiter (ag_wait s) clock \<Longrightarrow> waiter (ag_wait (log_agent s)) (clock \<circ> fst)"
  by (simp add: log_agent_def record_waiter)

lemma done_at_with_timeout: "\<exists>D. done_at (with_timeout c now d) = Some D \<and> D \<le> now + d"
  by (auto simp: done_at_def with_timeout_def min_time_def split: option.split)

lemma poll_loop_bounded:
  assumes wait: "waiter (ag_wait s) clock" and time: "reads_take_time clock (ag_evidence s)"
    and deadline: "done_at c = Some D"
  shows "\<exists>r w' evs. poll_loop (clock \<circ> fst) (log_agent s) c key initialPollDelay (w, tr) = Some (r, (w', tr @ evs)) \<and>
    int (length (filter read_event evs)) * initialPollDelay \<le>
      (if D \<le> clock w then initialPollDelay else D - clock w + 2 * initialPollDelay)"
proof -
  let ?cost = "\<lambda>wt :: 'a agent_world. int (length (filter read_event (snd wt)))"
  let ?step = "poll_step (log_agent s) c key"
  have step: "?step wt = (poll_verdict (fst (ge_read_config (ag_evidence s) c key (fst wt))),
      (snd (ge_read_config (ag_evidence s) c key (fst wt)), snd wt @ [EvRead c key (fst (ge_read_config (ag_evidence s) c key (fst wt)))]))" for wt
    by (cases wt) (simp add: poll_step_def agent_log_simps)
  have t: "(clock \<circ> fst) wt \<le> (clock \<circ> fst) (snd (?step wt))" for wt
    using time by (simp add: step reads_take_time_def)
  have w: "?cost (snd (ag_wait (log_agent s) c d wt)) = ?cost wt" for d wt
    by (cases wt) (simp add: log_agent_def)
  from polling.returns_within_deadline [of "log_agent s" "clock \<circ> fst" c key D ?cost initialPollDelay "clock \<circ> fst" "(w, tr)",
      OF log_agent_waiter [OF wait] t deadline _ w] poll_backoff.first_cap
  obtain r wt' where run: "poll_loop (clock \<circ> fst) (log_agent s) c key initialPollDelay (w, tr) = Some (r, wt')"
    "(?cost wt' - ?cost (w, tr)) * initialPollDelay \<le>
      (if D \<le> clock w then initialPollDelay else D - clock w + 2 * initialPollDelay)"
    by (auto simp: step cong: if_cong)
  from poll_loop_log [OF run(1)] obtain evs where "snd wt' = tr @ evs" by auto
  with run show ?thesis by (cases wt') auto
qed

lemma pollConfig_ends:
  assumes wait: "waiter (ag_wait s) clock" and time: "reads_take_time clock (ag_evidence s)"
    and "0 \<le> latency" "calls_end latency clock s" "0 < ag_poll_timeout s"
  shows "\<exists>res w'. pollConfig clock s c key w = Some (res, w') \<and> clock w' \<le> clock w + ag_poll_timeout s + 3 * latency"
proof -
  let ?c = "with_timeout c (clock w) (ag_poll_timeout s)"
  obtain D where D: "done_at ?c = Some D" "D \<le> clock w + ag_poll_timeout s" using done_at_with_timeout by blast
  have step: "poll_step s ?c key v =
      (poll_verdict (fst (ge_read_config (ag_evidence s) ?c key v)), snd (ge_read_config (ag_evidence s) ?c key v))" for v
    by (simp add: poll_step_def split: prod.split)
  have t: "clock v \<le> clock (snd (poll_step s ?c key v))" for v using time by (simp add: step reads_take_time_def)
  have late: "clock (snd (poll_step s ?c key v)) \<le> max (clock v) D + latency"
    "clock (snd (ag_wait s ?c d v)) \<le> max (clock v) D + latency" for d v
    using assms(4) D(1) by (simp_all add: step calls_end_def)
  obtain res w' where run: "poll_loop clock s ?c key initialPollDelay w = Some (res, w')"
    using polling.returns_within_deadline [of s clock ?c key D "\<lambda>_. 0" initialPollDelay clock w, OF wait t D(1)]
      poll_backoff.first_cap by auto
  have "clock w' \<le> (if clock w \<le> D then D + 3 * latency else clock w + 2 * latency)"
    by (rule polling.returns_in_time [OF wait t D(1) late assms(3) order.refl poll_backoff.first_cap run])
  with D(2) assms(3,5) run show ?thesis by (auto simp: pollConfig_def split: if_splits)
qed

section \<open>The protocol of the agent\<close>

text \<open>
  A run ends before any configuration is read, or it has sent the payload of valid claims, received a
  valid challenge and polled its key; the response carries the nonce the poll found.
\<close>

definition agent_protocol :: "uuid_lib \<Rightarrow> goerr option \<Rightarrow> agent_event list \<Rightarrow> bool" where
  "agent_protocol ul r tr \<longleftrightarrow>
     r \<noteq> None \<and> \<not> list_ex (\<lambda>e. case e of EvRead _ _ _ \<Rightarrow> True | EvPollWait _ _ _ \<Rightarrow> True | EvRespond _ _ \<Rightarrow> True | _ \<Rightarrow> False) tr \<or>
     (\<exists>claims payload msg key pollCtx polls res tail.
        tr = [EvClaims (Inr claims), EvSendPayload payload None, EvReceived (Inr msg)] @ polls @ tail \<and>
        ValidateClaims ul claims = None \<and> EncodePayload ul claims = Inr payload \<and> DecodeChallenge msg = Inr key \<and>
        poll_run pollCtx key initialPollDelay polls res \<and>
        (case res of
           Inl e \<Rightarrow> r = Some e \<and> tail = []
         | Inr value \<Rightarrow>
            (case ParseNonce value of
               Inl _ \<Rightarrow> r \<noteq> None \<and> tail = []
             | Inr nonce \<Rightarrow> \<exists>response e. EncodeResponse nonce = Inr response \<and> tail = [EvRespond response e] \<and> (r = None \<longleftrightarrow> e = None))))"

lemma agent_protocol_polled:
  assumes "ValidateClaims ul claims = None" "EncodePayload ul claims = Inr payload" "DecodeChallenge msg = Inr key"
    and "poll_run pollCtx key initialPollDelay polls res"
    and "case res of
           Inl e \<Rightarrow> r = Some e \<and> tail = []
         | Inr value \<Rightarrow>
            (case ParseNonce value of
               Inl _ \<Rightarrow> r \<noteq> None \<and> tail = []
             | Inr nonce \<Rightarrow> \<exists>response e. EncodeResponse nonce = Inr response \<and> tail = [EvRespond response e] \<and> (r = None \<longleftrightarrow> e = None))"
  shows "agent_protocol ul r ([EvClaims (Inr claims), EvSendPayload payload None, EvReceived (Inr msg)] @ polls @ tail)"
  unfolding agent_protocol_def using assms by (intro disjI2 exI conjI) (rule refl | assumption)+

lemma receive_key_events:
  assumes "receive_key ul (log_agent s) c (log_agent_exchange ex) (w, []) = (r, (w', tr))"
  shows "case r of
      Inl e \<Rightarrow> \<not> list_ex (\<lambda>e. case e of EvRead _ _ _ \<Rightarrow> True | EvPollWait _ _ _ \<Rightarrow> True | EvRespond _ _ \<Rightarrow> True | _ \<Rightarrow> False) tr
    | Inr key \<Rightarrow> \<exists>claims payload msg. tr = [EvClaims (Inr claims), EvSendPayload payload None, EvReceived (Inr msg)] \<and>
        ValidateClaims ul claims = None \<and> EncodePayload ul claims = Inr payload \<and> DecodeChallenge msg = Inr key"
  using assms
  by (auto simp: receive_key_def agent_log_simps split: prod.splits sum.splits option.splits)

lemma same_receive_key: "same_run (receive_key ul (log_agent s) c (log_agent_exchange ex)) (receive_key ul s c ex)"
  by (auto simp: same_run_def receive_key_def agent_log_simps split: prod.split sum.split option.split)

lemma answer_events:
  assumes "answer_challenge (log_agent_exchange ex) c value (w, tr) = (r, (w', tr'))"
  shows "case ParseNonce value of
      Inl _ \<Rightarrow> r \<noteq> None \<and> tr' = tr
    | Inr nonce \<Rightarrow> \<exists>response e. EncodeResponse nonce = Inr response \<and> tr' = tr @ [EvRespond response e] \<and> (r = None \<longleftrightarrow> e = None)"
proof (cases "ParseNonce value")
  case (Inr nonce)
  then have "length nonce = 16" by (simp add: ParseNonce_Inr)
  then obtain response where "EncodeResponse nonce = Inr response" by (rule EncodeResponse_ok)
  with assms Inr show ?thesis
    by (auto simp: answer_challenge_def agent_log_simps split: prod.splits option.splits)
qed (use assms in \<open>auto simp: answer_challenge_def\<close>)

lemma same_answer: "same_run (answer_challenge (log_agent_exchange ex) c value) (answer_challenge ex c value)"
  by (auto simp: same_run_def answer_challenge_def agent_log_simps split: prod.split sum.split option.split)

lemma Attest_agent_log:
  assumes "Attest_agent ul (clock \<circ> fst) (log_agent s) c (Some (log_agent_exchange ex)) (w, []) = Some (r, (w', tr))"
  shows "agent_protocol ul r tr \<and> Attest_agent ul clock s c (Some ex) w = Some (r, w')"
proof -
  obtain k w1 tr1 where key: "receive_key ul (log_agent s) c (log_agent_exchange ex) (w, []) = (k, (w1, tr1))"
    "receive_key ul s c ex w = (k, w1)"
    by (rule same_runE [OF same_receive_key])
  note evs = receive_key_events [OF key(1)]
  show ?thesis
  proof (cases k)
    case (Inl e)
    with assms key evs show ?thesis by (auto simp: Attest_agent_def agent_protocol_def)
  next
    case k: (Inr key')
    from assms key(1) k obtain y where poll: "pollConfig (clock \<circ> fst) (log_agent s) c key' (w1, tr1) = Some y"
      by (auto simp: Attest_agent_def split: option.splits)
    obtain pr w2 tr2 where y: "y = (pr, (w2, tr2))" by (metis surj_pair)
    from poll poll_loop_log obtain polls where polls: "tr2 = tr1 @ polls"
      "poll_run (with_timeout c (clock w1) (ag_poll_timeout s)) key' initialPollDelay polls pr"
      "pollConfig clock s c key' w1 = Some (pr, w2)"
      unfolding pollConfig_def y by (fastforce simp: log_agent_def)
    from evs k obtain claims payload msg where
      head: "tr1 = [EvClaims (Inr claims), EvSendPayload payload None, EvReceived (Inr msg)]" "ValidateClaims ul claims = None"
        "EncodePayload ul claims = Inr payload" "DecodeChallenge msg = Inr key'" by auto
    show ?thesis
    proof (cases pr)
      case (Inl e)
      with assms key k poll y have "r = Some e" "w' = w2" "tr = tr2" by (simp_all add: Attest_agent_def)
      with agent_protocol_polled [OF head(2-4) polls(2), of r "[]"] Inl head(1) polls(1) have "agent_protocol ul r tr" by simp
      with \<open>r = Some e\<close> \<open>w' = w2\<close> Inl key k polls(3) show ?thesis by (simp add: Attest_agent_def)
    next
      case (Inr v)
      obtain r3 w3 tr3 where ans: "answer_challenge (log_agent_exchange ex) c v (w2, tr2) = (r3, (w3, tr3))"
        "answer_challenge ex c v w2 = (r3, w3)"
        by (rule same_runE [OF same_answer])
      with assms key k poll y Inr have fin: "r = r3" "w' = w3" "tr = tr3" by (simp_all add: Attest_agent_def)
      from answer_events [OF ans(1)] polls(1) obtain tail where tail: "tr3 = tr1 @ polls @ tail"
        "case ParseNonce v of Inl _ \<Rightarrow> r3 \<noteq> None \<and> tail = []
         | Inr nonce \<Rightarrow> \<exists>response e. EncodeResponse nonce = Inr response \<and> tail = [EvRespond response e] \<and> (r3 = None \<longleftrightarrow> e = None)"
        by (cases "ParseNonce v") auto
      with agent_protocol_polled [OF head(2-4) polls(2), of r3 tail] Inr head(1) fin have "agent_protocol ul r tr" by simp
      with fin ans(2) Inr key k polls(3) show ?thesis by (simp add: Attest_agent_def)
    qed
  qed
qed

section \<open>The contract of the evidence port\<close>

text \<open>
  Evidence whose claims are already valid, as the guest adapter provides: the check of the service never
  refuses them, so an attempt with such evidence fails later or not at all.
\<close>

locale valid_evidence =
  fixes ev :: "'w guest_evidence" and ul :: uuid_lib
  assumes claims_valid: "ge_claims ev c w = (Inr cl, w') \<Longrightarrow> ValidateClaims ul cl = None"
begin

lemma claims_not_refused:
  "ag_evidence s = ev \<Longrightarrow> fst (receive_key ul s c ex w) \<noteq> Inl (Wrapf [Txt ''validate guest claims: ''] e [])"
  using claims_valid by (auto simp: receive_key_def split: prod.split sum.split option.split)

lemma payload_of_claims:
  assumes "ag_evidence s = ev" "ge_claims ev c w = (Inr cl, w1)" "EncodePayload ul cl = Inr payload"
    "ax_send_payload ex c payload w1 = (None, w2)" "ax_receive_challenge ex c w2 = (Inr msg, w3)"
  shows "receive_key ul s c ex w =
    (case DecodeChallenge msg of Inl e \<Rightarrow> Inl (Wrapf [Txt ''decode challenge: ''] e []) | Inr key \<Rightarrow> Inr key, w3)"
  using assms claims_valid by (simp add: receive_key_def split: sum.split)

end

section \<open>A sample guest\<close>

text \<open>
  The world is the time; the nonce becomes visible after 40 ms, and an early read may fail transiently.
\<close>

definition sample_evidence :: "int guest_evidence" where
  "sample_evidence =
     \<lparr>ge_claims = (\<lambda>c t. (Inr sample_claims, t)),
      ge_read_config = (\<lambda>c k t. (if t < 20 * Millisecond then Inl (Transient [] None True)
         else if t < 40 * Millisecond then Inr None else Inr (Some (b64_encode sample_nonce)), t))\<rparr>"

definition sample_agent :: "int agent_service" where
  "sample_agent = \<lparr>ag_evidence = sample_evidence, ag_poll_timeout = 10 * Second, ag_wait = waitDuration\<rparr>"

definition sample_agent_exchange :: "int agent_exchange" where
  "sample_agent_exchange =
     \<lparr>ax_send_payload = (\<lambda>c p t. (None, t)), ax_receive_challenge = (\<lambda>c t. (Inr [], t)),
      ax_send_response = (\<lambda>c r t. (None, t))\<rparr>"

lemma sample_agent_laws:
  "waiter (ag_wait sample_agent) (\<lambda>t. t)" "reads_take_time (\<lambda>t. t) (ag_evidence sample_agent)" "0 < ag_poll_timeout sample_agent"
  using timer.waiter_axioms
  by (simp_all add: sample_agent_def reads_take_time_def sample_evidence_def Second_def)

section \<open>Properties\<close>

text \<open>
  C6: the agent follows its protocol: it reads no configuration before it has sent the payload of valid
  claims and received a challenge with a valid key; it reads that key only, waits between reads by the
  backoff and only after a read that was invisible or failed transiently; it answers once, with the
  nonce it read, and returns nil exactly when the answer was sent. Recording the calls changes nothing.
\<close>

theorem agent_follows_protocol:
  "case agent_trace ul clock s c ex w of
     None \<Rightarrow> True
   | Some (r, tr) \<Rightarrow> agent_protocol ul r tr \<and> (\<exists>w'. Attest_agent ul clock s c (Some ex) w = Some (r, w'))"
proof (cases "Attest_agent ul (clock \<circ> fst) (log_agent s) c (Some (log_agent_exchange ex)) (w, [])")
  case (Some y)
  obtain r w' tr where "y = (r, (w', tr))" by (metis surj_pair)
  with Some Attest_agent_log [of ul clock s c ex w r w' tr] show ?thesis by (simp add: agent_trace_def)
qed (simp add: agent_trace_def)

text \<open>
  C13: the attestation of the agent returns: over a wait function that takes its time and reads that do
  not turn the clock back, it ends after at most timeout / 25ms + 2 reads of the configuration. When,
  moreover, each read and each wait ends at most \<open>latency\<close> after the context it is given, the poll ends
  within the poll timeout of its start, late by at most three times that latency.
\<close>

theorem agent_returns:
  assumes "waiter (ag_wait s) clock" and "reads_take_time clock (ag_evidence s)" and "0 < ag_poll_timeout s"
  shows "(\<exists>r tr. agent_trace ul clock s c ex w = Some (r, tr) \<and>
      int (length (filter read_event tr)) * initialPollDelay \<le> ag_poll_timeout s + 2 * initialPollDelay) \<and>
    (\<forall>latency key v. 0 \<le> latency \<longrightarrow> calls_end latency clock s \<longrightarrow>
      (\<exists>res v'. pollConfig clock s c key v = Some (res, v') \<and> clock v' \<le> clock v + ag_poll_timeout s + 3 * latency))"
proof (intro conjI allI impI)
  show "\<exists>res v'. pollConfig clock s c key v = Some (res, v') \<and> clock v' \<le> clock v + ag_poll_timeout s + 3 * latency"
    if "0 \<le> latency" "calls_end latency clock s" for latency key v
    by (rule pollConfig_ends [OF assms(1,2) that assms(3)])
next
  let ?few = "\<exists>r tr. agent_trace ul clock s c ex w = Some (r, tr) \<and>
      int (length (filter read_event tr)) * initialPollDelay \<le> ag_poll_timeout s + 2 * initialPollDelay"
  obtain k w1 tr1 where key: "receive_key ul (log_agent s) c (log_agent_exchange ex) (w, []) = (k, (w1, tr1))"
    by (metis surj_pair)
  note evs = receive_key_events [OF key]
  have pos: "0 < initialPollDelay" by (rule poll_backoff.first_pos)
  have none: "\<not> list_ex (\<lambda>e. case e of EvRead _ _ _ \<Rightarrow> True | EvPollWait _ _ _ \<Rightarrow> True | EvRespond _ _ \<Rightarrow> True | _ \<Rightarrow> False) tr \<Longrightarrow>
      filter read_event tr = []" for tr by (induction tr) (auto split: agent_event.splits)
  show ?few
  proof (cases k)
    case (Inl e)
    with evs none [of tr1] have "filter read_event tr1 = []" by simp
    with key Inl pos assms(3) show ?few by (simp add: agent_trace_def Attest_agent_def)
  next
    case k: (Inr key')
    obtain D where D: "done_at (with_timeout c (clock w1) (ag_poll_timeout s)) = Some D" "D \<le> clock w1 + ag_poll_timeout s"
      using done_at_with_timeout by blast
    from evs k have "filter read_event tr1 = []" by auto
    with poll_loop_bounded [OF assms(1,2) D(1), of key' w1 tr1] obtain pr w2 polls where
      poll: "pollConfig (clock \<circ> fst) (log_agent s) c key' (w1, tr1) = Some (pr, (w2, tr1 @ polls))"
      and few: "int (length (filter read_event (tr1 @ polls))) * initialPollDelay \<le>
        (if D \<le> clock w1 then initialPollDelay else D - clock w1 + 2 * initialPollDelay)"
      by (auto simp: pollConfig_def log_agent_def)
    then have le: "int (length (filter read_event (tr1 @ polls))) * initialPollDelay \<le> ag_poll_timeout s + 2 * initialPollDelay"
      using D(2) pos assms(3) by (cases "D \<le> clock w1"; simp only: if_True if_False; linarith)
    show ?few
    proof (cases pr)
      case (Inl e)
      with key k poll le show ?few by (simp add: agent_trace_def Attest_agent_def)
    next
      case (Inr v)
      obtain r3 w3 tr3 where ans: "answer_challenge (log_agent_exchange ex) c v (w2, tr1 @ polls) = (r3, (w3, tr3))"
        by (metis surj_pair)
      from answer_events [OF ans] have "filter read_event tr3 = filter read_event (tr1 @ polls)"
        by (auto split: sum.splits)
      with key k poll le Inr ans show ?few by (simp add: agent_trace_def Attest_agent_def)
    qed
  qed
qed

lemma agent_returns_witness:
  "(\<exists>r tr. agent_trace ref_uuid (\<lambda>t. t) sample_agent background sample_agent_exchange 0 = Some (r, tr) \<and>
      int (length (filter read_event tr)) * initialPollDelay \<le> ag_poll_timeout sample_agent + 2 * initialPollDelay) \<and>
    (\<exists>res t. pollConfig (\<lambda>t. t) sample_agent background sample_key 5 = Some (res, t) \<and> t \<le> 5 + 10 * Second)"
proof -
  note ends = agent_returns [OF sample_agent_laws, where ul = ref_uuid and c = background and ex = sample_agent_exchange and w = 0]
  have "calls_end 0 (\<lambda>t. t) sample_agent"
    by (auto simp: calls_end_def sample_agent_def sample_evidence_def waitDuration_def Let_def reached_def)
  with ends [THEN conjunct2, rule_format, of 0 sample_key 5] ends [THEN conjunct1]
  show ?thesis by (simp add: sample_agent_def)
qed

text \<open>
  A poll that fails says nothing of the key or of the value: the text is one of four fixed ones. The
  cause stays inspectable, and it is the end of the context or a read error that is not transient.
\<close>

lemma poll_errors_public:
  assumes "waiter (ag_wait s) clock" and "pollConfig clock s c key w = Some (Inl e, w')"
  shows "err_text e \<in> {[Txt ''read challenge config'']} \<union>
      (\<lambda>x. Txt ''poll config: '' # sentinel_text x) ` {CtxCanceled, CtxDeadlineExceeded} \<and>
    (context_error e \<or> \<not> isRetryable_agent e)"
proof -
  have wrap: "isRetryable_agent (wrapReadConfig x) = isRetryable_agent x" "context_error (wrapReadConfig x) = context_error x"
      "context_error (Wrapf a x b) = context_error x" for a b x
    by (simp_all add: isRetryable_agent_def wrapReadConfig_def context_error_def)
  have cancelled: "x \<in> {Sentinel CtxCanceled, Sentinel CtxDeadlineExceeded}" if "ctx_err k t = Some x" for k t x
    using that by (auto simp: ctx_err_def split: if_splits)
  have "case fst y of Inr _ \<Rightarrow> True | Inl e \<Rightarrow> (\<exists>x. e = wrapReadConfig x \<and> (context_error x \<or> \<not> isRetryable_agent x)) \<or>
      (\<exists>k t x. ctx_err k t = Some x \<and> e = Wrapf [Txt ''poll config: ''] x [])"
    if "poll_loop clk sv k key d w = Some y" and "waiter (ag_wait sv) clk" for clk sv k key d w and y :: "string result \<times> 'a"
  proof (rule mp [OF poll_loop.raw_induct [where P = "\<lambda>clk sv k key d w y. waiter (ag_wait sv) clk \<longrightarrow>
      (case fst y of Inr _ \<Rightarrow> True | Inl e \<Rightarrow> (\<exists>x. e = wrapReadConfig x \<and> (context_error x \<or> \<not> isRetryable_agent x)) \<or>
      (\<exists>k t x. ctx_err k t = Some x \<and> e = Wrapf [Txt ''poll config: ''] x []))", OF _ that(1)] that(2)], intro impI, goal_cases)
    case (1 loop clk sv k key d w y)
    obtain read w1 where read: "ge_read_config (ag_evidence sv) k key w = (read, w1)" by fastforce
    obtain we w2 where wait: "ag_wait sv k d w1 = (we, w2)" by fastforce
    show ?case
    proof (cases "poll_verdict read")
      case (Some r)
      with 1(2) read have "y = (r, w1)" by simp
      with Some show ?thesis by (auto simp: poll_verdict_def split: sum.splits option.splits if_splits)
    next
      case None
      show ?thesis
      proof (cases we)
        case (Some x)
        with wait waiter.wait_error [OF 1(3)] have "ctx_err k (clk w2) = Some x" by blast
        moreover with 1(2) read None wait Some have "y = (Inl (Wrapf [Txt ''poll config: ''] x []), w2)"
          by (simp add: poll_wait_error_def)
        ultimately show ?thesis by auto
      next
        case we: None
        with 1(2) read None wait have "loop clk sv k key (nextPollDelay d) w2 = Some y" by simp
        from 1(1) [OF this] 1(3) show ?thesis by blast
      qed
    qed
  qed
  from this [OF assms(2) [unfolded pollConfig_def] assms(1)] show ?thesis
    by (auto simp: wrap dest!: cancelled) (auto simp: wrapReadConfig_def context_error_def)
qed

lemma poll_errors_public_witness: "\<not> isRetryable_agent (wrapReadConfig (Plain []))"
proof -
  let ?s = "sample_agent\<lparr>ag_evidence := sample_evidence\<lparr>ge_read_config := (\<lambda>c k t. (Inl (Plain []), t))\<rparr>\<rparr>"
  have "waiter (ag_wait ?s) (\<lambda>t. t)" using sample_agent_laws(1) by simp
  moreover have "pollConfig (\<lambda>t. t) ?s background sample_key 0 = Some (Inl (wrapReadConfig (Plain [])), 0)"
    by (simp add: pollConfig_def poll_loop.simps poll_verdict_def context_error_def isRetryable_agent_def)
  ultimately have "context_error (wrapReadConfig (Plain [])) \<or> \<not> isRetryable_agent (wrapReadConfig (Plain []))"
    by (rule poll_errors_public [THEN conjunct2])
  then show ?thesis by (simp add: context_error_def wrapReadConfig_def)
qed

end
