(* ===== verification/GoStrings.thy ===== *)
theory GoStrings
  imports Encodings
begin

text \<open>
  The parts of \<open>strings\<close>, \<open>bytes\<close> and \<open>net/url\<close> the guest adapter calls: \<open>TrimSpace\<close> with the Unicode
  white space in its UTF-8 encoding, \<open>Cut\<close> and \<open>SplitSeq\<close> at one byte, and \<open>PathEscape\<close> with the decoding
  a server applies to a path segment.
\<close>

section \<open>White space\<close>

text \<open>\<open>unicode.IsSpace\<close>: one-, two- and three-byte encodings.\<close>

definition space1 :: "byte \<Rightarrow> bool" where
  "space1 c \<longleftrightarrow> c \<in> set [CHR 0x09, CHR 0x0A, CHR 0x0B, CHR 0x0C, CHR 0x0D, CHR 0x20]"

definition space2 :: "byte \<Rightarrow> byte \<Rightarrow> bool" where
  "space2 a b \<longleftrightarrow> a = CHR 0xC2 \<and> (b = CHR 0x85 \<or> b = CHR 0xA0)"

definition space3 :: "byte \<Rightarrow> byte \<Rightarrow> byte \<Rightarrow> bool" where
  "space3 a b c \<longleftrightarrow>
     a = CHR 0xE1 \<and> b = CHR 0x9A \<and> c = CHR 0x80 \<or>
     a = CHR 0xE2 \<and> b = CHR 0x80 \<and> (CHR 0x80 \<le> c \<and> c \<le> CHR 0x8A \<or> c = CHR 0xA8 \<or> c = CHR 0xA9 \<or> c = CHR 0xAF) \<or>
     a = CHR 0xE2 \<and> b = CHR 0x81 \<and> c = CHR 0x9F \<or>
     a = CHR 0xE3 \<and> b = CHR 0x80 \<and> c = CHR 0x80"

text \<open>The number of bytes of a space at the front, 0 when there is none.\<close>

definition leading_space :: "string \<Rightarrow> nat" where
  "leading_space s =
     (case s of
        [] \<Rightarrow> 0
      | a # t \<Rightarrow> if space1 a then 1 else
         (case t of
            [] \<Rightarrow> 0
          | b # u \<Rightarrow> if space2 a b then 2 else
             (case u of [] \<Rightarrow> 0 | c # _ \<Rightarrow> if space3 a b c then 3 else 0)))"

definition trailing_space :: "string \<Rightarrow> nat" where
  "trailing_space s =
     (case rev s of
        [] \<Rightarrow> 0
      | a # t \<Rightarrow> if space1 a then 1 else
         (case t of
            [] \<Rightarrow> 0
          | b # u \<Rightarrow> if space2 b a then 2 else
             (case u of [] \<Rightarrow> 0 | c # _ \<Rightarrow> if space3 c b a then 3 else 0)))"

lemma leading_space_le: "leading_space s \<le> length s"
  by (auto simp: leading_space_def split: list.split)

lemma trailing_space_le: "trailing_space s \<le> length s"
  unfolding length_rev [of s, symmetric] by (auto simp: trailing_space_def split: list.split)

function trim_left :: "string \<Rightarrow> string" where
  "trim_left s = (if leading_space s = 0 then s else trim_left (drop (leading_space s) s))"
  by pat_completeness auto
termination
proof (relation "measure length")
  fix s
  assume "leading_space s \<noteq> 0"
  with leading_space_le [of s] show "(drop (leading_space s) s, s) \<in> measure length" by simp
qed simp

function trim_right :: "string \<Rightarrow> string" where
  "trim_right s = (if trailing_space s = 0 then s else trim_right (take (length s - trailing_space s) s))"
  by pat_completeness auto
termination
proof (relation "measure length")
  fix s
  assume "trailing_space s \<noteq> 0"
  with trailing_space_le [of s] show "(take (length s - trailing_space s) s, s) \<in> measure length" by simp
qed simp

declare trim_left.simps [simp del] trim_right.simps [simp del]

definition TrimSpace :: "string \<Rightarrow> string" where
  "TrimSpace s = trim_right (trim_left s)"

section \<open>Splitting\<close>

text \<open>\<open>strings.SplitSeq\<close> and \<open>strings.Cut\<close> at one byte.\<close>

fun split_at :: "byte \<Rightarrow> string \<Rightarrow> string list" where
  "split_at c [] = [[]]"
| "split_at c (x # xs) =
     (if x = c then [] # split_at c xs
      else (case split_at c xs of [] \<Rightarrow> [[x]] | l # ls \<Rightarrow> (x # l) # ls))"

definition Cut :: "string \<Rightarrow> byte \<Rightarrow> (string \<times> string) option" where
  "Cut s c = (case index_byte s c of None \<Rightarrow> None | Some i \<Rightarrow> Some (take i s, drop (Suc i) s))"

section \<open>Path segments\<close>

definition upper_hex_digit :: "nat \<Rightarrow> byte" where
  "upper_hex_digit n = ''0123456789ABCDEF'' ! n"

text \<open>The bytes \<open>url.PathEscape\<close> keeps.\<close>

definition path_plain :: "byte \<Rightarrow> bool" where
  "path_plain c \<longleftrightarrow>
     byte_between CHR ''a'' CHR ''z'' c \<or> byte_between CHR ''A'' CHR ''Z'' c \<or> byte_between CHR ''0'' CHR ''9'' c \<or>
     c \<in> set ''-_.~$&+=:@''"

fun PathEscape :: "string \<Rightarrow> string" where
  "PathEscape [] = []"
| "PathEscape (c # s) =
     (if path_plain c then c # PathEscape s
      else CHR ''%'' # upper_hex_digit (of_char c div 16) # upper_hex_digit (of_char c mod 16) # PathEscape s)"

text \<open>Percent-decoding of one segment.\<close>

definition upper_hex_value :: "byte \<Rightarrow> nat option" where
  "upper_hex_value c = index_byte ''0123456789ABCDEF'' c"

fun unescape_segment :: "string \<Rightarrow> string option" where
  "unescape_segment [] = Some []"
| "unescape_segment (c # s) =
     (if c = CHR ''%'' then
        (case s of
           h # l # t \<Rightarrow>
             (case (upper_hex_value h, upper_hex_value l, unescape_segment t) of
                (Some a, Some b, Some r) \<Rightarrow> Some (char_of (16 * a + b) # r)
              | _ \<Rightarrow> None)
         | _ \<Rightarrow> None)
      else map_option (Cons c) (unescape_segment s))"

lemma upper_hex_value_all: "list_all (\<lambda>n. upper_hex_value (upper_hex_digit n) = Some n) [0..<16]"
  by code_simp

lemma upper_hex_value_digit [simp]: "n < 16 \<Longrightarrow> upper_hex_value (upper_hex_digit n) = Some n"
  using upper_hex_value_all by (simp add: list_all_iff)

lemma plain_percent: "path_plain c \<Longrightarrow> c \<noteq> CHR ''%'' \<and> c \<noteq> CHR ''/''"
proof
  have "\<not> path_plain (CHR ''%'')" "\<not> path_plain (CHR ''/'')" by code_simp+
  moreover assume "path_plain c"
  ultimately show "c \<noteq> CHR ''%''" "c \<noteq> CHR ''/''" by blast+
qed

lemma unescape_PathEscape: "unescape_segment (PathEscape s) = Some s"
proof (induction s)
  case (Cons c s)
  have "of_char c < (256 :: nat)" by simp
  then have "of_char c div 16 < (16 :: nat)" "of_char c mod 16 < (16 :: nat)" by simp_all
  moreover have "char_of (16 * (of_char c div 16) + of_char c mod 16 :: nat) = c" by simp
  ultimately show ?case using Cons plain_percent [of c] by simp
qed simp

lemma upper_hex_digit_set: "n < 16 \<Longrightarrow> upper_hex_digit n \<in> set ''0123456789ABCDEF''"
  unfolding upper_hex_digit_def by (rule nth_mem) simp

lemma PathEscape_set: "set (PathEscape s) \<subseteq> {c. path_plain c} \<union> {CHR ''%''}"
proof (induction s)
  case (Cons c s)
  have "of_char c < (256 :: nat)" by simp
  then have "upper_hex_digit (of_char c div 16) \<in> set ''0123456789ABCDEF''"
    "upper_hex_digit (of_char c mod 16) \<in> set ''0123456789ABCDEF''"
    by (simp_all add: upper_hex_digit_set del: List.set_simps)
  moreover have "list_all path_plain ''0123456789ABCDEF''" by code_simp
  ultimately have "path_plain (upper_hex_digit (of_char c div 16))" "path_plain (upper_hex_digit (of_char c mod 16))"
    unfolding list_all_iff by blast+
  with Cons show ?case by simp
qed simp

lemma PathEscape_plain: "list_all path_plain s \<Longrightarrow> PathEscape s = s"
  by (induction s) auto

end
