(* ===== verification/Guest.thy ===== *)
theory Guest
  imports Agent GoStrings
begin

text \<open>
  \<open>internal/incus/guest\<close>: the guest-side adapter, which reads claims and configuration from the Incus
  guest socket and the product UUID from the DMI file. The HTTP client and the file system are
  parameters; the JSON decoding of \<open>/1.0\<close> uses \<open>JsonDecoder\<close> without \<open>DisallowUnknownFields\<close>.
\<close>

section \<open>Errors (\<open>errors.go\<close>)\<close>

definition wrapContext :: "string \<Rightarrow> goerr \<Rightarrow> goerr" where
  "wrapContext operation e = SecretSafe [Txt operation] e"

definition transportError :: "goerr \<Rightarrow> goerr" where
  "transportError e =
     (if context_error e then e
      else Transient [Txt ''guest transport failed''] (Some e) (err_as node_net_timeout e = Some True))"

definition statusError :: "int \<Rightarrow> goerr" where
  "statusError status =
     (if status = 408 then Transient [Txt ''guest request timeout''] None True
      else if status = 429 \<or> status \<ge> 500 then Transient [Txt ''guest service unavailable''] None False
      else Plain [Txt ''guest status '', Num status])"

section \<open>Client (\<open>client.go\<close>)\<close>

text \<open>
  A response: its status, the bytes of its body, and the error that ends the body instead of EOF.
  \<open>hx_request\<close> is the error of building the request for a URL.
\<close>

record http_response =
  hr_status :: int
  hr_data :: string
  hr_error :: "goerr option"

record 'w http_client =
  hx_request :: "string \<Rightarrow> goerr option"
  hx_do :: "ctx \<Rightarrow> string \<Rightarrow> 'w \<Rightarrow> http_response result \<times> 'w"

type_synonym 'w file_reader = "string \<Rightarrow> 'w \<Rightarrow> string result \<times> 'w"

definition defaultSocketPath :: string where
  "defaultSocketPath = ''/dev/incus/sock''"

definition defaultDMIPath :: string where
  "defaultDMIPath = ''/sys/class/dmi/id/product_uuid''"

definition maxGuestBody :: nat where
  "maxGuestBody = 65536"

definition guestHTTPBase :: string where
  "guestHTTPBase = ''http://incus''"

record 'w guest_client =
  gc_project :: string
  gc_socket_path :: string
  gc_dmi_path :: string
  gc_http :: "'w http_client"

text \<open>\<open>unix_http\<close>: the HTTP client whose transport dials the given socket (\<open>unixHTTPClient\<close>).\<close>

definition newClient_guest ::
    "(string \<Rightarrow> 'w http_client) \<Rightarrow> string \<Rightarrow> string \<Rightarrow> string \<Rightarrow> 'w http_client option \<Rightarrow> 'w guest_client" where
  "newClient_guest unix_http project socketPath dmiPath httpClient =
     \<lparr>gc_project = project, gc_socket_path = socketPath, gc_dmi_path = dmiPath,
      gc_http = (case httpClient of None \<Rightarrow> unix_http socketPath | Some h \<Rightarrow> h)\<rparr>"

definition New_guest :: "(string \<Rightarrow> 'w http_client) \<Rightarrow> string \<Rightarrow> 'w guest_client" where
  "New_guest unix_http project = newClient_guest unix_http project defaultSocketPath defaultDMIPath None"

text \<open>\<open>io.ReadAll\<close> over an \<open>io.LimitReader\<close> of \<open>n\<close> bytes.\<close>

definition read_limited :: "nat \<Rightarrow> string \<Rightarrow> goerr option \<Rightarrow> string result" where
  "read_limited n data err =
     (if n \<le> length data then Inr (take n data)
      else case err of None \<Rightarrow> Inr data | Some e \<Rightarrow> Inl e)"

definition get :: "'w guest_client \<Rightarrow> ctx \<Rightarrow> string \<Rightarrow> 'w \<Rightarrow> (string \<times> int) result \<times> 'w" where
  "get gc c path w =
     (case hx_request (gc_http gc) (guestHTTPBase @ path) of
        Some e \<Rightarrow> (Inl (Wrapf [Txt ''build guest request: ''] e []), w)
      | None \<Rightarrow>
         (case hx_do (gc_http gc) c (guestHTTPBase @ path) w of
            (Inl e, w1) \<Rightarrow> (Inl (transportError e), w1)
          | (Inr resp, w1) \<Rightarrow>
             (case read_limited (maxGuestBody + 1) (hr_data resp) (hr_error resp) of
                Inl e \<Rightarrow> (Inl (transportError e), w1)
              | Inr body \<Rightarrow>
                  (if length body > maxGuestBody
                   then Inl (Plain [Txt ''guest response exceeds '', Num (int maxGuestBody), Txt '' bytes''])
                   else Inr (body, hr_status resp), w1))))"

section \<open>Configuration (\<open>config.go\<close>)\<close>

definition configPrefix :: string where
  "configPrefix = ''/1.0/config/''"

definition configPath :: "string \<Rightarrow> string" where
  "configPath key = configPrefix @ PathEscape key"

definition ReadConfig :: "'w guest_client \<Rightarrow> ctx \<Rightarrow> string \<Rightarrow> 'w \<Rightarrow> string option result \<times> 'w" where
  "ReadConfig gc c key w =
     (case get gc c (configPath key) w of
        (Inl e, w1) \<Rightarrow> (Inl (if context_error e then wrapContext ''read guest config'' e else e), w1)
      | (Inr (body, status), w1) \<Rightarrow>
          (if status = 404 then Inr None
           else if status \<noteq> 200 then Inl (statusError status)
           else Inr (Some body), w1))"

section \<open>Claims (\<open>claims.go\<close>)\<close>

record guestInfo =
  gi_api_version :: string
  gi_location :: string
  gi_instance_type :: string
  gi_state :: string

record guestMetadata =
  gm_instance_id :: string
  gm_hostname :: string

text \<open>\<open>Decode\<close> into a struct without \<open>DisallowUnknownFields\<close>: other members are skipped.\<close>

fun unmarshal_known ::
    "(string \<times> 'r setter) list \<Rightarrow> (string \<times> jval) list \<Rightarrow> 'r \<Rightarrow> json_error + 'r" where
  "unmarshal_known fs [] r = Inr r"
| "unmarshal_known fs ((b, v) # ms) r =
     (case unquote b of
        None \<Rightarrow> Inl JSyntax
      | Some k \<Rightarrow>
         (case find_field fs k of
            None \<Rightarrow> unmarshal_known fs ms r
          | Some (name, set_field) \<Rightarrow>
             (case set_field name v r of
                Inl e \<Rightarrow> Inl e
              | Inr r' \<Rightarrow> unmarshal_known fs ms r')))"

definition guestInfo_fields :: "(string \<times> guestInfo setter) list" where
  "guestInfo_fields =
     [(''api_version'', string_field (\<lambda>s r. r\<lparr>gi_api_version := s\<rparr>)),
      (''location'', string_field (\<lambda>s r. r\<lparr>gi_location := s\<rparr>)),
      (''instance_type'', string_field (\<lambda>s r. r\<lparr>gi_instance_type := s\<rparr>)),
      (''state'', string_field (\<lambda>s r. r\<lparr>gi_state := s\<rparr>))]"

definition zero_info :: guestInfo where
  "zero_info = \<lparr>gi_api_version = [], gi_location = [], gi_instance_type = [], gi_state = []\<rparr>"

definition unmarshal_info :: "jval \<Rightarrow> json_error + guestInfo" where
  "unmarshal_info v =
     (case v of
        JObject ms \<Rightarrow> unmarshal_known guestInfo_fields ms zero_info
      | JNull \<Rightarrow> Inr zero_info
      | _ \<Rightarrow> Inl (JTypeError None))"

text \<open>A JSON error as an error value; its text is not kept.\<close>

definition json_failure :: "json_error \<Rightarrow> goerr" where
  "json_failure e = Foreign \<lparr>attr_text = [], attr_is = [], attr_timeout = None, attr_temporary = None,
     attr_op_error = False\<rparr> None"

definition decodeInfo :: "string \<Rightarrow> guestInfo result" where
  "decodeInfo raw =
     (case json_decode raw of
        Inl e \<Rightarrow> Inl (Wrapf [Txt ''decode guest info: ''] (json_failure e) [])
      | Inr (v, rest) \<Rightarrow>
         (case unmarshal_info v of
            Inl e \<Rightarrow> Inl (Wrapf [Txt ''decode guest info: ''] (json_failure e) [])
          | Inr info \<Rightarrow>
              (if json_decode rest = Inl JEOF then Inr info
               else Inl (Plain [Txt ''decode guest info: trailing JSON data'']))))"

definition readInfo :: "'w guest_client \<Rightarrow> ctx \<Rightarrow> 'w \<Rightarrow> guestInfo result \<times> 'w" where
  "readInfo gc c w =
     (case get gc c ''/1.0'' w of
        (Inl e, w1) \<Rightarrow> (Inl (if context_error e then wrapContext ''read guest info'' e else e), w1)
      | (Inr (body, status), w1) \<Rightarrow>
          (if status \<noteq> 200 then Inl (statusError status) else decodeInfo body, w1))"

text \<open>\<open>parseMetadata\<close>: the fold over the lines, with \<open>sawID\<close> and \<open>sawHost\<close>.\<close>

definition metadata_line :: "string \<Rightarrow> guestMetadata \<times> bool \<times> bool \<Rightarrow> guestMetadata \<times> bool \<times> bool" where
  "metadata_line line st =
     (case st of (meta, sawID, sawHost) \<Rightarrow>
        (case Cut (TrimSpace line) (CHR '':'') of
           None \<Rightarrow> st
         | Some (key, val) \<Rightarrow>
             if TrimSpace key = ''instance-id'' then
               (if sawID then st else (meta\<lparr>gm_instance_id := TrimSpace val\<rparr>, True, sawHost))
             else if TrimSpace key = ''local-hostname'' then
               (if sawHost then st else (meta\<lparr>gm_hostname := TrimSpace val\<rparr>, sawID, True))
             else st))"

definition parseMetadata :: "string \<Rightarrow> guestMetadata" where
  "parseMetadata raw =
     fst (fold metadata_line (split_at (CHR 0x0A) raw) (\<lparr>gm_instance_id = [], gm_hostname = []\<rparr>, False, False))"

definition readMetadata :: "'w guest_client \<Rightarrow> ctx \<Rightarrow> 'w \<Rightarrow> guestMetadata result \<times> 'w" where
  "readMetadata gc c w =
     (case get gc c ''/1.0/meta-data'' w of
        (Inl e, w1) \<Rightarrow> (Inl (if context_error e then wrapContext ''read guest metadata'' e else e), w1)
      | (Inr (body, status), w1) \<Rightarrow>
          (if status \<noteq> 200 then Inl (statusError status) else Inr (parseMetadata body), w1))"

definition readProductUUID :: "uuid_lib \<Rightarrow> 'w file_reader \<Rightarrow> 'w guest_client \<Rightarrow> 'w \<Rightarrow> string result \<times> 'w" where
  "readProductUUID ul read_file gc w =
     (case read_file (gc_dmi_path gc) w of
        (Inl e, w1) \<Rightarrow> (Inl (Wrapf [Txt ''read product uuid: ''] e []), w1)
      | (Inr raw, w1) \<Rightarrow>
          (case NewInstanceUUID ul (TrimSpace raw) of
             Inl e \<Rightarrow> Inl (Wrapf [Txt ''parse product uuid: ''] e [])
           | Inr u \<Rightarrow> Inr u, w1))"

definition Claims_guest :: "uuid_lib \<Rightarrow> 'w file_reader \<Rightarrow> 'w guest_client \<Rightarrow> ctx \<Rightarrow> 'w \<Rightarrow> claims result \<times> 'w" where
  "Claims_guest ul read_file gc c w =
     (case readInfo gc c w of
        (Inl e, w1) \<Rightarrow> (Inl e, w1)
      | (Inr info, w1) \<Rightarrow>
         (case readMetadata gc c w1 of
            (Inl e, w2) \<Rightarrow> (Inl e, w2)
          | (Inr meta, w2) \<Rightarrow>
             (case readProductUUID ul read_file gc w2 of
                (Inl e, w3) \<Rightarrow> (Inl e, w3)
              | (Inr uuid, w3) \<Rightarrow>
                 (let claims = \<lparr>cl_project = gc_project gc, cl_name = gm_hostname meta, cl_uuid = uuid,
                        cl_type = gi_instance_type info, cl_location = gi_location info,
                        cl_cloud_init_id = gm_instance_id meta\<rparr>
                  in (case ValidateClaims ul claims of Some e \<Rightarrow> Inl e | None \<Rightarrow> Inr claims, w3)))))"

text \<open>The adapter as the evidence port of the agent.\<close>

definition guest_port :: "uuid_lib \<Rightarrow> 'w file_reader \<Rightarrow> 'w guest_client \<Rightarrow> 'w guest_evidence" where
  "guest_port ul read_file gc =
     \<lparr>ge_claims = Claims_guest ul read_file gc, ge_read_config = ReadConfig gc\<rparr>"

section \<open>Paths\<close>

lemma config_key_plain: "NewConfigKey key = Inr k \<Longrightarrow> list_all path_plain key"
proof -
  assume "NewConfigKey key = Inr k"
  then obtain suffix where key: "key = configKeyPrefix @ suffix" "set suffix \<subseteq> set hex_digits"
    by (auto simp: NewConfigKey_Inr)
  have "list_all path_plain configKeyPrefix" "list_all path_plain hex_digits" by code_simp+
  with key show ?thesis by (auto simp: list_all_iff)
qed

section \<open>Metadata\<close>

text \<open>
  The specification of a metadata value: that of the first line whose trimmed text before the first
  colon is the name.
\<close>

definition metadata_entry :: "string \<Rightarrow> (string \<times> string) option" where
  "metadata_entry line =
     map_option (\<lambda>(k, v). (TrimSpace k, TrimSpace v)) (Cut (TrimSpace line) (CHR '':''))"

definition metadata_value :: "string \<Rightarrow> string list \<Rightarrow> string" where
  "metadata_value name lines =
     (case map_of (List.map_filter metadata_entry lines) name of None \<Rightarrow> [] | Some v \<Rightarrow> v)"

lemma metadata_line_entry:
  "metadata_line line (meta, sawID, sawHost) =
     (case metadata_entry line of
        None \<Rightarrow> (meta, sawID, sawHost)
      | Some (k, v) \<Rightarrow>
          if k = ''instance-id'' then (if sawID then meta else meta\<lparr>gm_instance_id := v\<rparr>, True, sawHost)
          else if k = ''local-hostname'' then (if sawHost then meta else meta\<lparr>gm_hostname := v\<rparr>, sawID, True)
          else (meta, sawID, sawHost))"
  by (auto simp: metadata_line_def metadata_entry_def split: option.splits)

lemma fold_metadata:
  "fold metadata_line lines (meta, sawID, sawHost) =
     (let entries = map_of (List.map_filter metadata_entry lines);
          pick = (\<lambda>saw old name. if saw then old else case entries name of None \<Rightarrow> old | Some v \<Rightarrow> v)
      in (meta\<lparr>gm_instance_id := pick sawID (gm_instance_id meta) ''instance-id'',
               gm_hostname := pick sawHost (gm_hostname meta) ''local-hostname''\<rparr>,
          sawID \<or> entries ''instance-id'' \<noteq> None, sawHost \<or> entries ''local-hostname'' \<noteq> None))"
proof (induction lines arbitrary: meta sawID sawHost)
  case Nil
  then show ?case by (simp add: List.map_filter_def)
next
  case (Cons line lines)
  show ?case
  proof (cases "metadata_entry line")
    case None
    with Cons show ?thesis by (simp add: metadata_line_entry List.map_filter_def)
  next
    case (Some e)
    obtain k v where "e = (k, v)" by fastforce
    with Some Cons show ?thesis
      by (simp add: metadata_line_entry List.map_filter_def Let_def split: option.split)
  qed
qed

lemma split_at_lines:
  "\<forall>l \<in> set (split_at c s). c \<notin> set l"
  "foldr (\<lambda>l r. l @ c # r) (butlast (split_at c s)) (last (split_at c s)) = s" "split_at c s \<noteq> []"
proof (induction s)
  case (Cons x s)
  {
    case 1
    from Cons show ?case by (auto split: list.split)
  next
    case 2
    from Cons show ?case by (cases "split_at c s") auto
  next
    case 3
    from Cons show ?case by (auto split: list.split)
  }
qed simp_all

section \<open>The metadata of the guest socket\<close>

text \<open>
  What \<open>/1.0\<close> says: each known member is a string or null, the last string counts, and the other members
  may be anything.
\<close>

definition info_names :: "string list" where
  "info_names = [''api_version'', ''location'', ''instance_type'', ''state'']"

definition info_says :: "jval \<Rightarrow> guestInfo \<Rightarrow> bool" where
  "info_says v info \<longleftrightarrow>
     v = JNull \<and> info = zero_info \<or>
     (\<exists>ms. v = JObject ms \<and> list_all (\<lambda>m. unquote (fst m) \<noteq> None) ms \<and>
        list_all (\<lambda>f. list_all (\<lambda>u. u = JNull \<or> string_value u \<noteq> None) (member_values f ms)) info_names \<and>
        info = \<lparr>gi_api_version = last_string ''api_version'' ms, gi_location = last_string ''location'' ms,
          gi_instance_type = last_string ''instance_type'' ms, gi_state = last_string ''state'' ms\<rparr>)"

lemma info_folded: "distinct (map (fold_name \<circ> fst) guestInfo_fields)" "distinct (map fold_name info_names)"
proof -
  have "fold_name ''api_version'' = ''API_VERSION''" "fold_name ''location'' = ''LOCATION''"
    "fold_name ''instance_type'' = ''INSTANCE_TYPE''" "fold_name ''state'' = ''STATE''" by code_simp+
  then show "distinct (map (fold_name \<circ> fst) guestInfo_fields)" "distinct (map fold_name info_names)"
    by (simp_all add: guestInfo_fields_def info_names_def del: fold_name.simps)
qed

lemma set_string_Some: "string_value v = Some x \<Longrightarrow> set_string v y = x"
  by (auto simp: set_string_def string_or_empty_def string_value_def)

lemma unmarshal_known_info:
  "unmarshal_known guestInfo_fields ms r = Inr r' \<longleftrightarrow>
     list_all (\<lambda>m. unquote (fst m) \<noteq> None) ms \<and>
     list_all (\<lambda>f. list_all (\<lambda>u. u = JNull \<or> string_value u \<noteq> None) (member_values f ms)) info_names \<and>
     r' = \<lparr>gi_api_version = fold set_string (member_values ''api_version'' ms) (gi_api_version r),
       gi_location = fold set_string (member_values ''location'' ms) (gi_location r),
       gi_instance_type = fold set_string (member_values ''instance_type'' ms) (gi_instance_type r),
       gi_state = fold set_string (member_values ''state'' ms) (gi_state r)\<rparr>"
proof (induction ms arbitrary: r)
  case Nil
  then show ?case by (auto simp: list_all_iff)
next
  case (Cons m ms)
  obtain b v where m: "m = (b, v)" by fastforce
  show ?case
  proof (cases "unquote b")
    case None
    with m show ?thesis by simp
  next
    case (Some k)
    have other: "\<not> names_field g b" if "names_field f b" "f \<noteq> g" "f \<in> set info_names" "g \<in> set info_names" for f g
      using that info_folded(2) by (auto simp: names_field_def distinct_map dest: inj_onD)
    show ?thesis
    proof (cases "\<exists>f\<in>set info_names. names_field f b")
      case False
      have "find_field guestInfo_fields k = None"
      proof (rule ccontr)
        assume "find_field guestInfo_fields k \<noteq> None"
        then obtain fd where "fd \<in> set guestInfo_fields" "fold_name (fst fd) = fold_name k"
          using find_field_fold [OF info_folded(1), of k] by blast
        moreover from this(1) have "fst fd \<in> set info_names" by (auto simp: guestInfo_fields_def info_names_def)
        ultimately have "\<exists>f\<in>set info_names. names_field f b"
          using Some unfolding names_field_def by (intro bexI [of _ "fst fd"] exI [of _ k] conjI) simp_all
        with False show False ..
      qed
      moreover have "member_values g (m # ms) = member_values g ms" if "g \<in> set info_names" for g
        using False that by (simp add: m)
      then have "member_values ''api_version'' (m # ms) = member_values ''api_version'' ms"
        "member_values ''location'' (m # ms) = member_values ''location'' ms"
        "member_values ''instance_type'' (m # ms) = member_values ''instance_type'' ms"
        "member_values ''state'' (m # ms) = member_values ''state'' ms" by (simp_all add: info_names_def)
      ultimately show ?thesis using m Some Cons.IH [of r] by (simp add: info_names_def)
    next
      case True
      then obtain f where f: "f \<in> set info_names" "names_field f b" by blast
      then have fold: "fold_name k = fold_name f" using Some by (simp add: names_field_def)
      note find = find_field_fold [OF info_folded(1), of k, THEN iffD2]
      have step: "unmarshal_known guestInfo_fields (m # ms) r = Inr r' \<longleftrightarrow>
          (v = JNull \<or> string_value v \<noteq> None) \<and> unmarshal_known guestInfo_fields ms (put (set_string v (get r)) r) = Inr r'"
        if "(f, string_field put) \<in> set guestInfo_fields" "put (get r) r = r" for put get
      proof -
        have "find_field guestInfo_fields k = Some (f, string_field put)" by (rule find) (simp add: that(1) fold)
        then show ?thesis using m Some that(2)
          by (cases v) (auto simp: string_field_def string_value_def set_string_def string_or_empty_def split: option.splits)
      qed
      have names: "names_field g b \<longleftrightarrow> g = f" if "g \<in> set info_names" for g
        using other [OF f(2) _ f(1) that] f(2) by blast
      have known: "names_field ''api_version'' b \<longleftrightarrow> ''api_version'' = f" "names_field ''location'' b \<longleftrightarrow> ''location'' = f"
        "names_field ''instance_type'' b \<longleftrightarrow> ''instance_type'' = f" "names_field ''state'' b \<longleftrightarrow> ''state'' = f"
        by (rule names, simp add: info_names_def)+
      have values_of: "member_values g (m # ms) = (if names_field g b then v # member_values g ms else member_values g ms)" for g
        by (simp add: m)
      have key: "unquote (fst m) = Some k" using m Some by simp
      from f(1) consider "f = ''api_version''" | "f = ''location''" | "f = ''instance_type''" | "f = ''state''"
        by (auto simp: info_names_def)
      then show ?thesis
      proof cases
        case 1
        have "(f, string_field (\<lambda>s r. r\<lparr>gi_api_version := s\<rparr>)) \<in> set guestInfo_fields" by (simp add: guestInfo_fields_def 1)
        from step [OF this, of gi_api_version] show ?thesis
          unfolding values_of info_names_def list.pred_inject known by (auto simp: Cons.IH info_names_def key 1)
      next
        case 2
        have "(f, string_field (\<lambda>s r. r\<lparr>gi_location := s\<rparr>)) \<in> set guestInfo_fields" by (simp add: guestInfo_fields_def 2)
        from step [OF this, of gi_location] show ?thesis
          unfolding values_of info_names_def list.pred_inject known by (auto simp: Cons.IH info_names_def key 2)
      next
        case 3
        have "(f, string_field (\<lambda>s r. r\<lparr>gi_instance_type := s\<rparr>)) \<in> set guestInfo_fields" by (simp add: guestInfo_fields_def 3)
        from step [OF this, of gi_instance_type] show ?thesis
          unfolding values_of info_names_def list.pred_inject known by (auto simp: Cons.IH info_names_def key 3)
      next
        case 4
        have "(f, string_field (\<lambda>s r. r\<lparr>gi_state := s\<rparr>)) \<in> set guestInfo_fields" by (simp add: guestInfo_fields_def 4)
        from step [OF this, of gi_state] show ?thesis
          unfolding values_of info_names_def list.pred_inject known by (auto simp: Cons.IH info_names_def key 4)
      qed
    qed
  qed
qed

lemma unmarshal_info_Inr: "unmarshal_info v = Inr info \<longleftrightarrow> info_says v info"
  by (cases v) (auto simp: unmarshal_info_def info_says_def unmarshal_known_info zero_info_def last_string_fold)

section \<open>Errors\<close>

lemma transportError_simps:
  "context_error (transportError e) \<longleftrightarrow> context_error e"
  "\<not> context_error e \<Longrightarrow> isRetryable_agent (transportError e)"
  by (auto simp: transportError_def context_error_def isRetryable_agent_def)

lemma statusError_simps:
  "\<not> context_error (statusError status)"
  "isRetryable_agent (statusError status) \<longleftrightarrow> status = 408 \<or> status = 429 \<or> 500 \<le> status"
  by (auto simp: statusError_def context_error_def isRetryable_agent_def)

lemma wrapContext_simps [simp]:
  "context_error (wrapContext operation e) \<longleftrightarrow> context_error e"
  by (simp add: wrapContext_def context_error_def)

text \<open>The bounded body of a response.\<close>

definition guest_body :: "http_response \<Rightarrow> string result" where
  "guest_body resp = read_limited (maxGuestBody + 1) (hr_data resp) (hr_error resp)"

lemma guest_body_Inr:
  "guest_body resp = Inr b \<and> length b \<le> maxGuestBody \<longleftrightarrow>
     b = hr_data resp \<and> hr_error resp = None \<and> length (hr_data resp) \<le> maxGuestBody"
  by (auto simp: guest_body_def read_limited_def split: option.splits)

lemma get_cases:
  assumes "hx_request (gc_http gc) (guestHTTPBase @ path) = None"
  shows "fst (get gc c path w) =
    (case fst (hx_do (gc_http gc) c (guestHTTPBase @ path) w) of
       Inl e \<Rightarrow> Inl (transportError e)
     | Inr resp \<Rightarrow>
        (case guest_body resp of
           Inl e \<Rightarrow> Inl (transportError e)
         | Inr b \<Rightarrow>
             if length b > maxGuestBody then Inl (Plain [Txt ''guest response exceeds '', Num (int maxGuestBody), Txt '' bytes''])
             else Inr (b, hr_status resp)))"
  using assms by (auto simp: get_def guest_body_def split: prod.split sum.split)

lemma ReadConfig_result:
  "fst (ReadConfig gc c key w) =
     (case fst (get gc c (configPath key) w) of
        Inl e \<Rightarrow> Inl (if context_error e then wrapContext ''read guest config'' e else e)
      | Inr (b, status) \<Rightarrow>
          if status = 404 then Inr None else if status \<noteq> 200 then Inl (statusError status) else Inr (Some b))"
  by (auto simp: ReadConfig_def split: prod.split sum.split)

lemma guest_takes_time:
  assumes "\<And>c u w. clock w \<le> clock (snd (hx_do (gc_http gc) c u w))"
  shows "reads_take_time clock (guest_port ul read_file gc)"
proof -
  have "clock w \<le> clock (snd (get gc c path w))" for c path w
    using assms [of w c "guestHTTPBase @ path"] by (auto simp: get_def split: option.split prod.split sum.split)
  moreover have "snd (ReadConfig gc c key w) = snd (get gc c (configPath key) w)" for c key w
    by (auto simp: ReadConfig_def split: prod.split sum.split)
  ultimately show ?thesis by (simp add: reads_take_time_def guest_port_def)
qed

section \<open>The contract of the evidence port\<close>

lemma Claims_guest_valid:
  "Claims_guest ul read_file gc c w = (Inr cl, w') \<Longrightarrow>
   ValidateClaims ul cl = None \<and> cl_project cl = gc_project gc \<and> (\<exists>raw. NewInstanceUUID ul raw = Inr (cl_uuid cl))"
  by (auto simp: Claims_guest_def readProductUUID_def Let_def split: prod.splits sum.splits option.splits)

interpretation guest: valid_evidence "guest_port ul read_file gc" ul for ul read_file gc
  by unfold_locales (simp add: guest_port_def Claims_guest_valid)

section \<open>A sample socket\<close>

text \<open>The world counts the requests; the value is visible in the second.\<close>

definition sample_http :: "nat http_client" where
  "sample_http =
     \<lparr>hx_request = (\<lambda>u. None),
      hx_do = (\<lambda>c u n. (Inr \<lparr>hr_status = (if n = 0 then 404 else 200), hr_data = b64_encode sample_nonce, hr_error = None\<rparr>, Suc n))\<rparr>"

definition sample_guest :: "nat guest_client" where
  "sample_guest = newClient_guest (\<lambda>_. sample_http) ''default'' defaultSocketPath defaultDMIPath None"

lemma sample_guest_request: "hx_request (gc_http sample_guest) u = None"
  by (simp add: sample_guest_def newClient_guest_def sample_http_def)

section \<open>Properties\<close>

text \<open>
  C39: the path of a configuration read is the collection and exactly one more segment, which decodes to
  the key: the key can add no slash, query or fragment. A valid challenge key needs no escaping.
\<close>

theorem config_path_one_segment:
  "configPath key = ''/1.0/config/'' @ PathEscape key \<and> unescape_segment (PathEscape key) = Some key \<and>
   set (PathEscape key) \<inter> set ''/?#'' = {} \<and>
   (case NewConfigKey key of Inl _ \<Rightarrow> True | Inr k \<Rightarrow> configPath k = ''/1.0/config/'' @ k)"
proof -
  have "list_all (\<lambda>c. \<not> path_plain c \<and> c \<noteq> CHR ''%'') ''/?#''" by code_simp
  then have "set (PathEscape key) \<inter> set ''/?#'' = {}"
    using PathEscape_set [of key] unfolding list_all_iff by blast
  moreover have "case NewConfigKey key of Inl _ \<Rightarrow> True | Inr k \<Rightarrow> configPath k = ''/1.0/config/'' @ k"
    using config_key_plain [of key] PathEscape_plain [of key]
    by (auto simp: configPath_def configPrefix_def NewConfigKey_Inr split: sum.split)
  ultimately show ?thesis by (simp add: configPath_def configPrefix_def unescape_PathEscape)
qed

text \<open>
  C16: how the guest adapter and the poll of the agent compose. A read is repeated exactly when the
  transport failed for another reason than the context, or the status is 404, 408, 429 or at least
  500; it yields a value exactly for a complete body of at most 65536 bytes with status 200.
\<close>

theorem guest_read_verdict:
  assumes "hx_request (gc_http gc) (guestHTTPBase @ configPath key) = None"
  shows "case fst (hx_do (gc_http gc) c (guestHTTPBase @ configPath key) w) of
      Inl e \<Rightarrow> poll_verdict (fst (ReadConfig gc c key w)) = None \<longleftrightarrow> \<not> context_error e
    | Inr resp \<Rightarrow>
       (poll_verdict (fst (ReadConfig gc c key w)) = None \<longleftrightarrow>
          (case guest_body resp of
             Inl e \<Rightarrow> \<not> context_error e
           | Inr b \<Rightarrow> length b \<le> 65536 \<and> (hr_status resp \<in> {404, 408, 429} \<or> 500 \<le> hr_status resp))) \<and>
       (\<forall>v. poll_verdict (fst (ReadConfig gc c key w)) = Some (Inr v) \<longleftrightarrow>
          hr_status resp = 200 \<and> v = hr_data resp \<and> hr_error resp = None \<and> length v \<le> 65536)"
proof -
  note res = ReadConfig_result [of gc c key w] get_cases [OF assms, of c w]
  have wrapped: "isRetryable_agent (wrapContext operation e) = isRetryable_agent e" for operation e
    by (simp add: isRetryable_agent_def wrapContext_def)
  show ?thesis
  proof (cases "fst (hx_do (gc_http gc) c (guestHTTPBase @ configPath key) w)")
    case (Inl e)
    with res show ?thesis by (auto simp: poll_verdict_def transportError_simps)
  next
    case (Inr resp)
    show ?thesis
    proof (cases "guest_body resp")
      case (Inl e)
      then have "\<not> (hr_error resp = None \<and> length (hr_data resp) \<le> 65536)"
        using guest_body_Inr [of resp "hr_data resp"] by (auto simp: maxGuestBody_def)
      with res Inr Inl show ?thesis by (auto simp: poll_verdict_def transportError_simps)
    next
      case b: (Inr b)
      show ?thesis
      proof (cases "length b \<le> maxGuestBody")
        case True
        with b guest_body_Inr [of resp b] have "b = hr_data resp" "hr_error resp = None" by auto
        with res Inr b True statusError_simps [of "hr_status resp"] show ?thesis
          by (auto simp: poll_verdict_def maxGuestBody_def)
      next
        case False
        with b guest_body_Inr [of resp "hr_data resp"] have "\<not> (hr_error resp = None \<and> length (hr_data resp) \<le> 65536)"
          by (auto simp: maxGuestBody_def)
        with res Inr b False show ?thesis
          by (auto simp: poll_verdict_def maxGuestBody_def context_error_def isRetryable_agent_def)
      qed
    qed
  qed
qed

lemma guest_read_verdict_witness:
  "poll_verdict (fst (ReadConfig sample_guest background sample_key 0)) = None \<and>
   poll_verdict (fst (ReadConfig sample_guest background sample_key 1)) = Some (Inr (b64_encode sample_nonce))"
proof -
  have "length (b64_encode sample_nonce) = 22" unfolding sample_nonce_def by code_simp
  then have len: "length (b64_encode sample_nonce) \<le> 65536" by simp
  have body: "guest_body \<lparr>hr_status = n, hr_data = b64_encode sample_nonce, hr_error = None\<rparr> = Inr (b64_encode sample_nonce)" for n
    using guest_body_Inr [of "\<lparr>hr_status = n, hr_data = b64_encode sample_nonce, hr_error = None\<rparr>" "b64_encode sample_nonce"] len
    by (simp add: maxGuestBody_def)
  note v = guest_read_verdict [OF sample_guest_request [of "guestHTTPBase @ configPath sample_key"], of background]
  from v [of 0] v [of 1] body len show ?thesis
    by (simp add: sample_guest_def newClient_guest_def sample_http_def)
qed

text \<open>
  No error of \<open>ReadConfig\<close> mentions the key or the value: the text is a fixed phrase, or one with the
  status or the bound.
\<close>

lemma read_config_errors_public:
  assumes "hx_request (gc_http gc) (guestHTTPBase @ configPath key) = None"
  shows "case fst (ReadConfig gc c key w) of
      Inr _ \<Rightarrow> True
    | Inl e \<Rightarrow> err_text e \<in> {[Txt ''read guest config''], [Txt ''guest transport failed''], [Txt ''guest request timeout''],
        [Txt ''guest service unavailable''], [Txt ''guest response exceeds '', Num 65536, Txt '' bytes'']} \<union>
        (\<lambda>n. [Txt ''guest status '', Num n]) ` UNIV"
  using get_cases [OF assms, of c w]
  by (auto simp: ReadConfig_result transportError_def wrapContext_def statusError_def maxGuestBody_def context_error_def
      split: sum.splits if_splits)

lemma read_config_errors_public_witness:
  "case fst (ReadConfig sample_guest background sample_key 0) of Inr _ \<Rightarrow> True
    | Inl e \<Rightarrow> err_text e \<in> {[Txt ''read guest config''], [Txt ''guest transport failed''], [Txt ''guest request timeout''],
        [Txt ''guest service unavailable''], [Txt ''guest response exceeds '', Num 65536, Txt '' bytes'']} \<union>
        (\<lambda>n. [Txt ''guest status '', Num n]) ` UNIV"
  by (rule read_config_errors_public [OF sample_guest_request])

text \<open>
  Claims the adapter returns are valid, with the configured project hint and the canonical UUID of
  the DMI file, so the agent never refuses them.
\<close>

lemma guest_claims_valid:
  "case Claims_guest ul read_file gc c w of
     (Inl _, _) \<Rightarrow> True
   | (Inr cl, _) \<Rightarrow> ValidateClaims ul cl = None \<and> cl_project cl = gc_project gc \<and>
       (\<exists>raw. NewInstanceUUID ul raw = Inr (cl_uuid cl))"
proof (cases "Claims_guest ul read_file gc c w")
  case (Pair r w')
  with Claims_guest_valid [of ul read_file gc c w _ w'] show ?thesis by (cases r) auto
qed

text \<open>
  The metadata fold with its flags computes its specification: each value is that of the first line
  with its key, and empty without one. The lines are the text between line breaks.
\<close>

lemma parse_metadata_first:
  "parseMetadata raw =
     \<lparr>gm_instance_id = metadata_value ''instance-id'' (split_at (CHR 0x0A) raw),
      gm_hostname = metadata_value ''local-hostname'' (split_at (CHR 0x0A) raw)\<rparr> \<and>
   foldr (\<lambda>l r. l @ CHR 0x0A # r) (butlast (split_at (CHR 0x0A) raw)) (last (split_at (CHR 0x0A) raw)) = raw \<and>
   (\<Union>l \<in> set (split_at (CHR 0x0A) raw). set l) \<subseteq> - {CHR 0x0A}"
  using split_at_lines [of "CHR 0x0A" raw]
  by (auto simp: parseMetadata_def fold_metadata metadata_value_def Let_def)

text \<open>
  C40: \<open>decodeInfo\<close> accepts exactly one JSON value between white space, of bounded depth, that is null or
  an object whose known members are strings or null; of each the last string is taken, and unknown
  members are ignored.
\<close>

theorem decode_info_exact:
  "decodeInfo raw = Inr info \<longleftrightarrow>
     (\<exists>w t r v. raw = w @ t @ r \<and> ws w \<and> ws r \<and> spells v t \<and> depth v \<le> maxNestingDepth \<and> info_says v info)"
proof
  assume "decodeInfo raw = Inr info"
  then obtain v r where dec: "json_decode raw = Inr (v, r)" "info_says v info" "json_decode r = Inl JEOF"
    by (auto simp: decodeInfo_def unmarshal_info_Inr [symmetric] split: sum.splits if_splits)
  from dec(3) have "ws r" by (simp add: json_decode_EOF)
  with json_decode_sound [OF dec(1)] dec(2)
  show "\<exists>w t r v. raw = w @ t @ r \<and> ws w \<and> ws r \<and> spells v t \<and> depth v \<le> maxNestingDepth \<and> info_says v info"
    by blast
next
  assume "\<exists>w t r v. raw = w @ t @ r \<and> ws w \<and> ws r \<and> spells v t \<and> depth v \<le> maxNestingDepth \<and> info_says v info"
  then obtain w t r v where v: "raw = w @ t @ r" "ws w" "ws r" "spells v t" "depth v \<le> maxNestingDepth"
    "unmarshal_info v = Inr info" by (auto simp: unmarshal_info_Inr)
  from v(3) have "delim r" by (cases r) (simp_all add: ws_def delim_def)
  from json_decode_Inr [OF this] v have "json_decode raw = Inr (v, r)" by blast
  moreover from v(3) have "json_decode r = Inl JEOF" by (simp add: json_decode_EOF)
  ultimately show "decodeInfo raw = Inr info" using v(6) by (simp add: decodeInfo_def)
qed

end
