(* ===== verification/Runtime.thy ===== *)
theory Runtime
  imports Host Guest Config
begin

text \<open>
  \<open>internal/spire/runtime.go\<close>: the runtimes the plugins publish, their construction, and the mapping of
  errors to gRPC statuses. The second half is the concurrent core of both plugins: any number of
  \<open>Configure\<close> calls, serialised by a mutex, replace the published runtime that attestations load.
\<close>

section \<open>gRPC statuses\<close>

datatype rpc_code =
    CodeCanceled | CodeUnknown | CodeInvalidArgument | CodeDeadlineExceeded | CodePermissionDenied
  | CodeFailedPrecondition

type_synonym rpc_error = "rpc_code \<times> msg"

definition errNotConfigured :: rpc_error where
  "errNotConfigured = (CodeFailedPrecondition, [Txt ''plugin is not configured''])"

definition mapRPCError :: "goerr option \<Rightarrow> rpc_error option" where
  "mapRPCError err =
     (case err of
        None \<Rightarrow> None
      | Some e \<Rightarrow>
          Some (if err_is e CtxCanceled then (CodeCanceled, err_text e)
                else if err_is e CtxDeadlineExceeded then (CodeDeadlineExceeded, err_text e)
                else if err_is e ConfigInvalid \<or> err_is e WireInvalid \<or> err_is e WireUnsupported
                then (CodeInvalidArgument, err_text e)
                else if err_is e AttestDenied then (CodePermissionDenied, err_text e)
                else (CodeUnknown, err_text e)))"

section \<open>Runtimes\<close>

record 'w agent_runtime =
  ar_config :: agent_config
  ar_service :: "'w agent_service"

record 'w server_runtime =
  sr_config :: server_config
  sr_trust_domain :: string
  sr_service :: "'w server_service"
  sr_close_idle :: "('w \<Rightarrow> 'w) option"

text \<open>What the builders use of the system: the guest socket and files, and the Incus library.\<close>

record 'w guest_system =
  gs_uuid :: uuid_lib
  gs_wait :: "'w wait_func"
  gs_unix_http :: "string \<Rightarrow> 'w http_client"
  gs_read_file :: "'w file_reader"

text \<open>\<open>hs_open\<close>: the contents of an opened file and the error that ends them instead of EOF.\<close>

record 'w host_system =
  hs_uuid :: uuid_lib
  hs_status :: status_match
  hs_wait :: "'w wait_func"
  hs_open :: "string \<Rightarrow> 'w \<Rightarrow> (string \<times> goerr option) result \<times> 'w"
  hs_connect :: "ctx \<Rightarrow> string \<Rightarrow> string \<times> string \<times> string \<Rightarrow> 'w \<Rightarrow> 'w incus_api result \<times> 'w"
  hs_random :: "'w random_source"

definition buildAgentRuntime :: "'w guest_system \<Rightarrow> agent_config \<Rightarrow> string \<Rightarrow> 'w agent_runtime result" where
  "buildAgentRuntime sys cfg trustDomain =
     (case ValidateAgent cfg trustDomain of
        Some e \<Rightarrow> Inl e
      | None \<Rightarrow>
         (case New_agent (gs_wait sys)
                 (Some (guest_port (gs_uuid sys) (gs_read_file sys) (New_guest (gs_unix_http sys) (ac_project cfg))))
                 (ac_poll_timeout cfg) of
            Inl e \<Rightarrow> Inl (Wrapf [Txt ''construct agent service: ''] e [])
          | Inr service \<Rightarrow> Inr \<lparr>ar_config = cfg, ar_service = service\<rparr>))"

definition maxCredentialBytes :: nat where
  "maxCredentialBytes = 65536"

definition readCredential :: "'w host_system \<Rightarrow> string \<Rightarrow> string \<Rightarrow> 'w \<Rightarrow> string result \<times> 'w" where
  "readCredential sys path role w =
     (case hs_open sys path w of
        (Inl e, w1) \<Rightarrow> (Inl (Wrapf [Txt (''read '' @ role @ '': '')] e []), w1)
      | (Inr (contents, err), w1) \<Rightarrow>
          (case read_limited (maxCredentialBytes + 1) contents err of
             Inl e \<Rightarrow> Inl (Wrapf [Txt (''read '' @ role @ '': '')] e [])
           | Inr data \<Rightarrow>
               if length data > maxCredentialBytes
               then Inl (Plain [Txt (''read '' @ role @ '': exceeds ''), Num (int maxCredentialBytes), Txt '' bytes''])
               else Inr data, w1))"

text \<open>The last part of \<open>buildServerRuntime\<close>: the connection and the service over it.\<close>

definition connect_server_runtime ::
    "'w host_system \<Rightarrow> ctx \<Rightarrow> server_config \<Rightarrow> string \<Rightarrow> string \<Rightarrow> string \<Rightarrow> string \<Rightarrow> 'w \<Rightarrow> 'w server_runtime result \<times> 'w" where
  "connect_server_runtime sys c cfg trustDomain ca cert key w =
     (case New_host (hs_connect sys) (hs_wait sys) c (sc_incus_endpoint cfg) ca cert key w of
        (Inl e, w1) \<Rightarrow> (Inl e, w1)
      | (Inr client, w1) \<Rightarrow>
         (case New_server (Some (host_port (hs_uuid sys) (hs_status sys) client)) cfg trustDomain (Some (hs_random sys)) of
            Inl e \<Rightarrow> (Inl (Wrapf [Txt ''construct server service: ''] e []), CloseIdleConnections client w1)
          | Inr service \<Rightarrow>
              (Inr \<lparr>sr_config = cfg, sr_trust_domain = trustDomain, sr_service = service,
                    sr_close_idle = Some (CloseIdleConnections client)\<rparr>, w1)))"

definition buildServerRuntime ::
    "'w host_system \<Rightarrow> ctx \<Rightarrow> server_config \<Rightarrow> string \<Rightarrow> 'w \<Rightarrow> 'w server_runtime result \<times> 'w" where
  "buildServerRuntime sys c cfg trustDomain w =
     (case ValidateServer cfg trustDomain of
        Some e \<Rightarrow> (Inl e, w)
      | None \<Rightarrow>
         (case readCredential sys (sc_tls_ca_path cfg) ''tls_ca_path'' w of
            (Inl e, w1) \<Rightarrow> (Inl e, w1)
          | (Inr ca, w1) \<Rightarrow>
             (case readCredential sys (sc_tls_cert_path cfg) ''tls_cert_path'' w1 of
                (Inl e, w2) \<Rightarrow> (Inl e, w2)
              | (Inr cert, w2) \<Rightarrow>
                 (case readCredential sys (sc_tls_key_path cfg) ''tls_key_path'' w2 of
                    (Inl e, w3) \<Rightarrow> (Inl e, w3)
                  | (Inr key, w3) \<Rightarrow> connect_server_runtime sys c cfg trustDomain ca cert key w3))))"

section \<open>Publication: the steps of concurrent calls\<close>

text \<open>
  A runtime is tagged with the number of its build. \<open>Configure\<close> call \<open>i\<close> has requested the mutex, holds
  it, has built a runtime, has published it (and remembers the one it replaced), or has returned.
  Attestation \<open>j\<close> loads one snapshot.
\<close>

datatype 'rt configure_pc =
    Requested | Locked | Built nat 'rt | Published "(nat \<times> 'rt) option" | Finished "rpc_error option"

record ('rt, 'w) plugin_state =
  pl_lock :: "nat option"
  pl_runtime :: "(nat \<times> 'rt) option"
  pl_pc :: "nat \<Rightarrow> 'rt configure_pc"
  pl_snapshot :: "nat \<Rightarrow> (nat \<times> 'rt) option option"
  pl_builds :: nat
  pl_retired :: "nat list"
  pl_world :: 'w

definition initial_plugin :: "'w \<Rightarrow> ('rt, 'w) plugin_state" where
  "initial_plugin w = \<lparr>pl_lock = None, pl_runtime = None, pl_pc = (\<lambda>_. Requested), pl_snapshot = (\<lambda>_. None),
     pl_builds = 0, pl_retired = [], pl_world = w\<rparr>"

text \<open>Retirement of the replaced runtime.\<close>

definition retire :: "('rt \<Rightarrow> 'w \<Rightarrow> 'w) \<Rightarrow> (nat \<times> 'rt) option \<Rightarrow> 'w \<Rightarrow> 'w" where
  "retire close old w = (case old of None \<Rightarrow> w | Some (n, rt) \<Rightarrow> close rt w)"

definition retired_tags :: "(nat \<times> 'rt) option \<Rightarrow> nat list" where
  "retired_tags old = (case old of None \<Rightarrow> [] | Some (n, rt) \<Rightarrow> [n])"

text \<open>
  \<open>build i\<close> is what call \<open>i\<close> does between taking the mutex and publishing: it checks, decodes and
  validates its request and builds the runtime.
\<close>

inductive plugin_step ::
    "(nat \<Rightarrow> 'w \<Rightarrow> 'rt result \<times> 'w) \<Rightarrow> ('rt \<Rightarrow> 'w \<Rightarrow> 'w) \<Rightarrow> ('rt, 'w) plugin_state \<Rightarrow> ('rt, 'w) plugin_state \<Rightarrow> bool"
  for build close where
  lock: "pl_pc s i = Requested \<Longrightarrow> pl_lock s = None \<Longrightarrow>
     plugin_step build close s (s\<lparr>pl_lock := Some i, pl_pc := (pl_pc s)(i := Locked)\<rparr>)"
| fail: "pl_pc s i = Locked \<Longrightarrow> build i (pl_world s) = (Inl e, w) \<Longrightarrow>
     plugin_step build close s
       (s\<lparr>pl_lock := None, pl_pc := (pl_pc s)(i := Finished (mapRPCError (Some e))), pl_world := w\<rparr>)"
| built: "pl_pc s i = Locked \<Longrightarrow> build i (pl_world s) = (Inr rt, w) \<Longrightarrow>
     plugin_step build close s
       (s\<lparr>pl_pc := (pl_pc s)(i := Built (pl_builds s) rt), pl_builds := Suc (pl_builds s), pl_world := w\<rparr>)"
| swap: "pl_pc s i = Built n rt \<Longrightarrow>
     plugin_step build close s (s\<lparr>pl_pc := (pl_pc s)(i := Published (pl_runtime s)), pl_runtime := Some (n, rt)\<rparr>)"
| retired: "pl_pc s i = Published old \<Longrightarrow>
     plugin_step build close s
       (s\<lparr>pl_lock := None, pl_pc := (pl_pc s)(i := Finished None), pl_retired := retired_tags old @ pl_retired s,
          pl_world := retire close old (pl_world s)\<rparr>)"
| load: "pl_snapshot s j = None \<Longrightarrow>
     plugin_step build close s (s\<lparr>pl_snapshot := (pl_snapshot s)(j := Some (pl_runtime s))\<rparr>)"

text \<open>
  The reachable states of the plugin in an environment that may change the world between any two steps:
  attestations on the loaded runtimes, Incus and the guests.
\<close>

inductive plugin_reachable ::
    "(nat \<Rightarrow> 'w \<Rightarrow> 'rt result \<times> 'w) \<Rightarrow> ('rt \<Rightarrow> 'w \<Rightarrow> 'w) \<Rightarrow> ('rt, 'w) plugin_state \<Rightarrow> bool"
  for build close where
  start: "plugin_reachable build close (initial_plugin w)"
| step: "plugin_reachable build close s \<Longrightarrow> plugin_step build close s t \<Longrightarrow> plugin_reachable build close t"
| environment: "plugin_reachable build close s \<Longrightarrow> plugin_reachable build close (s\<lparr>pl_world := w\<rparr>)"

definition critical :: "'rt configure_pc \<Rightarrow> bool" where
  "critical pc \<longleftrightarrow> (case pc of Requested \<Rightarrow> False | Finished _ \<Rightarrow> False | _ \<Rightarrow> True)"

lemma critical_simps [simp]:
  "\<not> critical Requested" "critical Locked" "critical (Built n rt)" "critical (Published old)" "\<not> critical (Finished r)"
  by (simp_all add: critical_def)

text \<open>
  The invariant, in three parts. The mutex is held by the one call in its critical section. The build a
  call has made is fresh, the one it has replaced is neither published nor retired yet, and no published
  build is retired, nor any twice. Every runtime that is built, published or loaded satisfies \<open>ok\<close>.
\<close>

definition lock_inv :: "('rt, 'w) plugin_state \<Rightarrow> bool" where
  "lock_inv s \<longleftrightarrow> (\<forall>i. critical (pl_pc s i) \<longleftrightarrow> pl_lock s = Some i)"

definition pending :: "'rt configure_pc \<Rightarrow> nat set" where
  "pending pc = (case pc of Built n _ \<Rightarrow> {n} | Published (Some (n, _)) \<Rightarrow> {n} | _ \<Rightarrow> {})"

lemma pending_simps [simp]:
  "pending Requested = {}" "pending Locked = {}" "pending (Built n rt) = {n}" "pending (Finished r) = {}"
  "pending (Published old) = (case old of None \<Rightarrow> {} | Some (n, _) \<Rightarrow> {n})"
  by (simp_all add: pending_def split: option.split)

definition tag_inv :: "('rt, 'w) plugin_state \<Rightarrow> bool" where
  "tag_inv s \<longleftrightarrow>
     (\<forall>i. \<forall>n\<in>pending (pl_pc s i). n < pl_builds s \<and> n \<notin> set (pl_retired s) \<and> n \<notin> fst ` set_option (pl_runtime s)) \<and>
     (\<forall>n \<in> fst ` set_option (pl_runtime s). n < pl_builds s \<and> n \<notin> set (pl_retired s)) \<and>
     distinct (pl_retired s) \<and> (\<forall>n\<in>set (pl_retired s). n < pl_builds s)"

definition built_runtimes :: "'rt configure_pc \<Rightarrow> 'rt set" where
  "built_runtimes pc = (case pc of Built _ rt \<Rightarrow> {rt} | Published old \<Rightarrow> snd ` set_option old | _ \<Rightarrow> {})"

lemma built_runtimes_simps [simp]:
  "built_runtimes Requested = {}" "built_runtimes Locked = {}" "built_runtimes (Built n rt) = {rt}"
  "built_runtimes (Published old) = snd ` set_option old" "built_runtimes (Finished r) = {}"
  by (simp_all add: built_runtimes_def)

definition ok_inv :: "('rt \<Rightarrow> bool) \<Rightarrow> ('rt, 'w) plugin_state \<Rightarrow> bool" where
  "ok_inv ok s \<longleftrightarrow>
     (\<forall>i. \<forall>rt\<in>built_runtimes (pl_pc s i). ok rt) \<and> (\<forall>rt \<in> snd ` set_option (pl_runtime s). ok rt) \<and>
     (\<forall>j snap. pl_snapshot s j = Some snap \<longrightarrow> (\<forall>rt \<in> snd ` set_option snap. ok rt))"

lemma lock_inv_step: "plugin_step build close s t \<Longrightarrow> lock_inv s \<Longrightarrow> lock_inv t"
  by (induction rule: plugin_step.induct) (force simp: lock_inv_def)+

lemma lock_inv_unique: "lock_inv s \<Longrightarrow> critical (pl_pc s i) \<Longrightarrow> critical (pl_pc s j) \<Longrightarrow> i = j"
  unfolding lock_inv_def by (metis option.inject)

lemma pending_critical: "n \<in> pending pc \<Longrightarrow> critical pc"
  by (cases pc) auto

lemma tag_inv_step:
  assumes "plugin_step build close s t" "lock_inv s" "tag_inv s"
  shows "tag_inv t"
  using assms
proof (induction rule: plugin_step.induct)
  case (lock s i)
  then show ?case by (auto simp: tag_inv_def)
next
  case (fail s i e w)
  then show ?case by (auto simp: tag_inv_def)
next
  case (built s i rt w)
  then have "\<forall>j. j \<noteq> i \<longrightarrow> pending (pl_pc s j) = {}"
    using lock_inv_unique [of s i] pending_critical by fastforce
  with built(4) show ?case by (auto simp: tag_inv_def less_Suc_eq)
next
  case (swap s i n rt)
  then have "\<forall>j. j \<noteq> i \<longrightarrow> pending (pl_pc s j) = {}"
    using lock_inv_unique [of s i] pending_critical by fastforce
  moreover from swap(3) have "\<forall>m\<in>pending (pl_pc s i). m < pl_builds s \<and> m \<notin> set (pl_retired s) \<and> m \<notin> fst ` set_option (pl_runtime s)"
    unfolding tag_inv_def by blast
  ultimately show ?case using swap(1,3) unfolding tag_inv_def by (auto split: option.splits)
next
  case (retired s i old)
  then have "\<forall>j. j \<noteq> i \<longrightarrow> pending (pl_pc s j) = {}"
    using lock_inv_unique [of s i] pending_critical by fastforce
  moreover from retired(3) have "\<forall>m\<in>pending (pl_pc s i). m < pl_builds s \<and> m \<notin> set (pl_retired s) \<and> m \<notin> fst ` set_option (pl_runtime s)"
    unfolding tag_inv_def by blast
  ultimately show ?case using retired(1,3)
    by (cases old) (auto simp: tag_inv_def retired_tags_def)
qed (auto simp: tag_inv_def)

lemma ok_inv_step:
  assumes "plugin_step build close s t" "\<And>i w rt w'. build i w = (Inr rt, w') \<Longrightarrow> ok rt" "ok_inv ok s"
  shows "ok_inv ok t"
  using assms
proof (induction rule: plugin_step.induct)
  case (swap s i n rt)
  then have "\<forall>r\<in>built_runtimes (pl_pc s i). ok r" unfolding ok_inv_def by blast
  with swap show ?case by (auto simp: ok_inv_def)
qed (auto simp: ok_inv_def split: if_splits)

lemma reachable_inv:
  assumes "plugin_reachable build close s"
  shows "lock_inv s \<and> tag_inv s"
  using assms
proof induction
  case (start w)
  show ?case by (simp add: lock_inv_def tag_inv_def initial_plugin_def)
next
  case (step s t)
  then show ?case using lock_inv_step tag_inv_step by blast
next
  case (environment s w)
  then show ?case by (simp add: lock_inv_def tag_inv_def)
qed

lemma reachable_ok:
  assumes "plugin_reachable build close s" "\<And>i w rt w'. build i w = (Inr rt, w') \<Longrightarrow> ok rt"
  shows "ok_inv ok s"
  using assms(1)
proof induction
  case (start w)
  show ?case by (simp add: ok_inv_def initial_plugin_def)
next
  case (step s t)
  then show ?case using ok_inv_step assms(2) by metis
next
  case (environment s w)
  then show ?case by (simp add: ok_inv_def)
qed

text \<open>Progress: whoever holds the mutex reaches its end by steps of its own.\<close>

lemma critical_releases:
  assumes "pl_lock s = Some i" "lock_inv s"
  shows "\<exists>t. (plugin_step build close)\<^sup>*\<^sup>* s t \<and> pl_lock t = None \<and> (\<exists>r. pl_pc t i = Finished r)"
proof -
  have published: "\<exists>t. (plugin_step build close)\<^sup>*\<^sup>* s t \<and> pl_lock t = None \<and> (\<exists>r. pl_pc t i = Finished r)"
    if "pl_pc s i = Published old" for s :: "('a, 'b) plugin_state" and old
    by (rule exI, rule conjI, rule r_into_rtranclp, rule plugin_step.retired [OF that]) simp
  have built: "\<exists>t. (plugin_step build close)\<^sup>*\<^sup>* s t \<and> pl_lock t = None \<and> (\<exists>r. pl_pc t i = Finished r)"
    if "pl_pc s i = Built n rt" for s :: "('a, 'b) plugin_state" and n rt
  proof -
    let ?s = "s\<lparr>pl_pc := (pl_pc s)(i := Published (pl_runtime s)), pl_runtime := Some (n, rt)\<rparr>"
    have "pl_pc ?s i = Published (pl_runtime s)" by simp
    from published [OF this] plugin_step.swap [OF that] show ?thesis by (meson converse_rtranclp_into_rtranclp)
  qed
  have locked: "\<exists>t. (plugin_step build close)\<^sup>*\<^sup>* s t \<and> pl_lock t = None \<and> (\<exists>r. pl_pc t i = Finished r)"
    if "pl_pc s i = Locked"
  proof (cases "build i (pl_world s)")
    case (Pair r w)
    show ?thesis
    proof (cases r)
      case (Inl e)
      with Pair have "build i (pl_world s) = (Inl e, w)" by simp
      from plugin_step.fail [where build = build, OF that this] show ?thesis
        by (intro exI conjI) (rule r_into_rtranclp, assumption, simp_all)
    next
      case (Inr rt)
      with Pair have b: "build i (pl_world s) = (Inr rt, w)" by simp
      let ?s = "s\<lparr>pl_pc := (pl_pc s)(i := Built (pl_builds s) rt), pl_builds := Suc (pl_builds s), pl_world := w\<rparr>"
      have "pl_pc ?s i = Built (pl_builds s) rt" by simp
      from built [OF this] plugin_step.built [where build = build, OF that b] show ?thesis by (meson converse_rtranclp_into_rtranclp)
    qed
  qed
  from assms have "critical (pl_pc s i)" by (simp add: lock_inv_def)
  with published built locked show ?thesis by (cases "pl_pc s i") auto
qed

section \<open>Constructed runtimes\<close>

lemma readCredential_Inr:
  "readCredential sys path role w = (Inr d, w') \<Longrightarrow>
   hs_open sys path w = (Inr (d, None), w') \<and> length d \<le> maxCredentialBytes"
  by (auto simp: readCredential_def read_limited_def split: prod.splits sum.splits option.splits if_splits)

text \<open>A runtime whose service was built from the validated configuration it records.\<close>

definition server_runtime_ok :: "'w server_runtime \<Rightarrow> bool" where
  "server_runtime_ok rt \<longleftrightarrow>
     server_config_ok (sr_config rt) (sr_trust_domain rt) \<and>
     sv_projects (sr_service rt) = sc_projects (sr_config rt) \<and>
     sv_user_selectors (sr_service rt) = sc_user_selectors (sr_config rt) \<and>
     sv_trust_domain (sr_service rt) = sr_trust_domain rt \<and>
     sv_incus_timeout (sr_service rt) = sc_incus_timeout (sr_config rt) \<and>
     sv_challenge_timeout (sr_service rt) = sc_challenge_response_timeout (sr_config rt) \<and>
     sv_cleanup_timeout (sr_service rt) = sc_cleanup_timeout (sr_config rt) \<and>
     sr_close_idle rt \<noteq> None"

definition agent_runtime_ok :: "'w agent_runtime \<Rightarrow> string \<Rightarrow> bool" where
  "agent_runtime_ok rt trustDomain \<longleftrightarrow>
     ValidateAgent (ar_config rt) trustDomain = None \<and>
     ag_poll_timeout (ar_service rt) = ac_poll_timeout (ar_config rt) \<and> 0 < ag_poll_timeout (ar_service rt)"

lemma New_server_Inr:
  "New_server client cfg td random = Inr s \<Longrightarrow>
   server_config_ok cfg td \<and> client = Some (sv_client s) \<and> sv_projects s = sc_projects cfg \<and>
   sv_user_selectors s = sc_user_selectors cfg \<and> sv_trust_domain s = td \<and>
   sv_incus_timeout s = sc_incus_timeout cfg \<and> sv_challenge_timeout s = sc_challenge_response_timeout cfg \<and>
   sv_cleanup_timeout s = sc_cleanup_timeout cfg"
  by (auto simp: New_server_def ValidateServer_None [symmetric] split: option.splits)

lemma buildServerRuntime_Inr:
  assumes "buildServerRuntime sys c cfg td w = (Inr rt, w')"
  shows "server_runtime_ok rt \<and> sr_config rt = cfg \<and> sr_trust_domain rt = td \<and>
    (\<exists>client. sv_client (sr_service rt) = host_port (hs_uuid sys) (hs_status sys) client)"
proof -
  from assms obtain ca cert key w3 where "connect_server_runtime sys c cfg td ca cert key w3 = (Inr rt, w')"
    by (auto simp: buildServerRuntime_def split: option.splits prod.splits sum.splits)
  then obtain client w4 where
    "New_server (Some (host_port (hs_uuid sys) (hs_status sys) client)) cfg td (Some (hs_random sys)) = Inr (sr_service rt)"
    "sr_config rt = cfg" "sr_trust_domain rt = td" "sr_close_idle rt = Some (CloseIdleConnections client)"
    by (auto simp: connect_server_runtime_def split: prod.splits sum.splits)
  with New_server_Inr [OF this(1)] show ?thesis
    by (simp add: server_runtime_ok_def) (rule exI [of _ client], simp)
qed

lemma buildAgentRuntime_Inr:
  "buildAgentRuntime sys cfg td = Inr rt \<longleftrightarrow>
     ValidateAgent cfg td = None \<and>
     rt = \<lparr>ar_config = cfg, ar_service = \<lparr>
        ag_evidence = guest_port (gs_uuid sys) (gs_read_file sys) (New_guest (gs_unix_http sys) (ac_project cfg)),
        ag_poll_timeout = ac_poll_timeout cfg, ag_wait = gs_wait sys\<rparr>\<rparr>"
  using ValidateAgent_None [of cfg td]
  by (cases "ValidateAgent cfg td") (auto simp: buildAgentRuntime_def New_agent_def newService_def)

text \<open>
  The code of an error is decided by its class: a context error, then an invalid configuration or wire
  message, then a denial, and otherwise Unknown.
\<close>

definition rpc_class :: "goerr \<Rightarrow> rpc_code" where
  "rpc_class e =
     (if context_error e then if err_is e CtxCanceled then CodeCanceled else CodeDeadlineExceeded
      else if \<exists>s \<in> {ConfigInvalid, WireInvalid, WireUnsupported}. err_is e s then CodeInvalidArgument
      else if err_is e AttestDenied then CodePermissionDenied else CodeUnknown)"

lemma mapRPCError_class: "mapRPCError err = map_option (\<lambda>e. (rpc_class e, err_text e)) err"
  by (auto simp: mapRPCError_def rpc_class_def context_error_def split: option.split)

lemma mapRPCError_Some [simp]: "mapRPCError (Some e) \<noteq> None" "None \<noteq> mapRPCError (Some e)"
  by (simp_all add: mapRPCError_def)

section \<open>Classes of configuration errors\<close>

lemma rpc_invalid: "err_is e = (\<lambda>s. s = ConfigInvalid) \<Longrightarrow> rpc_class e = CodeInvalidArgument"
  by (simp add: rpc_class_def context_error_def)

lemma rpc_denied: "err_is e = (\<lambda>s. s = AttestDenied) \<Longrightarrow> rpc_class e = CodePermissionDenied"
  by (simp add: rpc_class_def context_error_def)

lemma parseOptionalDuration_invalid:
  "parseOptionalDuration raw d attr = Inl e \<Longrightarrow> err_is e = (\<lambda>s. s = ConfigInvalid)"
  by (auto simp: parseOptionalDuration_def ErrInvalid_config_def fun_eq_iff dest!: ParseDuration_plain
      split: option.splits sum.splits)

lemma Decode_invalid:
  "DecodeServer hcl src = Inl e \<Longrightarrow> (\<And>x. hcl src = Inl x \<Longrightarrow> \<not> context_error x) \<Longrightarrow> rpc_class e = CodeInvalidArgument"
  "DecodeAgent hcl' src = Inl e' \<Longrightarrow> (\<And>x. hcl' src = Inl x \<Longrightarrow> \<not> context_error x) \<Longrightarrow> rpc_class e' = CodeInvalidArgument"
  by (auto simp: DecodeServer_def DecodeAgent_def rpc_class_def context_error_def ErrInvalid_config_def
      dest!: parseOptionalDuration_invalid split: sum.splits)

section \<open>A sample plugin\<close>

definition sample_build :: "nat \<Rightarrow> unit \<Rightarrow> string result \<times> unit" where
  "sample_build i w = (Inr ''runtime'', w)"

definition sample_locked :: "(string, unit) plugin_state" where
  "sample_locked = (initial_plugin ())\<lparr>pl_lock := Some 0, pl_pc := (\<lambda>_. Requested)(0 := Locked)\<rparr>"

definition sample_published :: "(string, unit) plugin_state" where
  "sample_published = sample_locked\<lparr>pl_pc := (\<lambda>_. Requested)(0 := Published None), pl_builds := 1,
     pl_runtime := Some (0, ''runtime'')\<rparr>"

lemma sample_locked_reachable: "plugin_reachable sample_build (\<lambda>_ w. w) sample_locked"
  using plugin_reachable.step [OF plugin_reachable.start plugin_step.lock [of "initial_plugin ()" 0], of sample_build "\<lambda>_ w. w"]
  by (simp add: sample_locked_def initial_plugin_def)

lemma sample_published_reachable: "plugin_reachable sample_build (\<lambda>_ w. w) sample_published"
proof -
  let ?b = "sample_locked\<lparr>pl_pc := (pl_pc sample_locked)(0 := Built 0 ''runtime''), pl_builds := 1\<rparr>"
  have "plugin_step sample_build (\<lambda>_ w. w) sample_locked ?b"
    using plugin_step.built [of sample_locked 0 sample_build "''runtime''" "()" "\<lambda>_ w. w"]
    by (simp add: sample_locked_def sample_build_def initial_plugin_def)
  then have "plugin_reachable sample_build (\<lambda>_ w. w) ?b" by (rule plugin_reachable.step [OF sample_locked_reachable])
  moreover have "plugin_step sample_build (\<lambda>_ w. w) ?b sample_published"
    using plugin_step.swap [of ?b 0 0 "''runtime''" sample_build "\<lambda>_ w. w"]
    by (simp add: sample_published_def sample_locked_def initial_plugin_def)
  ultimately show ?thesis by (rule plugin_reachable.step)
qed

section \<open>Properties\<close>

text \<open>
  C8: in every reachable state of the concurrent plugin: the mutex is held exactly by the one
  \<open>Configure\<close> call between its lock and its unlock, so no two overlap; the published build has not been
  retired, no build is retired twice; and every runtime that is published or loaded by an attestation is
  one the build produced, with whatever property \<open>ok\<close> it guarantees.
\<close>

theorem published_runtimes:
  assumes "plugin_reachable build close s" and "\<And>i w rt w'. build i w = (Inr rt, w') \<Longrightarrow> ok rt"
  shows "card {i. critical (pl_pc s i)} \<le> 1 \<and> {i. critical (pl_pc s i)} = set_option (pl_lock s) \<and>
    fst ` set_option (pl_runtime s) \<inter> set (pl_retired s) = {} \<and> distinct (pl_retired s) \<and>
    snd ` set_option (pl_runtime s) \<subseteq> Collect ok \<and>
    (\<Union>j. \<Union>snap \<in> set_option (pl_snapshot s j). snd ` set_option snap) \<subseteq> Collect ok"
proof -
  have "ok_inv ok s" by (rule reachable_ok [OF assms(1)]) (rule assms(2))
  note inv = reachable_inv [OF assms(1)] this
  have crit: "{i. critical (pl_pc s i)} = set_option (pl_lock s)"
    using inv(1) by (auto simp: lock_inv_def)
  then have "card {i. critical (pl_pc s i)} \<le> 1" by (cases "pl_lock s") auto
  moreover have "fst ` set_option (pl_runtime s) \<inter> set (pl_retired s) = {}" "distinct (pl_retired s)"
    using inv(1) by (auto simp: tag_inv_def)
  moreover have "snd ` set_option (pl_runtime s) \<subseteq> Collect ok"
    "(\<Union>j. \<Union>snap \<in> set_option (pl_snapshot s j). snd ` set_option snap) \<subseteq> Collect ok"
    using inv(2) unfolding ok_inv_def by (blast, force)
  ultimately show ?thesis using crit by blast
qed

lemma published_runtimes_witness:
  "distinct (pl_retired sample_published) \<and> snd ` set_option (pl_runtime sample_published) \<subseteq> {rt. rt = ''runtime''} \<and>
    (\<Union>j. \<Union>snap \<in> set_option (pl_snapshot sample_published j). snd ` set_option snap) \<subseteq> {rt. rt = ''runtime''}"
  by (rule published_runtimes [of sample_build "\<lambda>_ w. w" sample_published "\<lambda>rt. rt = ''runtime''",
        THEN conjunct2, THEN conjunct2, THEN conjunct2])
    (rule sample_published_reachable, simp add: sample_build_def)

text \<open>
  C36: no \<open>Configure\<close> call keeps the mutex for ever: from every reachable state in which call \<open>i\<close> holds it,
  steps lead to a state in which \<open>i\<close> has returned and the mutex is free.
\<close>

theorem mutex_released:
  assumes "plugin_reachable build close s" and "pl_lock s = Some i"
  shows "\<exists>t. (plugin_step build close)\<^sup>*\<^sup>* s t \<and> pl_lock t = None \<and> (\<exists>r. pl_pc t i = Finished r)"
  using critical_releases [OF assms(2)] reachable_inv [OF assms(1)] by blast

lemma mutex_released_witness:
  "\<exists>t. (plugin_step sample_build (\<lambda>_ w. w))\<^sup>*\<^sup>* sample_locked t \<and> pl_lock t = None \<and> (\<exists>r. pl_pc t 0 = Finished r)"
  by (rule mutex_released [OF sample_locked_reachable]) (simp add: sample_locked_def)

text \<open>
  C38: a server runtime is built only from a configuration that meets every constraint, with a service
  that carries its lists, trust domain and deadlines over the Incus adapter, and with the hook that
  closes its idle connections; a credential is the whole file, of at most 65536 bytes.
\<close>

theorem server_runtime_well_formed:
  "(case buildServerRuntime sys c cfg td w of
      (Inl _, _) \<Rightarrow> True
    | (Inr rt, _) \<Rightarrow> server_runtime_ok rt \<and> sr_config rt = cfg \<and> sr_trust_domain rt = td \<and>
        (\<exists>client. sv_client (sr_service rt) = host_port (hs_uuid sys) (hs_status sys) client)) \<and>
   (case readCredential sys path role w of
      (Inl _, _) \<Rightarrow> True
    | (Inr d, w') \<Rightarrow> hs_open sys path w = (Inr (d, None), w') \<and> length d \<le> 65536)"
  using buildServerRuntime_Inr [of sys c cfg td w] readCredential_Inr [of sys path role w]
  by (auto simp: maxCredentialBytes_def split: prod.split sum.split)

end
