(* ===== verification/Spire.thy ===== *)
theory Spire
  imports Runtime
begin

text \<open>
  The rest of \<open>internal/spire\<close>: the two plugins with their Config RPCs and the adapters from the gRPC
  streams to the exchange ports of the services. \<open>Configure\<close> is given as one sequential call; the steps
  it is made of, and their interleavings, are in \<open>Runtime\<close>.
\<close>

section \<open>Requests\<close>

text \<open>
  The request surface of the Config RPCs: the trust domain of the core configuration, \<open>None\<close> without
  one, and the HCL text. A nil request is \<open>None\<close>.
\<close>

record config_request =
  rq_trust_domain :: "string option"
  rq_hcl :: string

definition request_required :: goerr where
  "request_required = Wrapf [] ErrInvalid_config [Txt '': request is required'']"

definition core_required :: goerr where
  "core_required = Wrapf [] ErrInvalid_config [Txt '': core configuration is required'']"

text \<open>\<open>ValidateResponse\<close>: \<open>Valid\<close> and the notes.\<close>

record validate_response =
  vr_valid :: bool
  vr_notes :: "msg list"

section \<open>The agent plugin (\<open>agent.go\<close>)\<close>

definition decodeValidAgent :: "(string \<Rightarrow> rawAgent result) \<Rightarrow> config_request \<Rightarrow> (agent_config \<times> string) result" where
  "decodeValidAgent hcl req =
     (case rq_trust_domain req of
        None \<Rightarrow> Inl core_required
      | Some td \<Rightarrow>
         (case DecodeAgent hcl (rq_hcl req) of
            Inl e \<Rightarrow> Inl e
          | Inr cfg \<Rightarrow>
             (case ValidateAgent cfg td of
                Some e \<Rightarrow> Inl e
              | None \<Rightarrow> Inr (cfg, td))))"

type_synonym ('cfg, 'rt, 'w) builder = "ctx \<Rightarrow> 'cfg \<Rightarrow> string \<Rightarrow> 'w \<Rightarrow> 'rt result \<times> 'w"

record 'w agent_plugin =
  ap_runtime :: "'w agent_runtime option"
  ap_build :: "(agent_config, 'w agent_runtime, 'w) builder"

definition NewAgentPlugin :: "'w guest_system \<Rightarrow> 'w agent_plugin" where
  "NewAgentPlugin sys = \<lparr>ap_runtime = None, ap_build = (\<lambda>_ cfg td w. (buildAgentRuntime sys cfg td, w))\<rparr>"

definition Validate_agent :: "(string \<Rightarrow> rawAgent result) \<Rightarrow> config_request option \<Rightarrow> validate_response" where
  "Validate_agent hcl req =
     (case req of
        None \<Rightarrow> \<lparr>vr_valid = False, vr_notes = [err_text request_required]\<rparr>
      | Some r \<Rightarrow>
         (case decodeValidAgent hcl r of
            Inl e \<Rightarrow> \<lparr>vr_valid = False, vr_notes = [err_text e]\<rparr>
          | Inr _ \<Rightarrow> \<lparr>vr_valid = True, vr_notes = []\<rparr>))"

definition Configure_agent ::
    "(string \<Rightarrow> rawAgent result) \<Rightarrow> ctx \<Rightarrow> config_request option \<Rightarrow> 'w agent_plugin \<Rightarrow> 'w \<Rightarrow>
     rpc_error option \<times> 'w agent_plugin \<times> 'w" where
  "Configure_agent hcl c req p w =
     (case req of
        None \<Rightarrow> (mapRPCError (Some request_required), p, w)
      | Some r \<Rightarrow>
         (case decodeValidAgent hcl r of
            Inl e \<Rightarrow> (mapRPCError (Some e), p, w)
          | Inr (cfg, td) \<Rightarrow>
             (case ap_build p c cfg td w of
                (Inl e, w1) \<Rightarrow> (mapRPCError (Some e), p, w1)
              | (Inr rt, w1) \<Rightarrow> (None, p\<lparr>ap_runtime := Some rt\<rparr>, w1))))"

section \<open>The agent exchange (\<open>agent_exchange.go\<close>)\<close>

text \<open>
  A stream message of the agent, and the challenge of a received message; a nil message or challenge
  field is \<open>None\<close>.
\<close>

datatype agent_message = PayloadMessage string | ChallengeResponseMessage string

record 'w agent_stream =
  as_context :: ctx
  as_send :: "agent_message \<Rightarrow> 'w \<Rightarrow> goerr option \<times> 'w"
  as_recv :: "'w \<Rightarrow> string option option result \<times> 'w"

definition SendPayload_agent :: "'w agent_stream \<Rightarrow> ctx \<Rightarrow> string \<Rightarrow> 'w \<Rightarrow> goerr option \<times> 'w" where
  "SendPayload_agent st c payload w = as_send st (PayloadMessage payload) w"

definition ReceiveChallenge_agent :: "('w \<Rightarrow> int) \<Rightarrow> 'w agent_stream \<Rightarrow> ctx \<Rightarrow> 'w \<Rightarrow> string result \<times> 'w" where
  "ReceiveChallenge_agent clock st c w =
     (case as_recv st w of
        (Inl e, w1) \<Rightarrow> (Inl (case ctx_err (as_context st) (clock w1) of Some ce \<Rightarrow> ce | None \<Rightarrow> e), w1)
      | (Inr None, w1) \<Rightarrow> (Inl ErrInvalid, w1)
      | (Inr (Some None), w1) \<Rightarrow> (Inl ErrInvalid, w1)
      | (Inr (Some (Some challenge)), w1) \<Rightarrow> (Inr challenge, w1))"

definition SendResponse_agent :: "'w agent_stream \<Rightarrow> ctx \<Rightarrow> string \<Rightarrow> 'w \<Rightarrow> goerr option \<times> 'w" where
  "SendResponse_agent st c response w = as_send st (ChallengeResponseMessage response) w"

definition agentExchange :: "('w \<Rightarrow> int) \<Rightarrow> 'w agent_stream \<Rightarrow> 'w agent_exchange" where
  "agentExchange clock st =
     \<lparr>ax_send_payload = SendPayload_agent st, ax_receive_challenge = ReceiveChallenge_agent clock st,
      ax_send_response = SendResponse_agent st\<rparr>"

definition AidAttestation ::
    "uuid_lib \<Rightarrow> ('w \<Rightarrow> int) \<Rightarrow> 'w agent_plugin \<Rightarrow> 'w agent_stream \<Rightarrow> 'w \<Rightarrow> (rpc_error option \<times> 'w) option" where
  "AidAttestation ul clock p st w =
     (case ap_runtime p of
        None \<Rightarrow> Some (Some errNotConfigured, w)
      | Some rt \<Rightarrow>
          map_option (\<lambda>(e, w1). (mapRPCError e, w1))
            (Attest_agent ul clock (ar_service rt) (as_context st) (Some (agentExchange clock st)) w))"

section \<open>The server plugin (\<open>server.go\<close>)\<close>

definition decodeValidServer :: "(string \<Rightarrow> rawServer result) \<Rightarrow> config_request \<Rightarrow> (server_config \<times> string) result" where
  "decodeValidServer hcl req =
     (case rq_trust_domain req of
        None \<Rightarrow> Inl core_required
      | Some td \<Rightarrow>
         (case DecodeServer hcl (rq_hcl req) of
            Inl e \<Rightarrow> Inl e
          | Inr cfg \<Rightarrow>
             (case ValidateServer cfg td of
                Some e \<Rightarrow> Inl e
              | None \<Rightarrow> Inr (cfg, td))))"

record 'w server_plugin =
  sp_runtime :: "'w server_runtime option"
  sp_build :: "(server_config, 'w server_runtime, 'w) builder"

definition NewServerPlugin :: "'w host_system \<Rightarrow> 'w server_plugin" where
  "NewServerPlugin sys = \<lparr>sp_runtime = None, sp_build = buildServerRuntime sys\<rparr>"

definition Validate_server :: "(string \<Rightarrow> rawServer result) \<Rightarrow> config_request option \<Rightarrow> validate_response" where
  "Validate_server hcl req =
     (case req of
        None \<Rightarrow> \<lparr>vr_valid = False, vr_notes = [err_text request_required]\<rparr>
      | Some r \<Rightarrow>
         (case decodeValidServer hcl r of
            Inl e \<Rightarrow> \<lparr>vr_valid = False, vr_notes = [err_text e]\<rparr>
          | Inr _ \<Rightarrow> \<lparr>vr_valid = True, vr_notes = []\<rparr>))"

text \<open>\<open>old.closeIdle()\<close>, when there is an old runtime with a hook.\<close>

definition close_runtime :: "'w server_runtime \<Rightarrow> 'w \<Rightarrow> 'w" where
  "close_runtime rt w = (case sr_close_idle rt of None \<Rightarrow> w | Some close \<Rightarrow> close w)"

definition Configure_server ::
    "(string \<Rightarrow> rawServer result) \<Rightarrow> ctx \<Rightarrow> config_request option \<Rightarrow> 'w server_plugin \<Rightarrow> 'w \<Rightarrow>
     rpc_error option \<times> 'w server_plugin \<times> 'w" where
  "Configure_server hcl c req p w =
     (case req of
        None \<Rightarrow> (mapRPCError (Some request_required), p, w)
      | Some r \<Rightarrow>
         (case decodeValidServer hcl r of
            Inl e \<Rightarrow> (mapRPCError (Some e), p, w)
          | Inr (cfg, td) \<Rightarrow>
             (case sp_build p c cfg td w of
                (Inl e, w1) \<Rightarrow> (mapRPCError (Some e), p, w1)
              | (Inr rt, w1) \<Rightarrow>
                 (None, p\<lparr>sp_runtime := Some rt\<rparr>,
                  case sp_runtime p of None \<Rightarrow> w1 | Some old \<Rightarrow> close_runtime old w1))))"

section \<open>The server exchange (\<open>server_exchange.go\<close>)\<close>

text \<open>The oneof of a received request; a nil request is \<open>None\<close>. Messages sent by the server.\<close>

datatype attest_request = PayloadRequest string | ChallengeResponseRequest string | EmptyRequest

datatype attest_response = ChallengeMessage string | AgentAttributesMessage string bool "string list"

text \<open>
  The \<open>select\<close> of \<open>ReceiveResponse\<close> takes one of its ready cases: the result of the receiving goroutine,
  the end of the given context, or the end of the stream context. Which one, and when, is the choice of
  \<open>ss_select\<close>.
\<close>

datatype select_case = ResultReady "attest_request option result" | ContextDone | StreamDone

record 'w server_stream =
  ss_context :: ctx
  ss_send :: "attest_response \<Rightarrow> 'w \<Rightarrow> goerr option \<times> 'w"
  ss_recv :: "'w \<Rightarrow> attest_request option result \<times> 'w"
  ss_select :: "ctx \<Rightarrow> 'w \<Rightarrow> select_case \<times> 'w"

definition ReceivePayload_server :: "'w server_stream \<Rightarrow> ctx \<Rightarrow> 'w \<Rightarrow> string result \<times> 'w" where
  "ReceivePayload_server st c w =
     (case ss_recv st w of
        (Inl e, w1) \<Rightarrow> (Inl e, w1)
      | (Inr req, w1) \<Rightarrow> (case req of Some (PayloadRequest p) \<Rightarrow> Inr p | _ \<Rightarrow> Inl ErrInvalid, w1))"

definition SendChallenge_server :: "'w server_stream \<Rightarrow> ctx \<Rightarrow> string \<Rightarrow> 'w \<Rightarrow> goerr option \<times> 'w" where
  "SendChallenge_server st c challenge w = ss_send st (ChallengeMessage challenge) w"

text \<open>\<open>return nil, ctx.Err()\<close>.\<close>

definition nil_and :: "goerr option \<Rightarrow> string result" where
  "nil_and e = (case e of Some e' \<Rightarrow> Inl e' | None \<Rightarrow> Inr [])"

definition ReceiveResponse_server :: "('w \<Rightarrow> int) \<Rightarrow> 'w server_stream \<Rightarrow> ctx \<Rightarrow> 'w \<Rightarrow> string result \<times> 'w" where
  "ReceiveResponse_server clock st c w =
     (case ss_select st c w of
        (ResultReady (Inl e), w1) \<Rightarrow> (Inl e, w1)
      | (ResultReady (Inr req), w1) \<Rightarrow>
          (case req of Some (ChallengeResponseRequest r) \<Rightarrow> Inr r | _ \<Rightarrow> Inl ErrInvalid, w1)
      | (ContextDone, w1) \<Rightarrow> (nil_and (ctx_err c (clock w1)), w1)
      | (StreamDone, w1) \<Rightarrow> (nil_and (ctx_err (ss_context st) (clock w1)), w1))"

definition SendAttributes_server :: "'w server_stream \<Rightarrow> ctx \<Rightarrow> attributes \<Rightarrow> 'w \<Rightarrow> goerr option \<times> 'w" where
  "SendAttributes_server st c attrs w =
     ss_send st (AgentAttributesMessage (at_agent_id attrs) (at_can_reattest attrs) (at_selectors attrs)) w"

definition serverExchange :: "('w \<Rightarrow> int) \<Rightarrow> 'w server_stream \<Rightarrow> 'w server_exchange" where
  "serverExchange clock st =
     \<lparr>se_receive_payload = ReceivePayload_server st, se_send_challenge = SendChallenge_server st,
      se_receive_response = ReceiveResponse_server clock st, se_send_attributes = SendAttributes_server st\<rparr>"

definition Attest_plugin ::
    "uuid_lib \<Rightarrow> ('w \<Rightarrow> int) \<Rightarrow> 'w server_plugin \<Rightarrow> 'w server_stream \<Rightarrow> 'w \<Rightarrow> rpc_error option \<times> 'w" where
  "Attest_plugin ul clock p st w =
     (case sp_runtime p of
        None \<Rightarrow> (Some errNotConfigured, w)
      | Some rt \<Rightarrow>
          (let (e, w1) = Attest_server ul clock (sr_service rt) (ss_context st) (Some (serverExchange clock st)) w
           in (mapRPCError e, w1)))"

section \<open>Configuration\<close>

lemma decodeValidServer_Inr:
  "decodeValidServer hcl r = Inr (cfg, td) \<longleftrightarrow>
     rq_trust_domain r = Some td \<and> DecodeServer hcl (rq_hcl r) = Inr cfg \<and> server_config_ok cfg td"
  by (auto simp: decodeValidServer_def ValidateServer_None [symmetric] split: option.splits sum.splits)

text \<open>What a request must be for \<open>Configure\<close> to build a runtime from it.\<close>

definition usable_request :: "(string \<Rightarrow> rawServer result) \<Rightarrow> config_request option \<Rightarrow> server_config \<Rightarrow> string \<Rightarrow> bool" where
  "usable_request hcl req cfg td \<longleftrightarrow>
     (\<exists>r. req = Some r \<and> rq_trust_domain r = Some td \<and> DecodeServer hcl (rq_hcl r) = Inr cfg \<and> server_config_ok cfg td)"

lemma usable_request_decodes:
  "usable_request hcl req cfg td \<longleftrightarrow> (\<exists>r. req = Some r \<and> decodeValidServer hcl r = Inr (cfg, td))"
  by (auto simp: usable_request_def decodeValidServer_Inr)

lemma Configure_server_usable:
  "usable_request hcl req cfg td \<Longrightarrow>
   Configure_server hcl c req p w =
     (case sp_build p c cfg td w of
        (Inl e, w1) \<Rightarrow> (mapRPCError (Some e), p, w1)
      | (Inr rt, w1) \<Rightarrow>
          (None, p\<lparr>sp_runtime := Some rt\<rparr>, case sp_runtime p of None \<Rightarrow> w1 | Some old \<Rightarrow> close_runtime old w1))"
  by (auto simp: usable_request_decodes Configure_server_def)

lemma Configure_server_unusable:
  assumes "\<nexists>cfg td. usable_request hcl req cfg td"
  obtains e where "Configure_server hcl c req p w = (mapRPCError (Some e), p, w)"
    "Validate_server hcl req = \<lparr>vr_valid = False, vr_notes = [err_text e]\<rparr>"
    "req = None \<and> e = request_required \<or> (\<exists>r. req = Some r \<and> decodeValidServer hcl r = Inl e)"
proof (cases req)
  case None
  then show ?thesis by (intro that [of request_required]) (simp_all add: Configure_server_def Validate_server_def)
next
  case (Some r)
  show ?thesis
  proof (cases "decodeValidServer hcl r")
    case (Inl e)
    with Some show ?thesis by (intro that [of e]) (simp_all add: Configure_server_def Validate_server_def)
  next
    case (Inr x)
    with Some assms show ?thesis by (cases x) (simp add: usable_request_decodes)
  qed
qed

lemma decodeValidServer_class:
  assumes "decodeValidServer hcl r = Inl e" "\<And>src x. hcl src = Inl x \<Longrightarrow> \<not> context_error x"
  shows "rpc_class e = CodeInvalidArgument"
proof (cases "rq_trust_domain r")
  case None
  with assms(1) show ?thesis
    by (auto simp: decodeValidServer_def core_required_def ErrInvalid_config_def rpc_class_def context_error_def)
next
  case (Some td)
  show ?thesis
  proof (cases "DecodeServer hcl (rq_hcl r)")
    case (Inl e')
    with Some assms(1) Decode_invalid(1) [OF Inl] assms(2) show ?thesis by (simp add: decodeValidServer_def)
  next
    case (Inr cfg)
    with Some assms(1) have "ValidateServer cfg td = Some e"
      by (simp add: decodeValidServer_def split: option.splits)
    from ValidateServer_class [OF this] show ?thesis by (intro rpc_invalid) (simp add: fun_eq_iff)
  qed
qed

text \<open>What \<open>Configure\<close> does under the mutex before it publishes, as the build of the plugin machine.\<close>

definition prepare_server ::
    "(string \<Rightarrow> rawServer result) \<Rightarrow> (server_config, 'w server_runtime, 'w) builder \<Rightarrow> (nat \<Rightarrow> ctx \<times> config_request option) \<Rightarrow>
     nat \<Rightarrow> 'w \<Rightarrow> 'w server_runtime result \<times> 'w" where
  "prepare_server hcl build reqs i w =
     (case reqs i of
        (c, None) \<Rightarrow> (Inl request_required, w)
      | (c, Some r) \<Rightarrow>
         (case decodeValidServer hcl r of
            Inl e \<Rightarrow> (Inl e, w)
          | Inr (cfg, td) \<Rightarrow> build c cfg td w))"

lemma Configure_server_prepare:
  "Configure_server hcl (fst (reqs i)) (snd (reqs i)) p w =
     (case prepare_server hcl (sp_build p) reqs i w of
        (Inl e, w1) \<Rightarrow> (mapRPCError (Some e), p, w1)
      | (Inr rt, w1) \<Rightarrow>
          (None, p\<lparr>sp_runtime := Some rt\<rparr>, case sp_runtime p of None \<Rightarrow> w1 | Some old \<Rightarrow> close_runtime old w1))"
  by (auto simp: Configure_server_def prepare_server_def split: prod.split option.split sum.split)

lemma Configure_server_steps:
  assumes "pl_lock s = None" "pl_pc s i = Requested" "map_option snd (pl_runtime s) = sp_runtime p"
    "Configure_server hcl (fst (reqs i)) (snd (reqs i)) p (pl_world s) = (r, p', w')"
  shows "\<exists>t. (plugin_step (prepare_server hcl (sp_build p) reqs) close_runtime)\<^sup>*\<^sup>* s t \<and>
    pl_pc t i = Finished r \<and> pl_lock t = None \<and> map_option snd (pl_runtime t) = sp_runtime p' \<and> pl_world t = w' \<and>
    (\<forall>j. j = i \<or> pl_pc t j = pl_pc s j) \<and> pl_snapshot t = pl_snapshot s \<and>
    pl_retired t = (if r = None then retired_tags (pl_runtime s) else []) @ pl_retired s"
proof -
  let ?step = "plugin_step (prepare_server hcl (sp_build p) reqs) close_runtime"
  let ?a = "s\<lparr>pl_lock := Some i, pl_pc := (pl_pc s)(i := Locked)\<rparr>"
  have 1: "?step s ?a" by (rule plugin_step.lock [OF assms(2,1)])
  have a: "pl_pc ?a i = Locked" "pl_world ?a = pl_world s" by simp_all
  obtain x w1 where x: "prepare_server hcl (sp_build p) reqs i (pl_world ?a) = (x, w1)" by fastforce
  show ?thesis
  proof (cases x)
    case (Inl e)
    note 2 = plugin_step.fail [where build = "prepare_server hcl (sp_build p) reqs" and close = close_runtime, OF a(1) x [unfolded Inl]]
    from assms(4) x Inl have "r = mapRPCError (Some e)" "p' = p" "w' = w1"
      by (simp_all add: Configure_server_prepare)
    with 1 2 assms(3) show ?thesis
      by (intro exI conjI) (rule rtranclp.rtrancl_into_rtrancl [of ?step, OF r_into_rtranclp [of ?step, OF 1] 2], simp_all)
  next
    case (Inr rt)
    let ?b = "?a\<lparr>pl_pc := (pl_pc ?a)(i := Built (pl_builds ?a) rt), pl_builds := Suc (pl_builds ?a), pl_world := w1\<rparr>"
    have 2: "?step ?a ?b" 
      by (rule plugin_step.built [where build = "prepare_server hcl (sp_build p) reqs", OF a(1) x [unfolded Inr]])
    have b: "pl_pc ?b i = Built (pl_builds ?a) rt" by simp
    let ?c = "?b\<lparr>pl_pc := (pl_pc ?b)(i := Published (pl_runtime ?b)), pl_runtime := Some (pl_builds ?a, rt)\<rparr>"
    have 3: "?step ?b ?c" by (rule plugin_step.swap [OF b])
    have c: "pl_pc ?c i = Published (pl_runtime s)" by simp
    note 4 = plugin_step.retired [OF c, of "prepare_server hcl (sp_build p) reqs" close_runtime]
    have run: "?step\<^sup>*\<^sup>* s ?c"
      by (rule rtranclp.rtrancl_into_rtrancl [of ?step, OF rtranclp.rtrancl_into_rtrancl [of ?step, OF r_into_rtranclp [of ?step, OF 1] 2] 3])
    from assms(4) x Inr have "r = None" "p' = p\<lparr>sp_runtime := Some rt\<rparr>"
      "w' = (case sp_runtime p of None \<Rightarrow> w1 | Some old \<Rightarrow> close_runtime old w1)"
      by (simp_all add: Configure_server_prepare)
    with assms(3) show ?thesis
      by (intro exI conjI) (rule rtranclp.rtrancl_into_rtrancl [of ?step, OF run 4], auto simp: retire_def split: option.split)
  qed
qed

section \<open>A sample plugin and stream\<close>

definition sample_hcl :: "string \<Rightarrow> rawServer result" where
  "sample_hcl src =
     (if src = [] then Inl (Plain [Txt ''empty document''])
      else Inr \<lparr>rs_incus_endpoint = Some ''https://incus:8443'', rs_tls_ca_path = Some ''/ca'', rs_tls_cert_path = Some ''/cert'',
        rs_tls_key_path = Some ''/key'', rs_projects = [''default'', ''other''], rs_user_selectors = [''user.role''],
        rs_incus_timeout = None, rs_challenge_response_timeout = None, rs_cleanup_timeout = None\<rparr>)"

definition sample_request :: config_request where
  "sample_request = \<lparr>rq_trust_domain = Some ''example.org'', rq_hcl = ''plugin''\<rparr>"

definition sample_runtime :: "nat server_runtime" where
  "sample_runtime = \<lparr>sr_config = sample_server_config, sr_trust_domain = ''example.org'', sr_service = sample_service,
     sr_close_idle = Some Suc\<rparr>"

definition sample_plugin :: "nat server_plugin" where
  "sample_plugin = \<lparr>sp_runtime = None, sp_build = (\<lambda>c cfg td w. (Inr (sample_runtime\<lparr>sr_config := cfg\<rparr>), w + 10))\<rparr>"

definition sample_stream :: "string \<Rightarrow> nat server_stream" where
  "sample_stream response =
     \<lparr>ss_context = background, ss_send = (\<lambda>m w. (None, w)),
      ss_recv = (\<lambda>w. (Inr (Some (PayloadRequest sample_payload)), w)),
      ss_select = (\<lambda>c w. (ResultReady (Inr (Some (ChallengeResponseRequest response))), w))\<rparr>"

lemma sample_stream_exchange: "serverExchange int (sample_stream response) = sample_exchange response"
  by (simp add: serverExchange_def sample_stream_def sample_exchange_def ReceivePayload_server_def SendChallenge_server_def
      ReceiveResponse_server_def SendAttributes_server_def fun_eq_iff)

lemma sample_request_decodes: "decodeValidServer sample_hcl sample_request = Inr (sample_server_config, ''example.org'')"
  using sample_server_config_ok
  by (simp add: decodeValidServer_Inr ValidateServer_None sample_request_def DecodeServer_def sample_hcl_def
      parseOptionalDuration_def optionalString_def sample_server_config_def defaultIncusTimeout_def
      defaultChallengeResponseTimeout_def defaultCleanupTimeout_def Second_def Millisecond_def)

section \<open>Properties\<close>

text \<open>
  C15: reconfiguration is atomic: \<open>Configure\<close> refuses exactly the requests that are not usable or whose
  runtime cannot be built. When it fails the plugin is unchanged, and so is the world but for what the
  failed build did, so the connections of the running runtime are not closed. When it succeeds the
  published runtime is the one built from the decoded configuration, which meets every constraint, and
  the idle connections of the replaced runtime are closed after the swap.
\<close>

theorem configure_server_atomic:
  "case Configure_server hcl c req p w of
     (Some e, p', w') \<Rightarrow> p' = p \<and>
       (w' = w \<and> (\<nexists>cfg td. usable_request hcl req cfg td) \<or>
        (\<exists>cfg td x. usable_request hcl req cfg td \<and> sp_build p c cfg td w = (Inl x, w') \<and> mapRPCError (Some x) = Some e))
   | (None, p', w') \<Rightarrow> \<exists>cfg td rt w1. usable_request hcl req cfg td \<and> sp_build p c cfg td w = (Inr rt, w1) \<and>
       p' = p\<lparr>sp_runtime := Some rt\<rparr> \<and> w' = (case sp_runtime p of None \<Rightarrow> w1 | Some old \<Rightarrow> close_runtime old w1)"
proof (cases "\<exists>cfg td. usable_request hcl req cfg td")
  case True
  then obtain cfg td where u: "usable_request hcl req cfg td" by blast
  obtain b w1 where b: "sp_build p c cfg td w = (b, w1)" by fastforce
  note run = Configure_server_usable [OF u, of c p w, unfolded b prod.case]
  show ?thesis
  proof (cases b)
    case (Inl x)
    obtain e where e: "mapRPCError (Some x) = Some e" by (cases "mapRPCError (Some x)") simp_all
    with run Inl have run': "Configure_server hcl c req p w = (Some e, p, w1)" by simp
    have "usable_request hcl req cfg td \<and> sp_build p c cfg td w = (Inl x, w1) \<and> mapRPCError (Some x) = Some e"
      by (intro conjI u b [unfolded Inl] e)
    then have "\<exists>cfg td x. usable_request hcl req cfg td \<and> sp_build p c cfg td w = (Inl x, w1) \<and> mapRPCError (Some x) = Some e"
      by blast
    then show ?thesis unfolding run' prod.case option.case by (rule conjI [OF refl disjI2])
  next
    case (Inr rt)
    with run have run': "Configure_server hcl c req p w =
        (None, p\<lparr>sp_runtime := Some rt\<rparr>, case sp_runtime p of None \<Rightarrow> w1 | Some old \<Rightarrow> close_runtime old w1)" by simp
    show ?thesis unfolding run' prod.case option.case
      by (rule exI [of _ cfg], rule exI [of _ td], rule exI [of _ rt], rule exI [of _ w1]) (intro conjI u b [unfolded Inr] refl)
  qed
next
  case False
  obtain e where "Configure_server hcl c req p w = (mapRPCError (Some e), p, w)"
    by (rule Configure_server_unusable [OF False])
  with False show ?thesis by (simp add: mapRPCError_class)
qed

text \<open>
  C14: a sequential \<open>Configure\<close> call refines the concurrent machine: from any state in which the mutex is
  free, it is a run of its own lock, build, swap and retire steps, undisturbed by other calls and by the
  environment, with the same result, published runtime, retired runtime and world. What holds of the
  reachable states of the machine therefore holds between such calls.
\<close>

theorem configure_refines_machine:
  assumes "pl_lock s = None" and "pl_pc s i = Requested" and "map_option snd (pl_runtime s) = sp_runtime p"
    and "Configure_server hcl (fst (reqs i)) (snd (reqs i)) p (pl_world s) = (r, p', w')"
  shows "\<exists>t. (plugin_step (prepare_server hcl (sp_build p) reqs) close_runtime)\<^sup>*\<^sup>* s t \<and>
    pl_pc t i = Finished r \<and> pl_lock t = None \<and> map_option snd (pl_runtime t) = sp_runtime p' \<and> pl_world t = w' \<and>
    (\<forall>j. j = i \<or> pl_pc t j = pl_pc s j) \<and> pl_snapshot t = pl_snapshot s \<and>
    pl_retired t = (if r = None then retired_tags (pl_runtime s) else []) @ pl_retired s"
  using assms by (rule Configure_server_steps)

lemma configure_refines_machine_witness:
  "\<exists>t. (plugin_step (prepare_server sample_hcl (sp_build sample_plugin) (\<lambda>_. (background, Some sample_request))) close_runtime)\<^sup>*\<^sup>*
      (initial_plugin 0) t \<and> pl_pc t 3 = Finished None \<and> pl_lock t = None \<and>
      map_option snd (pl_runtime t) = Some sample_runtime \<and> pl_world t = 10 \<and>
      (\<forall>j. j = 3 \<or> pl_pc t j = pl_pc (initial_plugin (0 :: nat) :: (nat server_runtime, nat) plugin_state) j) \<and>
      pl_snapshot t = pl_snapshot (initial_plugin (0 :: nat)) \<and> pl_retired t = []"
proof -
  have run: "Configure_server sample_hcl background (Some sample_request) sample_plugin 0 =
    (None, sample_plugin\<lparr>sp_runtime := Some sample_runtime\<rparr>, 10)"
    by (simp add: Configure_server_def sample_request_decodes sample_plugin_def) (simp add: sample_runtime_def)
  show ?thesis
    using configure_refines_machine [of "initial_plugin 0 :: (nat server_runtime, nat) plugin_state" 3 sample_plugin sample_hcl
        "\<lambda>_. (background, Some sample_request)" None "sample_plugin\<lparr>sp_runtime := Some sample_runtime\<rparr>" 10] run
    by (simp add: initial_plugin_def retired_tags_def sample_plugin_def [THEN arg_cong [where f = sp_runtime]])
qed

text \<open>
  C37: \<open>Validate\<close> predicts \<open>Configure\<close> without side effects: a request is valid exactly when it has a core
  configuration and decodes to a configuration that meets every constraint. A valid one gets no note, and
  \<open>Configure\<close> goes on to build its runtime and ends as the build does; an invalid one gets one note, and
  \<open>Configure\<close> refuses it with InvalidArgument and that text, changing nothing. (HCL errors are taken not
  to be context errors.)
\<close>

theorem validate_predicts_configure:
  assumes "\<And>src x. hcl src = Inl x \<Longrightarrow> \<not> context_error x"
  shows "(vr_valid (Validate_server hcl req) \<longleftrightarrow> (\<exists>cfg td. usable_request hcl req cfg td)) \<and>
    (if vr_valid (Validate_server hcl req)
     then vr_notes (Validate_server hcl req) = [] \<and> (\<exists>cfg td. usable_request hcl req cfg td \<and>
        Configure_server hcl c req p w =
          (case sp_build p c cfg td w of
             (Inl e, w1) \<Rightarrow> (mapRPCError (Some e), p, w1)
           | (Inr rt, w1) \<Rightarrow>
               (None, p\<lparr>sp_runtime := Some rt\<rparr>, case sp_runtime p of None \<Rightarrow> w1 | Some old \<Rightarrow> close_runtime old w1)))
     else \<exists>note. vr_notes (Validate_server hcl req) = [note] \<and>
        Configure_server hcl c req p w = (Some (CodeInvalidArgument, note), p, w))"
proof (cases "\<exists>cfg td. usable_request hcl req cfg td")
  case True
  then obtain cfg td where u: "usable_request hcl req cfg td" by blast
  then have "Validate_server hcl req = \<lparr>vr_valid = True, vr_notes = []\<rparr>"
    by (auto simp: usable_request_decodes Validate_server_def)
  then have v: "vr_valid (Validate_server hcl req)" "vr_notes (Validate_server hcl req) = []" by simp_all
  have "vr_valid (Validate_server hcl req) \<longleftrightarrow> (\<exists>cfg td. usable_request hcl req cfg td)" using v(1) True by blast
  moreover have "\<exists>cfg td. usable_request hcl req cfg td \<and> Configure_server hcl c req p w =
      (case sp_build p c cfg td w of
         (Inl e, w1) \<Rightarrow> (mapRPCError (Some e), p, w1)
       | (Inr rt, w1) \<Rightarrow>
           (None, p\<lparr>sp_runtime := Some rt\<rparr>, case sp_runtime p of None \<Rightarrow> w1 | Some old \<Rightarrow> close_runtime old w1))"
    by (rule exI [of _ cfg], rule exI [of _ td], rule conjI, rule u, rule Configure_server_usable [OF u])
  ultimately show ?thesis using v by (simp only: if_True)
next
  case False
  obtain e where e: "Configure_server hcl c req p w = (mapRPCError (Some e), p, w)"
    "Validate_server hcl req = \<lparr>vr_valid = False, vr_notes = [err_text e]\<rparr>"
    "req = None \<and> e = request_required \<or> (\<exists>r. req = Some r \<and> decodeValidServer hcl r = Inl e)"
    by (rule Configure_server_unusable [OF False])
  have "rpc_class request_required = CodeInvalidArgument"
    by (rule rpc_invalid) (simp add: request_required_def ErrInvalid_config_def fun_eq_iff eq_commute)
  with e(3) have "rpc_class e = CodeInvalidArgument" using decodeValidServer_class [OF _ assms] by auto
  with e(1,2) False show ?thesis by (simp add: mapRPCError_class)
qed

lemma validate_predicts_configure_witness:
  "Configure_server sample_hcl background (Some (sample_request\<lparr>rq_hcl := []\<rparr>)) sample_plugin 0 =
     (Some (CodeInvalidArgument, [Txt ''invalid configuration'', Txt '': '', Txt ''empty document'']), sample_plugin, 0)"
proof -
  have hcl: "\<And>src x. sample_hcl src = Inl x \<Longrightarrow> \<not> context_error x"
    by (auto simp: sample_hcl_def context_error_def split: if_splits)
  have "Validate_server sample_hcl (Some (sample_request\<lparr>rq_hcl := []\<rparr>)) =
    \<lparr>vr_valid = False, vr_notes = [[Txt ''invalid configuration'', Txt '': '', Txt ''empty document'']]\<rparr>"
    by (simp add: Validate_server_def decodeValidServer_def sample_request_def DecodeServer_def sample_hcl_def
        ErrInvalid_config_def)
  with validate_predicts_configure [of sample_hcl "Some (sample_request\<lparr>rq_hcl := []\<rparr>)" background sample_plugin 0, OF hcl]
  show ?thesis by simp
qed

text \<open>
  C18: the RPC a SPIRE agent sees: when the guest answers a challenge with another nonce than the stored
  one, the Attest RPC ends with PermissionDenied, whatever the cleanup of the key does.
\<close>

theorem wrong_nonce_permission_denied:
  assumes "sp_runtime p = Some rt"
    and "attest_trace ul clock (sr_service rt) (ss_context st) (serverExchange clock st) w = (r, tr)"
    and "EvSet c1 i k stored e \<in> set tr" and "EvResponse c2 (Inr resp) \<in> set tr"
    and "DecodeResponse resp = Inr got" and "b64_encode got \<noteq> stored"
  shows "\<exists>m. fst (Attest_plugin ul clock p st w) = Some (CodePermissionDenied, m)"
proof -
  from response_decides [OF assms(2-4)] assms(5,6) obtain x where x: "r = Some x" "\<forall>s. err_is x s \<longleftrightarrow> s = AttestDenied"
    by auto
  from x(2) have "rpc_class x = CodePermissionDenied" by (intro rpc_denied) (simp add: fun_eq_iff)
  moreover have "fst (Attest_server ul clock (sr_service rt) (ss_context st) (Some (serverExchange clock st)) w) = r"
    using attest_trace_result [of ul clock "sr_service rt" "ss_context st" "serverExchange clock st" w] assms(2) by simp
  ultimately show ?thesis using assms(1) x(1)
    by (auto simp: Attest_plugin_def mapRPCError_class split: prod.split)
qed

lemma wrong_nonce_permission_denied_witness:
  "\<exists>m. fst (Attest_plugin ref_uuid int (sample_plugin\<lparr>sp_runtime := Some sample_runtime\<rparr>)
     (sample_stream (response_text other_nonce)) 0) = Some (CodePermissionDenied, m)"
proof (rule wrong_nonce_permission_denied [OF _ _ sample_wrong_run])
  show "sp_runtime (sample_plugin\<lparr>sp_runtime := Some sample_runtime\<rparr>) = Some sample_runtime" by simp
  show "attest_trace ref_uuid int (sr_service sample_runtime) (ss_context (sample_stream (response_text other_nonce)))
      (serverExchange int (sample_stream (response_text other_nonce))) 0 =
    (fst (sample_server_trace (response_text other_nonce)), snd (sample_server_trace (response_text other_nonce)))"
    by (simp add: sample_stream_exchange sample_server_trace_def) (simp add: sample_runtime_def sample_stream_def)
  show "DecodeResponse (response_text other_nonce) = Inr other_nonce"
    by (simp add: response_text_decodes other_nonce_def)
  show "b64_encode other_nonce \<noteq> b64_encode sample_nonce"
    by (simp add: other_nonce_def sample_nonce_def) code_simp
qed

end
