(* ===== verification/RandomPair.thy ===== *)
theory RandomPair
  imports Server
begin

text \<open>
  The mutex of \<open>readRandomPair\<close> (\<open>internal/server/service.go\<close>): any number of concurrent attempts share one
  random source. \<open>pair_step\<close> interleaves their reads one at a time; the mutex makes every interleaving
  equal to the calls made one after the other, which is how \<open>Server\<close> models the function.
\<close>

section \<open>Steps of the concurrent calls\<close>

text \<open>Call \<open>i\<close> waits for the mutex, holds it, has read its attempt ID, or has returned and unlocked.\<close>

datatype pair_pc =
    PairRequested | PairLocked | PairAttempt string | PairReturned "(string \<times> string) result"

record 'w pair_state =
  ps_mutex :: "nat option"
  ps_pc :: "nat \<Rightarrow> pair_pc"
  ps_source :: 'w

definition initial_pairs :: "'w \<Rightarrow> 'w pair_state" where
  "initial_pairs w = \<lparr>ps_mutex = None, ps_pc = (\<lambda>_. PairRequested), ps_source = w\<rparr>"

text \<open>What the call returns after its second read.\<close>

definition pair_of_read :: "string \<Rightarrow> string result \<Rightarrow> (string \<times> string) result" where
  "pair_of_read attemptID x =
     (case x of
        Inl e \<Rightarrow> Inl (Wrapf [Txt ''read nonce: ''] e [])
      | Inr raw \<Rightarrow>
         (case NewNonce raw of
            Inl e \<Rightarrow> Inl (Wrapf [Txt ''read nonce: ''] e [])
          | Inr nonce \<Rightarrow> Inr (attemptID, nonce)))"

inductive pair_step :: "'w server_service \<Rightarrow> 'w pair_state \<Rightarrow> 'w pair_state \<Rightarrow> bool" for sv where
  lock: "ps_pc s i = PairRequested \<Longrightarrow> ps_mutex s = None \<Longrightarrow>
     pair_step sv s (s\<lparr>ps_mutex := Some i, ps_pc := (ps_pc s)(i := PairLocked)\<rparr>)"
| attempt_failed: "ps_pc s i = PairLocked \<Longrightarrow> sv_random sv randomPairBytes (ps_source s) = (Inl e, w) \<Longrightarrow>
     pair_step sv s
       (s\<lparr>ps_mutex := None, ps_pc := (ps_pc s)(i := PairReturned (Inl (Wrapf [Txt ''read attempt id: ''] e []))),
          ps_source := w\<rparr>)"
| attempt_read: "ps_pc s i = PairLocked \<Longrightarrow> sv_random sv randomPairBytes (ps_source s) = (Inr attemptID, w) \<Longrightarrow>
     pair_step sv s (s\<lparr>ps_pc := (ps_pc s)(i := PairAttempt attemptID), ps_source := w\<rparr>)"
| nonce_read: "ps_pc s i = PairAttempt attemptID \<Longrightarrow> sv_random sv randomPairBytes (ps_source s) = (x, w) \<Longrightarrow>
     pair_step sv s
       (s\<lparr>ps_mutex := None, ps_pc := (ps_pc s)(i := PairReturned (pair_of_read attemptID x)), ps_source := w\<rparr>)"

inductive pair_reachable :: "'w server_service \<Rightarrow> 'w \<Rightarrow> 'w pair_state \<Rightarrow> bool" for sv w0 where
  start: "pair_reachable sv w0 (initial_pairs w0)"
| step: "pair_reachable sv w0 s \<Longrightarrow> pair_step sv s t \<Longrightarrow> pair_reachable sv w0 t"

section \<open>Calls one after the other\<close>

fun serial_pairs :: "'w server_service \<Rightarrow> nat list \<Rightarrow> 'w \<Rightarrow> (string \<times> string) result list \<times> 'w" where
  "serial_pairs sv [] w = ([], w)"
| "serial_pairs sv (i # order) w =
     (let (r, w1) = readRandomPair sv w; (rs, w2) = serial_pairs sv order w1 in (r # rs, w2))"

lemma serial_pairs_snoc:
  assumes "serial_pairs sv order w = (rs, w1)" "readRandomPair sv w1 = (r, w2)"
  shows "serial_pairs sv (order @ [i]) w = (rs @ [r], w2)"
  using assms by (induction order arbitrary: w rs) (auto split: prod.splits)

lemma readRandomPair_reads:
  "sv_random sv randomPairBytes w = (Inl e, w1) \<Longrightarrow> readRandomPair sv w = (Inl (Wrapf [Txt ''read attempt id: ''] e []), w1)"
  "sv_random sv randomPairBytes w = (Inr a, w1) \<Longrightarrow> sv_random sv randomPairBytes w1 = (x, w2) \<Longrightarrow>
   readRandomPair sv w = (pair_of_read a x, w2)"
  by (auto simp: readRandomPair_def pair_of_read_def split: sum.splits)

text \<open>
  The invariant: the calls that have returned, in the order in which they took the mutex, ran one after
  the other up to the source \<open>w\<close>, and the holder of the mutex has made its first read from there, or none.
\<close>

definition holder_at :: "'w server_service \<Rightarrow> 'w \<Rightarrow> 'w pair_state \<Rightarrow> bool" where
  "holder_at sv w s \<longleftrightarrow>
     (case ps_mutex s of
        None \<Rightarrow> ps_source s = w
      | Some i \<Rightarrow> ps_pc s i = PairLocked \<and> ps_source s = w \<or>
          (\<exists>a. ps_pc s i = PairAttempt a \<and> sv_random sv randomPairBytes w = (Inr a, ps_source s)))"

definition serialised :: "'w server_service \<Rightarrow> 'w \<Rightarrow> 'w pair_state \<Rightarrow> nat list \<Rightarrow> bool" where
  "serialised sv w0 s order \<longleftrightarrow>
     distinct order \<and> (\<forall>i. i \<in> set order \<longleftrightarrow> (\<exists>r. ps_pc s i = PairReturned r)) \<and>
     (\<forall>i. ps_pc s i \<in> {PairLocked} \<union> range PairAttempt \<longleftrightarrow> ps_mutex s = Some i) \<and>
     (\<exists>rs w. serial_pairs sv order w0 = (rs, w) \<and> map (ps_pc s) order = map PairReturned rs \<and> holder_at sv w s)"

lemma map_pc_other: "i \<notin> set order \<Longrightarrow> map (f(i := x)) order = map f order"
  by (induction order) auto

text \<open>Where the source of a call in its critical section stands.\<close>

lemma serialised_holder:
  assumes "serialised sv w0 s order" and "ps_pc s i \<in> {PairLocked} \<union> range PairAttempt"
  shows "ps_mutex s = Some i" and "i \<notin> set order" and "\<And>j. ps_pc s j \<in> {PairLocked} \<union> range PairAttempt \<Longrightarrow> j = i"
proof -
  show m: "ps_mutex s = Some i" using assms unfolding serialised_def by blast
  have "\<nexists>r. ps_pc s i = PairReturned r" using assms(2) by auto
  then show "i \<notin> set order" using assms(1) unfolding serialised_def by blast
  show "j = i" if "ps_pc s j \<in> {PairLocked} \<union> range PairAttempt" for j
    using assms(1) that m unfolding serialised_def by (metis option.inject)
qed

lemma holder_locked: "ps_mutex s = Some i \<Longrightarrow> ps_pc s i = PairLocked \<Longrightarrow> holder_at sv w s \<longleftrightarrow> ps_source s = w"
  by (auto simp: holder_at_def)

lemma holder_attempt:
  "ps_mutex s = Some i \<Longrightarrow> ps_pc s i = PairAttempt a \<Longrightarrow>
   holder_at sv w s \<longleftrightarrow> sv_random sv randomPairBytes w = (Inr a, ps_source s)"
  by (auto simp: holder_at_def)

lemma serialised_return:
  assumes inv: "serialised sv w0 s order" and pc: "ps_pc s i \<in> {PairLocked} \<union> range PairAttempt"
    and run: "\<And>w. holder_at sv w s \<Longrightarrow> readRandomPair sv w = (r, w2)"
  shows "serialised sv w0 (s\<lparr>ps_mutex := None, ps_pc := (ps_pc s)(i := PairReturned r), ps_source := w2\<rparr>) (order @ [i])"
proof -
  obtain rs w where s: "serial_pairs sv order w0 = (rs, w)" "map (ps_pc s) order = map PairReturned rs" "holder_at sv w s"
    using inv unfolding serialised_def by blast
  note h = serialised_holder [OF inv pc]
  from serial_pairs_snoc [OF s(1) run [OF s(3)], of i] s(2) h(2)
  have "serial_pairs sv (order @ [i]) w0 = (rs @ [r], w2)"
    "map ((ps_pc s)(i := PairReturned r)) (order @ [i]) = map PairReturned (rs @ [r])"
    by (simp_all add: map_pc_other)
  moreover have "j \<in> set (order @ [i]) \<longleftrightarrow> (\<exists>r'. ((ps_pc s)(i := PairReturned r)) j = PairReturned r')" for j
    using inv unfolding serialised_def by auto
  moreover have "((ps_pc s)(i := PairReturned r)) j \<notin> {PairLocked} \<union> range PairAttempt" for j
    using h(3) [of j] by auto
  moreover have "distinct (order @ [i])" using inv h(2) unfolding serialised_def by simp
  ultimately show ?thesis unfolding serialised_def by (simp add: holder_at_def)
qed

lemma serialised_step:
  assumes "pair_step sv s t" and inv: "serialised sv w0 s order"
  shows "\<exists>order'. serialised sv w0 t order'"
  using assms(1)
proof cases
  case (lock i)
  then have "i \<notin> set order" using inv unfolding serialised_def by auto
  with lock inv show ?thesis
    by (intro exI [of _ order]) (auto simp: serialised_def map_pc_other holder_at_def)
next
  case (attempt_failed i e w)
  then have pc: "ps_pc s i \<in> {PairLocked} \<union> range PairAttempt" by simp
  have "holder_at sv v s \<Longrightarrow> readRandomPair sv v = (Inl (Wrapf [Txt ''read attempt id: ''] e []), w)" for v
    using holder_locked [OF serialised_holder(1) [OF inv pc] attempt_failed(2)] readRandomPair_reads(1) [OF attempt_failed(3)]
    by simp
  from serialised_return [OF inv pc this] attempt_failed(1) show ?thesis by blast
next
  case (attempt_read i a w)
  then have pc: "ps_pc s i \<in> {PairLocked} \<union> range PairAttempt" by simp
  note h = serialised_holder [OF inv pc]
  obtain rs v where v: "serial_pairs sv order w0 = (rs, v)" "map (ps_pc s) order = map PairReturned rs" "holder_at sv v s"
    using inv unfolding serialised_def by blast
  then have "holder_at sv v t"
    using holder_locked [OF h(1) attempt_read(2)] attempt_read(1,3) h(1) by (simp add: holder_at_def)
  moreover have "j \<in> set order \<longleftrightarrow> (\<exists>r. ps_pc t j = PairReturned r)" for j
    using inv attempt_read(1,2) unfolding serialised_def by auto
  moreover have "ps_pc t j \<in> {PairLocked} \<union> range PairAttempt \<longleftrightarrow> ps_mutex t = Some j" for j
    using inv attempt_read(1) h(1) unfolding serialised_def by auto
  moreover have "map (ps_pc t) order = map PairReturned rs" using v(2) h(2) attempt_read(1) by (simp add: map_pc_other)
  ultimately show ?thesis using v(1) inv unfolding serialised_def by blast
next
  case (nonce_read i a x w)
  then have pc: "ps_pc s i \<in> {PairLocked} \<union> range PairAttempt" by simp
  have "holder_at sv v s \<Longrightarrow> readRandomPair sv v = (pair_of_read a x, w)" for v
    using holder_attempt [OF serialised_holder(1) [OF inv pc] nonce_read(2)] readRandomPair_reads(2) nonce_read(3) by auto
  from serialised_return [OF inv pc this] nonce_read(1) show ?thesis by blast
qed

lemma reachable_serialised: "pair_reachable sv w0 s \<Longrightarrow> \<exists>order. serialised sv w0 s order"
proof (induction rule: pair_reachable.induct)
  case start
  have "serialised sv w0 (initial_pairs w0) []" by (auto simp: serialised_def initial_pairs_def holder_at_def)
  then show ?case by (rule exI)
next
  case (step s t)
  then obtain order where "serialised sv w0 s order" by auto
  from serialised_step [OF step.hyps(2) this] show ?case .
qed

section \<open>Properties\<close>

text \<open>
  C9: concurrent attempts never mix their random bytes: whatever the interleaving of their reads, the
  pairs the attempts have returned are those of \<open>readRandomPair\<close> called once for each of them, one after
  the other, and with the mutex free the source is where those calls left it.
\<close>

theorem random_pairs_serialised:
  assumes "pair_reachable sv w0 s"
  shows "\<exists>order rs w. serial_pairs sv order w0 = (rs, w) \<and> distinct order \<and>
    {i. \<exists>r. ps_pc s i = PairReturned r} = set order \<and> map (ps_pc s) order = map PairReturned rs \<and>
    (case ps_mutex s of None \<Rightarrow> ps_source s = w | Some i \<Rightarrow> i \<notin> set order)"
proof -
  obtain order where inv: "serialised sv w0 s order" using reachable_serialised [OF assms] by blast
  then obtain rs w where r: "serial_pairs sv order w0 = (rs, w)" "map (ps_pc s) order = map PairReturned rs" "holder_at sv w s"
    unfolding serialised_def by blast
  have "case ps_mutex s of None \<Rightarrow> ps_source s = w | Some i \<Rightarrow> i \<notin> set order"
  proof (cases "ps_mutex s")
    case None
    with r(3) show ?thesis by (simp add: holder_at_def)
  next
    case (Some i)
    then have "ps_pc s i \<in> {PairLocked} \<union> range PairAttempt" using inv unfolding serialised_def by blast
    from serialised_holder(2) [OF inv this] Some show ?thesis by simp
  qed
  moreover have "{i. \<exists>r. ps_pc s i = PairReturned r} = set order" "distinct order"
    using inv unfolding serialised_def by auto
  ultimately show ?thesis using r by blast
qed

text \<open>A sample run: attempt 4 takes the mutex, makes its two reads and returns.\<close>

definition sample_pairs :: "nat pair_state" where
  "sample_pairs = \<lparr>ps_mutex = None,
     ps_pc = ((\<lambda>_. PairRequested)(4 := PairReturned (Inr (sample_attempt, sample_nonce)))), ps_source = 2\<rparr>"

lemma sample_pairs_reachable: "pair_reachable sample_service 0 sample_pairs"
proof -
  let ?a = "\<lparr>ps_mutex = Some 4, ps_pc = (\<lambda>_. PairRequested)(4 := PairLocked), ps_source = 0\<rparr> :: nat pair_state"
  let ?b = "\<lparr>ps_mutex = Some 4, ps_pc = (\<lambda>_. PairRequested)(4 := PairAttempt sample_attempt), ps_source = 1\<rparr> :: nat pair_state"
  have reads: "sv_random sample_service randomPairBytes 0 = (Inr sample_attempt, 1)"
    "sv_random sample_service randomPairBytes 1 = (Inr sample_nonce, 2)"
    by (simp_all add: sample_service_def sample_random_def)
  have "pair_step sample_service (initial_pairs 0) ?a"
    using pair_step.lock [of "initial_pairs 0" 4 sample_service] by (simp add: initial_pairs_def)
  moreover have "pair_step sample_service ?a ?b"
    using pair_step.attempt_read [of ?a 4 sample_service] reads(1) by (simp add: fun_upd_twist)
  moreover have "pair_step sample_service ?b sample_pairs"
    using pair_step.nonce_read [of ?b 4 sample_attempt sample_service] reads(2)
    by (simp add: sample_pairs_def pair_of_read_def sample_nonce_length)
  ultimately show ?thesis using pair_reachable.intros by metis
qed

lemma random_pairs_serialised_witness:
  "\<exists>order rs. serial_pairs sample_service order 0 = (rs, 2) \<and> map (ps_pc sample_pairs) order = map PairReturned rs"
  using random_pairs_serialised [OF sample_pairs_reachable] by (auto simp: sample_pairs_def)

end
