(* ===== verification/Handshake.thy ===== *)
theory Handshake
  imports Host Guest
begin

text \<open>
  The two sides of an attestation over one Incus: what the guest socket serves of the stored
  configuration, the agent split at the points where it waits for the server, and the server run
  against that agent over a host and a guest that answer every call.
\<close>

section \<open>The guest socket over the store\<close>

text \<open>
  What the guest socket serves of the keys below \<open>user.\<close>, in terms of the stored instances: the local
  configuration of the VM it belongs to, 404 for a key that is not there. The nonce keys lie there; of the
  other keys, which the socket may refuse, nothing is assumed.
\<close>

definition serves_config :: "'w store_view \<Rightarrow> string \<Rightarrow> string \<Rightarrow> 'w http_client \<Rightarrow> bool" where
  "serves_config view p n http \<longleftrightarrow>
     (\<forall>key. has_prefix key ''user.'' \<longrightarrow> hx_request http (guestHTTPBase @ configPath key) = None \<and>
        (\<forall>c w. fst (hx_do http c (guestHTTPBase @ configPath key) w) =
           Inr (case view w p n of
                  None \<Rightarrow> \<lparr>hr_status = 404, hr_data = [], hr_error = None\<rparr>
                | Some (a, _) \<Rightarrow>
                    (case copyConfig (put_config (ai_put a)) key of
                       None \<Rightarrow> \<lparr>hr_status = 404, hr_data = [], hr_error = None\<rparr>
                     | Some v \<Rightarrow> \<lparr>hr_status = 200, hr_data = v, hr_error = None\<rparr>))))"

lemma served_value:
  assumes "serves_config view p n (gc_http gc)"
    and "view w p n = Some (a, tag)" "copyConfig (put_config (ai_put a)) key = Some v" "length v \<le> maxGuestBody"
    and "has_prefix key ''user.''"
  shows "fst (ReadConfig gc c key w) = Inr (Some v)"
proof -
  have "hx_request (gc_http gc) (guestHTTPBase @ configPath key) = None"
    "fst (hx_do (gc_http gc) c (guestHTTPBase @ configPath key) w) = Inr \<lparr>hr_status = 200, hr_data = v, hr_error = None\<rparr>"
    using assms(1-3,5) unfolding serves_config_def by simp_all
  with assms(4) show ?thesis
    by (simp add: ReadConfig_result get_cases guest_body_def read_limited_def)
qed

lemma served_nothing:
  assumes "serves_config view p n (gc_http gc)"
    and "case view w p n of None \<Rightarrow> True | Some (a, _) \<Rightarrow> copyConfig (put_config (ai_put a)) key = None"
    and "has_prefix key ''user.''"
  shows "fst (ReadConfig gc c key w) = Inr None"
proof -
  have "hx_request (gc_http gc) (guestHTTPBase @ configPath key) = None"
    "fst (hx_do (gc_http gc) c (guestHTTPBase @ configPath key) w) = Inr \<lparr>hr_status = 404, hr_data = [], hr_error = None\<rparr>"
    using assms unfolding serves_config_def by (auto split: option.splits)
  then show ?thesis
    by (simp add: ReadConfig_result get_cases guest_body_def read_limited_def maxGuestBody_def)
qed

lemma nonce_key_served: "NewConfigKey k = Inr key \<Longrightarrow> has_prefix key ''user.''"
  by (auto simp: NewConfigKey_Inr has_prefix_iff configKeyPrefix_def)

section \<open>The phases of the agent\<close>

text \<open>
  \<open>Attest_agent\<close> up to its first message, and from the challenge to its second. While the agent waits for
  the challenge the server runs, and while it polls the server waits for the response.
\<close>

definition agent_start :: "uuid_lib \<Rightarrow> 'w agent_service \<Rightarrow> ctx \<Rightarrow> 'w \<Rightarrow> string result \<times> 'w" where
  "agent_start ul s c w =
     (case ge_claims (ag_evidence s) c w of
        (Inl e, w1) \<Rightarrow> (Inl (Wrapf [Txt ''read guest claims: ''] e []), w1)
      | (Inr claims, w1) \<Rightarrow>
         (case ValidateClaims ul claims of
            Some e \<Rightarrow> (Inl (Wrapf [Txt ''validate guest claims: ''] e []), w1)
          | None \<Rightarrow>
             (case EncodePayload ul claims of
                Inl e \<Rightarrow> (Inl (Wrapf [Txt ''encode payload: ''] e []), w1)
              | Inr payload \<Rightarrow> (Inr payload, w1))))"

definition response_of :: "string \<Rightarrow> string result" where
  "response_of value =
     (case ParseNonce value of
        Inl e \<Rightarrow> Inl (Wrapf [Txt ''parse nonce: ''] e [])
      | Inr nonce \<Rightarrow>
         (case EncodeResponse nonce of
            Inl e \<Rightarrow> Inl (Wrapf [Txt ''encode response: ''] e [])
          | Inr response \<Rightarrow> Inr response))"

definition agent_finish ::
    "('w \<Rightarrow> int) \<Rightarrow> 'w agent_service \<Rightarrow> ctx \<Rightarrow> string \<Rightarrow> 'w \<Rightarrow> (string result \<times> 'w) option" where
  "agent_finish clock s c challenge w =
     (case DecodeChallenge challenge of
        Inl e \<Rightarrow> Some (Inl (Wrapf [Txt ''decode challenge: ''] e []), w)
      | Inr key \<Rightarrow>
         (case pollConfig clock s c key w of
            None \<Rightarrow> None
          | Some (Inl e, w1) \<Rightarrow> Some (Inl e, w1)
          | Some (Inr value, w1) \<Rightarrow> Some (response_of value, w1)))"

lemma receive_key_phases:
  "receive_key ul s c ex w =
     (case agent_start ul s c w of
        (Inl e, w1) \<Rightarrow> (Inl e, w1)
      | (Inr payload, w1) \<Rightarrow>
         (case ax_send_payload ex c payload w1 of
            (Some e, w2) \<Rightarrow> (Inl (Wrapf [Txt ''send payload: ''] e []), w2)
          | (None, w2) \<Rightarrow>
             (case ax_receive_challenge ex c w2 of
                (Inl e, w3) \<Rightarrow> (Inl (Wrapf [Txt ''receive challenge: ''] e []), w3)
              | (Inr challenge, w3) \<Rightarrow>
                 (case DecodeChallenge challenge of
                    Inl e \<Rightarrow> (Inl (Wrapf [Txt ''decode challenge: ''] e []), w3)
                  | Inr key \<Rightarrow> (Inr key, w3)))))"
proof (cases "ge_claims (ag_evidence s) c w")
  case (Pair r w1)
  then show ?thesis
    by (cases r; cases "ValidateClaims ul (projr r)"; cases "EncodePayload ul (projr r)")
      (simp_all add: receive_key_def agent_start_def)
qed

lemma answer_challenge_phases:
  "answer_challenge ex c value w =
     (case response_of value of
        Inl e \<Rightarrow> (Some e, w)
      | Inr response \<Rightarrow>
         (case ax_send_response ex c response w of
            (Some e, w1) \<Rightarrow> (Some (Wrapf [Txt ''send response: ''] e []), w1)
          | (None, w1) \<Rightarrow> (None, w1)))"
  by (cases "ParseNonce value"; cases "EncodeResponse (projr (ParseNonce value))")
    (simp_all add: answer_challenge_def response_of_def)

text \<open>The phases joined by the messages of an exchange are the whole agent.\<close>

lemma Attest_agent_phases:
  "Attest_agent ul clock s c (Some ex) w =
     (case agent_start ul s c w of
        (Inl e, w1) \<Rightarrow> Some (Some e, w1)
      | (Inr payload, w1) \<Rightarrow>
         (case ax_send_payload ex c payload w1 of
            (Some e, w2) \<Rightarrow> Some (Some (Wrapf [Txt ''send payload: ''] e []), w2)
          | (None, w2) \<Rightarrow>
             (case ax_receive_challenge ex c w2 of
                (Inl e, w3) \<Rightarrow> Some (Some (Wrapf [Txt ''receive challenge: ''] e []), w3)
              | (Inr challenge, w3) \<Rightarrow>
                 (case agent_finish clock s c challenge w3 of
                    None \<Rightarrow> None
                  | Some (Inl e, w4) \<Rightarrow> Some (Some e, w4)
                  | Some (Inr response, w4) \<Rightarrow>
                     (case ax_send_response ex c response w4 of
                        (Some e, w5) \<Rightarrow> Some (Some (Wrapf [Txt ''send response: ''] e []), w5)
                      | (None, w5) \<Rightarrow> Some (None, w5))))))"
proof (cases "agent_start ul s c w")
  case (Pair r w1)
  show ?thesis
  proof (cases r)
    case (Inl e)
    with Pair show ?thesis by (simp add: Attest_agent_def receive_key_phases)
  next
    case r: (Inr payload)
    obtain se w2 where send: "ax_send_payload ex c payload w1 = (se, w2)" by fastforce
    obtain rc w3 where recv: "ax_receive_challenge ex c w2 = (rc, w3)" by fastforce
    consider (unsent) e where "se = Some e" | (silent) e where "se = None" "rc = Inl e"
      | (invalid) challenge e where "se = None" "rc = Inr challenge" "DecodeChallenge challenge = Inl e"
      | (key) challenge key where "se = None" "rc = Inr challenge" "DecodeChallenge challenge = Inr key"
      by (cases se; cases rc; cases "DecodeChallenge (projr rc)") auto
    then show ?thesis
    proof cases
      case key
      with Pair r send recv have k: "receive_key ul s c ex w = (Inr key, w3)" by (simp add: receive_key_phases)
      show ?thesis
      proof (cases "pollConfig clock s c key w3")
        case None
        with Pair r send recv key k show ?thesis by (simp add: Attest_agent_def agent_finish_def)
      next
        case (Some x)
        obtain p w4 where x: "x = (p, w4)" by fastforce
        show ?thesis
        proof (cases p)
          case (Inl e)
          with Pair r send recv key k Some x show ?thesis by (simp add: Attest_agent_def agent_finish_def)
        next
          case (Inr v)
          with Pair r send recv key k Some x show ?thesis
            by (cases "response_of v") (simp_all add: Attest_agent_def agent_finish_def answer_challenge_phases split: prod.split option.split)
        qed
      qed
    qed (use Pair r send recv in \<open>simp_all add: Attest_agent_def receive_key_phases agent_finish_def\<close>)
  qed
qed

section \<open>The server against the agent\<close>

text \<open>
  The world of a session: that of Incus and the guest, the random source, the challenge under way and
  the attributes the server has emitted. An agent that does not return leaves the server to its timeout.
\<close>

record 'r session =
  sn_random :: 'r
  sn_challenge :: string
  sn_attributes :: "attributes option"

definition session_port :: "'w incus_port \<Rightarrow> ('w \<times> 'r session) incus_port" where
  "session_port p =
     \<lparr>ip_lookup = (\<lambda>c pr n (w, sn). let (r, w1) = ip_lookup p c pr n w in (r, (w1, sn))),
      ip_set_nonce = (\<lambda>c i k v (w, sn). let (r, w1) = ip_set_nonce p c i k v w in (r, (w1, sn))),
      ip_unset_nonce = (\<lambda>c i k (w, sn). let (r, w1) = ip_unset_nonce p c i k w in (r, (w1, sn)))\<rparr>"

definition session_random :: "'r random_source \<Rightarrow> ('w \<times> 'r session) random_source" where
  "session_random rnd n x = (case x of (w, sn) \<Rightarrow> let (r, s1) = rnd n (sn_random sn) in (r, (w, sn\<lparr>sn_random := s1\<rparr>)))"

definition session_exchange ::
    "uuid_lib \<Rightarrow> ('w \<Rightarrow> int) \<Rightarrow> 'w agent_service \<Rightarrow> ctx \<Rightarrow> ('w \<times> 'r session) server_exchange" where
  "session_exchange ul clock ag ac =
     \<lparr>se_receive_payload = (\<lambda>c (w, sn). let (r, w1) = agent_start ul ag ac w in (r, (w1, sn))),
      se_send_challenge = (\<lambda>c m (w, sn). (None, (w, sn\<lparr>sn_challenge := m\<rparr>))),
      se_receive_response = (\<lambda>c (w, sn).
        (case agent_finish clock ag ac (sn_challenge sn) w of
           None \<Rightarrow> (Inl (Sentinel CtxDeadlineExceeded), (w, sn))
         | Some (r, w1) \<Rightarrow> (r, (w1, sn)))),
      se_send_attributes = (\<lambda>c a (w, sn). (None, (w, sn\<lparr>sn_attributes := Some a\<rparr>)))\<rparr>"

section \<open>An Incus that answers\<close>

text \<open>
  No other client writes, and every call is answered in time: a fetch returns what is stored, an update
  with the current ETag is applied and keeps the identity of the instance.
\<close>

definition same_vm :: "api_instance \<Rightarrow> api_instance \<Rightarrow> bool" where
  "same_vm a b \<longleftrightarrow> ai_name b = ai_name a \<and> ai_project b = ai_project a \<and> ai_type b = ai_type a \<and>
     configValue (ai_expanded b) volatileUUIDKey = configValue (ai_expanded a) volatileUUIDKey"

definition calm_incus :: "'w store_view \<Rightarrow> 'w incus_api \<Rightarrow> bool" where
  "calm_incus view api \<longleftrightarrow> api_contextual api \<and>
     (\<forall>c p n w a tag. view w p n = Some (a, tag) \<longrightarrow>
        (\<exists>w'. api_get_instance api c p n w = (Inr (Some a, tag), w') \<and> view w' = view w)) \<and>
     (\<forall>c p n put w a tag. view w p n = Some (a, tag) \<longrightarrow>
        (\<exists>operation w1 w' b tag'. api_update_instance api c p n put tag w = (Inr (Some operation), w1) \<and>
           operation c w1 = (None, w') \<and> same_vm a b \<and> ai_put b = put \<and>
           view w' = (view w)(p := (view w p)(n \<mapsto> (b, tag')))))"

lemma calm_get:
  assumes "calm_incus view api" "view w p n = Some (a, tag)"
  obtains w' where "api_get_instance api c p n w = (Inr (Some a, tag), w')" "view w' = view w"
  using assms unfolding calm_incus_def by blast

lemma calm_update:
  assumes "calm_incus view api" "view w (in_project i) (in_name i) = Some (a, tag)"
  obtains w' b tag' where "send_update api c i put tag w = (None, w')" "same_vm a b" "ai_put b = put"
    "view w' = (view w)(in_project i := (view w (in_project i))(in_name i \<mapsto> (b, tag')))"
proof -
  from assms obtain operation w1 w' b tag' where
    "api_update_instance api c (in_project i) (in_name i) put tag w = (Inr (Some operation), w1)"
    "operation c w1 = (None, w')" "same_vm a b" "ai_put b = put"
    "view w' = (view w)(in_project i := (view w (in_project i))(in_name i \<mapsto> (b, tag')))"
    unfolding calm_incus_def by blast
  with that show thesis by (simp add: send_update_def)
qed

lemma same_vm_matches: "same_vm a b \<Longrightarrow> matchResolvedTarget ul i (Some b) = matchResolvedTarget ul i (Some a)"
  by (simp add: matchResolvedTarget_def same_vm_def)

text \<open>The first attempt of a mutation succeeds.\<close>

lemma calm_mutate:
  assumes calm: "calm_incus view (hc_server cl)" and v: "view w (in_project i) (in_name i) = Some (a, tag)"
    and target: "matchResolvedTarget ul i (Some a) = None"
    and needed: "nonce \<noteq> None \<or> copyConfig (put_config (ai_put a)) key \<noteq> None"
  obtains w' b tag' where "mutate ul status_of cl c i key nonce w = Some (None, w')" "same_vm a b"
    "ai_put b = (ai_put a)\<lparr>put_config := Some (edit_config key nonce (copyConfig (put_config (ai_put a))))\<rparr>"
    "view w' = (view w)(in_project i := (view w (in_project i))(in_name i \<mapsto> (b, tag')))"
proof -
  let ?put = "(ai_put a)\<lparr>put_config := Some (edit_config key nonce (copyConfig (put_config (ai_put a))))\<rparr>"
  obtain w1 where get: "api_get_instance (hc_server cl) c (in_project i) (in_name i) w = (Inr (Some a, tag), w1)"
    "view w1 = view w" using calm_get [OF calm v] .
  with v have v1: "view w1 (in_project i) (in_name i) = Some (a, tag)" by simp
  obtain w' b tag' where upd: "send_update (hc_server cl) c i ?put tag w1 = (None, w')" "same_vm a b" "ai_put b = ?put"
    "view w' = (view w1)(in_project i := (view w1 (in_project i))(in_name i \<mapsto> (b, tag')))"
    using calm_update [OF calm v1] .
  have "scoped cl = Inr (hc_server cl)" using calm by (simp add: scoped_def calm_incus_def)
  with get upd(1) target needed have "mutateOnce ul status_of cl c i key nonce w = (None, w')"
    by (auto simp: mutateOnce_def Let_def)
  then have "mutate ul status_of cl c i key nonce w = Some (None, w')" by (simp add: mutate_def mutate_loop.simps)
  with that upd get(2) show thesis by simp
qed

section \<open>A session\<close>

lemma honest_poll:
  assumes socket: "serves_config view p n (gc_http gc)" and quiet: "\<And>c u w. view (snd (hx_do (gc_http gc) c u w)) = view w"
    and evidence: "ag_evidence ag = guest_port ul rf gc"
    and v: "view w p n = Some (a, tag)" "copyConfig (put_config (ai_put a)) key = Some value" "length value \<le> maxGuestBody"
    and key: "has_prefix key ''user.''"
  obtains w' where "pollConfig clock ag c key w = Some (Inr value, w')" "view w' = view w"
proof -
  let ?c = "with_timeout c (clock w) (ag_poll_timeout ag)"
  obtain w' where read: "ReadConfig gc ?c key w = (Inr (Some value), w')"
    using served_value [OF socket v key, of ?c] by (metis prod.collapse)
  then have "view w' = view w" using quiet [of ?c "guestHTTPBase @ configPath key" w]
    by (auto simp: ReadConfig_def get_def split: prod.splits sum.splits option.splits if_splits)
  moreover have "pollConfig clock ag c key w = Some (Inr value, w')"
    using read by (simp add: pollConfig_def poll_loop.simps evidence guest_port_def poll_verdict_def)
  ultimately show thesis using that by blast
qed

lemma response_of_nonce:
  assumes "length nonce = 16"
  obtains response where "response_of (b64_encode nonce) = Inr response" "DecodeResponse response = Inr nonce"
proof -
  obtain response where r: "EncodeResponse nonce = Inr response" by (rule EncodeResponse_ok [OF assms])
  have "ParseNonce (b64_encode nonce) = Inr nonce" using assms by (simp add: ParseNonce_Inr)
  with r have "response_of (b64_encode nonce) = Inr response" by (simp add: response_of_def)
  moreover have "DecodeResponse response = Inr nonce" using response.roundtrip [OF _ r] assms by (simp add: nonceSize_def)
  ultimately show thesis by (rule that)
qed

lemma session_challenged:
  assumes calm: "calm_incus view (hc_server cl)" and v: "view w (in_project i) (in_name i) = Some (a, tag)"
    and target: "matchResolvedTarget ul i (Some a) = None"
    and socket: "serves_config view (in_project i) (in_name i) (gc_http gc)"
    and quiet: "\<And>c u w. view (snd (hx_do (gc_http gc) c u w)) = view w"
    and evidence: "ag_evidence ag = guest_port ul rf gc" and client: "sv_client s = session_port (host_port ul status_of cl)"
    and sizes: "length attempt = 16" "length nonce = 16" and key: "key = NewConfigKeyFromAttemptID attempt"
  obtains w' ch b tag' where
    "challenge_guest clk s (session_exchange ul clock ag ac) c i key nonce (w, sn) = (None, (w', sn\<lparr>sn_challenge := ch\<rparr>))"
    "same_vm a b" "ai_put b = (ai_put a)\<lparr>put_config := Some ((copyConfig (put_config (ai_put a)))(key \<mapsto> b64_encode nonce))\<rparr>"
    "view w' = (view w)(in_project i := (view w (in_project i))(in_name i \<mapsto> (b, tag')))"
proof -
  let ?c = "with_timeout c (clk (w, sn)) (sv_incus_timeout s)"
  obtain w1 b tag' where set: "mutate ul status_of cl ?c i key (Some (b64_encode nonce)) w = Some (None, w1)" "same_vm a b"
    "ai_put b = (ai_put a)\<lparr>put_config := Some ((copyConfig (put_config (ai_put a)))(key \<mapsto> b64_encode nonce))\<rparr>"
    "view w1 = (view w)(in_project i := (view w (in_project i))(in_name i \<mapsto> (b, tag')))"
    using calm_mutate [OF calm v target, where nonce = "Some (b64_encode nonce)" and key = key and c = ?c and status_of = status_of]
    by (auto simp: edit_config_def)
  then have port: "ip_set_nonce (sv_client s) ?c i key (b64_encode nonce) (w, sn) = (None, (w1, sn))"
    by (simp add: client session_port_def host_port_def returning_def SetNonce_None [symmetric])
  have valid: "NewConfigKey key = Inr key" unfolding key by (rule NewConfigKey_attempt [OF sizes(1)])
  obtain ch where ch: "EncodeChallenge key = Inr ch" by (rule EncodeChallenge_ok [OF valid])
  have dec: "DecodeChallenge ch = Inr key" using challenge.roundtrip [OF _ ch] valid by simp
  have stored: "view w1 (in_project i) (in_name i) = Some (b, tag')" "copyConfig (put_config (ai_put b)) key = Some (b64_encode nonce)"
    using set(3,4) by (simp_all add: copyConfig_def)
  have short: "length (b64_encode nonce) \<le> maxGuestBody" using sizes(2) by (simp add: maxGuestBody_def length_b64_encode b64_encoded_len_def)
  obtain w' where poll: "pollConfig clock ag ac key w1 = Some (Inr (b64_encode nonce), w')" "view w' = view w1"
    using honest_poll [OF socket quiet evidence stored short nonce_key_served [OF valid]] .
  obtain response where resp: "response_of (b64_encode nonce) = Inr response" "DecodeResponse response = Inr nonce"
    using response_of_nonce [OF sizes(2)] .
  have "VerifyNonce nonce nonce = None" using sizes(2) by (simp add: VerifyNonce_None)
  with port ch dec poll(1) resp
  have "challenge_guest clk s (session_exchange ul clock ag ac) c i key nonce (w, sn) = (None, (w', sn\<lparr>sn_challenge := ch\<rparr>))"
    by (simp add: challenge_guest_def session_exchange_def agent_finish_def)
  with that set(2-4) poll(2) show thesis by simp
qed

text \<open>What a session leaves in Incus: the VM without the key, and everything else as it was.\<close>

definition only_key_removed :: "vm_instance \<Rightarrow> string \<Rightarrow> api_instance \<Rightarrow> 'w store_view \<Rightarrow> 'w \<Rightarrow> 'w \<Rightarrow> bool" where
  "only_key_removed i key a view w w' \<longleftrightarrow>
     (\<exists>b tag. same_vm a b \<and> ai_put b = (ai_put a)\<lparr>put_config := Some ((copyConfig (put_config (ai_put a)))(key := None))\<rparr> \<and>
        view w' = (view w)(in_project i := (view w (in_project i))(in_name i \<mapsto> (b, tag))))"

lemma session_armed:
  assumes calm: "calm_incus view (hc_server cl)" and v: "view w (in_project i) (in_name i) = Some (a, tag)"
    and target: "matchResolvedTarget ul i (Some a) = None"
    and socket: "serves_config view (in_project i) (in_name i) (gc_http gc)"
    and quiet: "\<And>c u w. view (snd (hx_do (gc_http gc) c u w)) = view w"
    and evidence: "ag_evidence ag = guest_port ul rf gc" and client: "sv_client s = session_port (host_port ul status_of cl)"
    and sizes: "length attempt = 16" "length nonce = 16" and key: "key = NewConfigKeyFromAttemptID attempt"
    and attrs: "BuildAttributes ul (sv_trust_domain s) i (sv_user_selectors s) = Inr attrs"
  obtains w' ch where
    "attest_armed ul clk s (session_exchange ul clock ag ac) c i key nonce (w, sn) =
       (None, (w', sn\<lparr>sn_challenge := ch, sn_attributes := Some attrs\<rparr>))"
    "only_key_removed i key a view w w'"
proof -
  obtain w1 ch b tag' where set: "challenge_guest clk s (session_exchange ul clock ag ac) c i key nonce (w, sn) = (None, (w1, sn\<lparr>sn_challenge := ch\<rparr>))"
    "same_vm a b" "ai_put b = (ai_put a)\<lparr>put_config := Some ((copyConfig (put_config (ai_put a)))(key \<mapsto> b64_encode nonce))\<rparr>"
    "view w1 = (view w)(in_project i := (view w (in_project i))(in_name i \<mapsto> (b, tag')))"
    using session_challenged [OF calm v target socket quiet evidence client sizes key] .
  let ?sn = "sn\<lparr>sn_challenge := ch\<rparr>"
  let ?c = "with_timeout (without_cancel c) (clk (w1, ?sn)) (sv_cleanup_timeout s)"
  have v1: "view w1 (in_project i) (in_name i) = Some (b, tag')" using set(4) by simp
  have t1: "matchResolvedTarget ul i (Some b) = None" using target same_vm_matches [OF set(2)] by simp
  have there: "None \<noteq> (None :: string option) \<or> copyConfig (put_config (ai_put b)) key \<noteq> None"
    using set(3) by (simp add: copyConfig_def)
  obtain w2 b2 tag2 where unset: "mutate ul status_of cl ?c i key None w1 = Some (None, w2)" "same_vm b b2"
    "ai_put b2 = (ai_put b)\<lparr>put_config := Some (edit_config key None (copyConfig (put_config (ai_put b))))\<rparr>"
    "view w2 = (view w1)(in_project i := (view w1 (in_project i))(in_name i \<mapsto> (b2, tag2)))"
    using calm_mutate [OF calm v1 t1 there] .
  then have port: "ip_unset_nonce (sv_client s) ?c i key (w1, ?sn) = (None, (w2, ?sn))"
    by (simp add: client session_port_def host_port_def returning_def UnsetNonce_None [symmetric])
  have "attest_armed ul clk s (session_exchange ul clock ag ac) c i key nonce (w, sn) =
      (None, (w2, sn\<lparr>sn_challenge := ch, sn_attributes := Some attrs\<rparr>))"
    using set(1) port attrs
    by (simp add: attest_armed_def cleanup_run_def Let_def annotateCleanup_def) (simp add: session_exchange_def)
  moreover have "only_key_removed i key a view w w2" unfolding only_key_removed_def
    using set(2-4) unset(2-4) by (intro exI [of _ b2] exI [of _ tag2]) (simp add: same_vm_def edit_config_def copyConfig_def)
  ultimately show thesis by (rule that)
qed

text \<open>The resolution finds the stored VM of hinted claims.\<close>

lemma session_resolved:
  assumes calm: "calm_incus view (hc_server cl)" and v: "view w (in_project i) (in_name i) = Some (a, tag)"
    and mapped: "mapInstance ul (in_project i) (in_name i) (Some a) (hc_standalone cl) = Inr i"
    and "MatchClaims ul claims i = None" and "cl_project claims \<in> set (sv_projects s)" "cl_project claims \<noteq> []"
    and client: "sv_client s = session_port (host_port ul status_of cl)"
  obtains w' where "resolveInstance ul clk s c claims (w, sn) = (Inr i, (w', sn))" "view w' = view w"
proof -
  let ?c = "with_timeout c (clk (w, sn)) (sv_incus_timeout s)"
  have "describes ul claims i" using assms(4) by (simp add: MatchClaims_None)
  with assms(6) have names: "cl_project claims = in_project i" "cl_name claims = in_name i" by (auto simp: describes_def)
  obtain w' where get: "api_get_instance (hc_server cl) ?c (in_project i) (in_name i) w = (Inr (Some a, tag), w')" "view w' = view w"
    using calm_get [OF calm v] .
  have "scoped cl = Inr (hc_server cl)" using calm by (simp add: scoped_def calm_incus_def)
  with get(1) mapped have "Lookup_host ul status_of cl ?c (in_project i) (in_name i) w = (Inr (Some i), w')"
    by (simp add: Lookup_host_def)
  with assms(4-6) names have "resolveInstance ul clk s c claims (w, sn) = (Inr i, (w', sn))"
    by (simp add: resolveInstance_def resolveHinted_def Let_def client session_port_def host_port_def)
  with get(2) show thesis by (rule that [rotated])
qed

lemma mapped_matches:
  "mapInstance ul (in_project i) (in_name i) (Some a) standalone = Inr i \<Longrightarrow> describes ul claims i \<Longrightarrow>
   matchResolvedTarget ul i (Some a) = None"
  by (cases i) (auto simp: mapInstance_Inr matchResolvedTarget_def describes_def)

section \<open>A sample session\<close>

text \<open>
  One VM whose configuration and version are the world. The guest socket serves the metadata of the VM and
  the keys below \<open>user.\<close>, it refuses other keys, and any update with the current version as its ETag is applied.
\<close>

type_synonym sample_vm = "instance_put \<times> nat"

definition vm_stored :: "instance_put \<Rightarrow> api_instance" where
  "vm_stored put =
     \<lparr>ai_name = ''vm-01'', ai_project = ''default'', ai_type = ''virtual-machine'', ai_location = ''none'',
      ai_expanded = Some [volatileUUIDKey \<mapsto> sample_uuid, volatileCloudInitIDKey \<mapsto> ''i-01''], ai_put = put\<rparr>"

definition version_tag :: "nat \<Rightarrow> string" where
  "version_tag n = replicate n (CHR ''v'')"

definition vm_view :: "sample_vm store_view" where
  "vm_view w p n = (if p = ''default'' \<and> n = ''vm-01'' then Some (vm_stored (fst w), version_tag (snd w)) else None)"

definition vm_api :: "sample_vm incus_api" where
  "vm_api =
     \<lparr>api_contextual = True,
      api_get_server = (\<lambda>w. (Inr (Some \<lparr>si_clustered = False, si_name = ''member-01''\<rparr>), w)),
      api_get_instance = (\<lambda>c p n w. (case vm_view w p n of
          None \<Rightarrow> Inl (status_error 404) | Some (a, tag) \<Rightarrow> Inr (Some a, tag), w)),
      api_update_instance = (\<lambda>c p n put tag w.
        (case vm_view w p n of
           None \<Rightarrow> Inl (status_error 404)
         | Some (a, current) \<Rightarrow>
             if tag \<noteq> current then Inl (status_error 412)
             else Inr (Some (\<lambda>c v. (None, (put, Suc (snd v))))), w)),
      api_http_client = (\<lambda>w. Inr None)\<rparr>"

definition vm_client :: "sample_vm host_client" where
  "vm_client = \<lparr>hc_server = vm_api, hc_wait = (\<lambda>c d w. (None, w)), hc_standalone = ''member-01''\<rparr>"

lemma vm_calm: "calm_incus vm_view (hc_server vm_client)"
  unfolding calm_incus_def
proof (intro conjI allI impI, goal_cases)
  case (3 c p n put w a tag)
  then have pn: "p = ''default''" "n = ''vm-01''" "a = vm_stored (fst w)" "tag = version_tag (snd w)"
    by (auto simp: vm_view_def split: if_splits)
  then show ?case
    by (intro exI [of _ "\<lambda>c v. (None, (put, Suc (snd v)))"] exI [of _ w] exI [of _ "(put, Suc (snd w))"]
        exI [of _ "vm_stored put"] exI [of _ "version_tag (Suc (snd w))"])
      (auto simp: vm_client_def vm_api_def vm_view_def same_vm_def vm_stored_def fun_eq_iff)
qed (auto simp: vm_client_def vm_api_def)

definition vm_info :: string where
  "vm_info = ''{\"api_version\":\"1.0\",\"location\":\"member-01\",\"instance_type\":\"virtual-machine\",\"state\":\"Started\"}''"

definition vm_metadata :: string where
  "vm_metadata = ''instance-id: i-01'' @ [CHR 0x0A] @ ''local-hostname: vm-01'' @ [CHR 0x0A]"

lemma vm_info_decodes:
  "decodeInfo vm_info = Inr \<lparr>gi_api_version = ''1.0'', gi_location = ''member-01'', gi_instance_type = ''virtual-machine'',
     gi_state = ''Started''\<rparr>"
  unfolding vm_info_def by code_simp

lemma vm_metadata_parses: "parseMetadata vm_metadata = \<lparr>gm_instance_id = ''i-01'', gm_hostname = ''vm-01''\<rparr>"
  unfolding vm_metadata_def by code_simp

definition vm_http :: "sample_vm http_client" where
  "vm_http =
     \<lparr>hx_request = (\<lambda>u. None),
      hx_do = (\<lambda>c u w.
        (Inr (if u = guestHTTPBase @ ''/1.0'' then \<lparr>hr_status = 200, hr_data = vm_info, hr_error = None\<rparr>
              else if u = guestHTTPBase @ ''/1.0/meta-data'' then \<lparr>hr_status = 200, hr_data = vm_metadata, hr_error = None\<rparr>
              else (case unescape_segment (drop (length (guestHTTPBase @ configPrefix)) u) of
                  None \<Rightarrow> \<lparr>hr_status = 404, hr_data = [], hr_error = None\<rparr>
                | Some key \<Rightarrow>
                    if \<not> has_prefix key ''user.'' then \<lparr>hr_status = 403, hr_data = [], hr_error = None\<rparr>
                    else (case copyConfig (put_config (fst w)) key of
                       None \<Rightarrow> \<lparr>hr_status = 404, hr_data = [], hr_error = None\<rparr>
                     | Some v \<Rightarrow> \<lparr>hr_status = 200, hr_data = v, hr_error = None\<rparr>))), w))\<rparr>"

definition vm_guest :: "sample_vm guest_client" where
  "vm_guest = newClient_guest (\<lambda>_. vm_http) ''default'' defaultSocketPath defaultDMIPath None"

definition vm_files :: "sample_vm file_reader" where
  "vm_files path w = (Inr (sample_uuid @ [CHR 0x0A]), w)"

lemma vm_http_serves: "serves_config vm_view ''default'' ''vm-01'' (gc_http vm_guest)"
  by (simp add: serves_config_def vm_guest_def newClient_guest_def vm_http_def configPath_def configPrefix_def
      unescape_PathEscape vm_view_def vm_stored_def)

lemma vm_claims: "Claims_guest ref_uuid vm_files vm_guest c w = (Inr sample_claims, w)"
proof -
  have http: "hx_request (gc_http vm_guest) u = None"
    "hx_do (gc_http vm_guest) c (guestHTTPBase @ ''/1.0'') w = (Inr \<lparr>hr_status = 200, hr_data = vm_info, hr_error = None\<rparr>, w)"
    "hx_do (gc_http vm_guest) c (guestHTTPBase @ ''/1.0/meta-data'') w = (Inr \<lparr>hr_status = 200, hr_data = vm_metadata, hr_error = None\<rparr>, w)" for u
    by (simp_all add: vm_guest_def newClient_guest_def vm_http_def)
  have "length vm_info \<le> maxGuestBody" "length vm_metadata \<le> maxGuestBody"
    by (simp_all add: vm_info_def vm_metadata_def maxGuestBody_def)
  then have "readInfo vm_guest c w = (decodeInfo vm_info, w)" "readMetadata vm_guest c w = (Inr (parseMetadata vm_metadata), w)"
    by (simp_all add: readInfo_def readMetadata_def get_def http read_limited_def)
  moreover have "TrimSpace (sample_uuid @ [CHR 0x0A]) = sample_uuid" unfolding sample_uuid_def by code_simp
  then have "readProductUUID ref_uuid vm_files vm_guest w = (Inr sample_uuid, w)"
    by (simp add: readProductUUID_def vm_files_def sample_uuid_canonical)
  moreover have "gc_project vm_guest = ''default''" by (simp add: vm_guest_def newClient_guest_def)
  ultimately show ?thesis
    using sample_claims_valid
    by (simp add: Claims_guest_def vm_info_decodes vm_metadata_parses sample_claims_def Let_def)
qed

definition vm_snapshot :: vm_instance where
  "vm_snapshot = sample_instance\<lparr>in_expanded_config := [volatileUUIDKey \<mapsto> sample_uuid, volatileCloudInitIDKey \<mapsto> ''i-01'']\<rparr>"

definition vm_put :: instance_put where
  "vm_put = \<lparr>put_config = Some [''limits.cpu'' \<mapsto> ''2''], put_profiles = [''default''], put_rest = []\<rparr>"

lemma vm_mapped: "mapInstance ref_uuid ''default'' ''vm-01'' (Some (vm_stored vm_put)) ''member-01'' = Inr vm_snapshot"
  using sample_uuid_canonical
  by (simp add: mapInstance_def vm_stored_def vm_put_def vm_snapshot_def sample_instance_def configValue_def volatileUUIDKey_def
      volatileCloudInitIDKey_def standaloneLocationSentinel_def copyStrings_def copyConfig_def)

lemma vm_describes: "describes ref_uuid sample_claims vm_snapshot"
  using sample_describes by (simp add: describes_def vm_snapshot_def)

definition vm_attributes :: attributes where
  "vm_attributes = \<lparr>at_agent_id = ''spiffe://example.org/spire/agent/incus/'' @ sample_uuid, at_can_reattest = True,
     at_selectors = [''location:member-01'', ''name:vm-01'', ''profile:default'', ''project:default'', ''uuid:'' @ sample_uuid]\<rparr>"

lemma vm_sort: "sort [''project:default'', ''name:vm-01'', ''location:member-01'', ''uuid:'' @ sample_uuid, ''profile:default''] =
    [''location:member-01'', ''name:vm-01'', ''profile:default'', ''project:default'', ''uuid:'' @ sample_uuid]"
  by code_simp

lemma vm_attested: "BuildAttributes ref_uuid ''example.org'' vm_snapshot [] = Inr vm_attributes"
proof -
  have "validateInstance ref_uuid vm_snapshot = Inr sample_uuid"
    using sample_validateInstance by (simp add: validateInstance_Inr vm_snapshot_def)
  moreover have "buildSelectors vm_snapshot sample_uuid [] = Inr (at_selectors vm_attributes)"
    using vm_sort
    by (simp add: buildSelectors_def vm_snapshot_def sample_instance_def Let_def maxSelectors_def maxSelectorValueBytes_def
        selectorValueLen_def sample_uuid_def vm_attributes_def)
  ultimately show ?thesis by (simp add: BuildAttributes_Inr) (simp add: vm_attributes_def)
qed

text \<open>The server and the agent of the sample session.\<close>

definition vm_service :: "(sample_vm \<times> nat session) server_service" where
  "vm_service =
     \<lparr>sv_client = session_port (host_port ref_uuid sample_status vm_client), sv_projects = [''default''], sv_user_selectors = [],
      sv_trust_domain = ''example.org'', sv_incus_timeout = 5, sv_challenge_timeout = 5, sv_cleanup_timeout = 5,
      sv_random = session_random sample_random\<rparr>"

definition vm_agent :: "sample_vm agent_service" where
  "vm_agent = \<lparr>ag_evidence = guest_port ref_uuid vm_files vm_guest, ag_poll_timeout = 10 * Second, ag_wait = (\<lambda>c d w. (None, w))\<rparr>"

end
