(* ===== verification/Spec2Isabelle.thy ===== *)
theory Spec2Isabelle
  imports Spire RandomPair Handshake
begin

text \<open>
  SPIRE node attestation for Incus virtual machines: a verification library of the Go program under
  \<open>src/internal\<close>.

  The program. Two NodeAttestor plugins share the logical name \<open>incus\<close>. The agent plugin runs in a VM: it
  reads the identity of the VM from the Incus guest socket and the DMI tables, sends it as a payload,
  receives the name of a configuration key, polls that key through the socket until a nonce shows up and
  sends the nonce back. The server plugin looks the VM up in an allowlist of Incus projects, requires an
  exact match of every claim, writes a single-use random nonce under a fresh \<open>user.\<close> key of the VM's
  configuration, challenges the guest with the name of the key, compares the response, removes the key
  and emits the agent ID and the selectors, which come from the API record and not from the claims.

  The theories, in the order of the calls (each names the files it models; \<open>PROJECT.json\<close> gives the
  lines of every definition):

  \<^item> \<open>Prelude\<close>, \<open>GoErrors\<close>: byte strings, results, sorted lists; Go error values as trees with
    \<open>errors.Is\<close> and \<open>errors.As\<close>, the repository's own error types included. An error text is a list of
    fragments, so that what a message can reveal is a statement about it.
  \<^item> \<open>Encodings\<close>, \<open>UuidLib\<close>, \<open>Utf8\<close>, \<open>GoStrings\<close>, \<open>GoDuration\<close>, \<open>GoContext\<close>: the standard library as far as
    the program uses it: hexadecimal and strict base64, UTF-8, \<open>TrimSpace\<close>, \<open>Cut\<close> and \<open>PathEscape\<close>,
    \<open>time.ParseDuration\<close> with its overflow checks, contexts with deadlines on a timeline, waiting, and the
    capped backoff as the locale \<open>backoff\<close>. \<open>UuidLib\<close> states the laws of the third-party UUID library.
  \<^item> \<open>JsonText\<close>, \<open>Json\<close>, \<open>JsonDecoder\<close>, \<open>JsonMembers\<close>: \<open>encoding/json\<close>: the grammar as the inductive relation
    \<open>spells\<close>, the scanner proved sound and complete for it, the token stream, strict structs, and \<open>Marshal\<close>;
    what a decoded struct holds in terms of the members of its object.
  \<^item> \<open>Attest\<close> (\<open>internal/attest\<close>): claims and snapshots, their validation and comparison, challenge keys,
    nonces, agent IDs and selectors.
  \<^item> \<open>WireDecode\<close>, \<open>WireCodecs\<close> (\<open>internal/wire\<close>): the duplicate-name walk, the strict decoder, the three
    message codecs. The locale \<open>wire_codec\<close> is the contract of a codec, interpreted on each of the three.
  \<^item> \<open>Config\<close> (\<open>internal/config\<close>): decoding, defaults and validation of the two plugin configurations.
  \<^item> \<open>Traces\<close>, \<open>Retry\<close>: recording the calls a component makes on its ports, and the locale \<open>retry_loop\<close>,
    which proves once that a loop with backoff returns, how many steps it makes and when it ends.
  \<^item> \<open>Server\<close> (\<open>internal/server\<close>): \<open>Attest\<close> over its ports, which are functions of an arbitrary world:
    resolution, the random pair, the armed cleanup with its deferred run, error annotation. The locale
    \<open>incus_lookup\<close> is what the service needs of the Incus port.
  \<^item> \<open>RandomPair\<close>: the machine of concurrent calls of \<open>readRandomPair\<close> under its mutex.
  \<^item> \<open>Host\<close> (\<open>internal/incus/host\<close>): the adapter behind that port: instance mapping, lookups, and the
    optimistic mutation loop, fetch, check, edit, update by ETag, verify, retry. \<open>host\<close> interprets
    \<open>incus_lookup\<close> on it, \<open>host_retry\<close> and \<open>mutation\<close> interpret \<open>backoff\<close> and \<open>retry_loop\<close>.
  \<^item> \<open>Agent\<close> (\<open>internal/agent\<close>): the guest-side service and its poll loop; the locale \<open>valid_evidence\<close> is
    what it needs of the evidence port.
  \<^item> \<open>Guest\<close> (\<open>internal/incus/guest\<close>): the adapter behind that port: the HTTP client, bounded bodies, the
    metadata of \<open>/1.0\<close>, the DMI file; \<open>guest\<close> interprets \<open>valid_evidence\<close> on it.
  \<^item> \<open>Runtime\<close> (\<open>internal/spire/runtime.go\<close>): the published runtimes, credentials, the mapping of errors to
    gRPC codes, and the machine \<open>plugin_step\<close> of concurrent \<open>Configure\<close> and \<open>Attest\<close> calls; its reachable
    states allow for an environment that changes the world between any two steps.
  \<^item> \<open>Spire\<close> (the rest of \<open>internal/spire\<close>): the plugins and the stream adapters.
  \<^item> \<open>Handshake\<close>: both sides over one Incus: the agent split at its messages, the server run against it
    through the two adapters, and a sample session.
  \<^item> This theory: properties that span the components.

  How the code is translated. A struct is a record, an error value a \<open>goerr\<close>, a fallible call
  \<open>goerr + 'a\<close>, written \<open>'a result\<close>. A call with effects is a function of a world \<open>'w\<close> to its result and the
  next world; the world is arbitrary, so that a theorem holds whatever Incus, the guest or the stream do.
  \<open>log_service\<close>, \<open>log_client\<close> and \<open>log_agent\<close> wrap the ports of a component so that the world also holds the
  list of the calls made; the properties of a run are statements about that list, and the log is proved
  to change nothing else. Unbounded loops, \<open>poll_loop\<close> and \<open>mutate_loop\<close>, are \<open>partial_function\<close>s whose
  value \<open>None\<close> is a loop that does not end; \<open>agent_returns\<close> and \<open>mutation_terminates\<close> prove that they end,
  and \<open>poll_run\<close> and \<open>attempts\<close> are the step relations of their runs. Loops bounded by their input have
  fuel: \<open>parse_value\<close> recurses on the length of the text, which \<open>Json\<close> proves enough for every text
  nested at most 10000 deep, the limit of \<open>encoding/json\<close>; the duplicate-name walk has
  \<open>2 * length raw + 2\<close>, which \<open>walk_complete\<close> proves enough; \<open>duration_sum\<close> has the length of the text,
  and \<open>duration_sum_fuel\<close> shows that more changes nothing.

  What the lemmas show. \<open>Attest\<close>, \<open>Config\<close> and \<open>WireCodecs\<close> characterise each decision exactly (accepted
  if and only if the documented conditions hold, the class of every refusal) and prove the round trips of
  the messages. \<open>Server\<close> proves what every run guarantees: attributes only after the guest returned the
  stored nonce and the key was removed, removal attempted after every write, under a context that
  neither the cancellation nor the deadline of the call can end and that ends the cleanup timeout after
  the removal began, lookups in the allowlist only. \<open>Host\<close>
  proves that over a store that updates by ETag every applied update is the edit of one key of the checked
  VM, so a concurrent change is never lost, and what a mutation that reports success has established.
  \<open>Agent\<close> proves the protocol of the guest, that it ends, and when its poll does. \<open>Runtime\<close> proves the invariants of
  publication: one call in the critical section, every published runtime built from a validated
  request, each replaced runtime closed once and never while it is published; \<open>Spire\<close> proves that the plugin's
  \<open>Configure\<close> is a sequence of its own steps of that machine, and that \<open>Validate\<close> accepts what it can build from. \<open>RandomPair\<close> proves that concurrent
  attempts read the random source as if one after the other. Here the two sides meet: the nonce written
  by the host adapter is what the guest adapter reads, and an honest VM is attested end to end.

  Parameters, for code outside the repository: \<open>uuid_lib\<close> (\<open>google/uuid\<close>), \<open>hcl\<close> (\<open>hclsimple.Decode\<close>),
  \<open>incus_api\<close> and \<open>status_match\<close> (the Incus client), \<open>http_client\<close> and \<open>file_reader\<close> (\<open>net/http\<close> and files in the
  guest), the gRPC streams of \<open>Spire\<close>, the random source. The hypotheses on them are documented behaviour:
  \<open>uuid_laws\<close>, \<open>etag_store\<close> (an update with an ETag applies only to the version it names), \<open>serves_config\<close>
  (the guest socket serves the \<open>user.\<close> keys of its VM, whatever it does with others), \<open>calm_incus\<close> (every call is
  answered and no other client writes, for the end-to-end session), \<open>waiter\<close> and the clock laws of the
  termination theorems, \<open>calls_end\<close> among them (a call ends at most a latency after its context); each has
  an instance in a witness.

  Not modelled. The generated test doubles under \<open>mocks\<close>; the \<open>main\<close> functions, which hand a plugin to
  the SDK; the byte offsets in the texts of JSON syntax errors; the scheduler's choice between a ready response and a done context in
  the stream adapter, which is the parameter \<open>ss_select\<close>. A build inside \<open>Configure\<close> is one step of
  \<open>plugin_step\<close>: it runs under the mutex, and the other calls only load the published runtime.

  Plan. Left for later: several attestations and host edits as one machine over one store; unhinted
  sessions end to end; the order of the results of the two goroutines of the stream adapter.
\<close>

section \<open>A sample host and guest over one store\<close>

definition store_http :: "sample_store http_client" where
  "store_http =
     \<lparr>hx_request = (\<lambda>u. None),
      hx_do = (\<lambda>c u w. (Inr (case unescape_segment (drop (length (guestHTTPBase @ configPrefix)) u) of
          None \<Rightarrow> \<lparr>hr_status = 404, hr_data = [], hr_error = None\<rparr>
        | Some key \<Rightarrow>
            if \<not> has_prefix key ''user.'' then \<lparr>hr_status = 403, hr_data = [], hr_error = None\<rparr>
            else (case copyConfig (put_config (sample_put (fst w))) key of
               None \<Rightarrow> \<lparr>hr_status = 404, hr_data = [], hr_error = None\<rparr>
             | Some v \<Rightarrow> \<lparr>hr_status = 200, hr_data = v, hr_error = None\<rparr>)), w))\<rparr>"

lemma store_http_serves: "serves_config store_view ''default'' ''vm-01'' store_http"
  by (simp add: serves_config_def store_http_def configPath_def unescape_PathEscape store_view_def sample_stored_def)

section \<open>Properties\<close>

text \<open>
  An honest guest is accepted: for every attempt ID and nonce the server draws, the challenge it
  sends decodes to the key of the attempt, the agent answers the stored value with a response that
  decodes to the nonce, and the server verifies it.
\<close>

lemma honest_guest_accepted:
  assumes "length attemptID = 16" and "length nonce = 16"
  shows "\<exists>challenge response.
    EncodeChallenge (NewConfigKeyFromAttemptID attemptID) = Inr challenge \<and>
    DecodeChallenge challenge = Inr (NewConfigKeyFromAttemptID attemptID) \<and>
    (\<forall>w. fst (answer_challenge ex c (b64_encode nonce) w) =
       map_option (\<lambda>e. Wrapf [Txt ''send response: ''] e []) (fst (ax_send_response ex c response w))) \<and>
    DecodeResponse response = Inr nonce \<and> VerifyNonce nonce nonce = None"
proof -
  have key: "NewConfigKey (NewConfigKeyFromAttemptID attemptID) = Inr (NewConfigKeyFromAttemptID attemptID)"
    by (rule NewConfigKey_attempt [OF assms(1)])
  obtain challenge where ch: "EncodeChallenge (NewConfigKeyFromAttemptID attemptID) = Inr challenge"
    by (rule EncodeChallenge_ok [OF key])
  obtain response where resp: "EncodeResponse nonce = Inr response" by (rule EncodeResponse_ok [OF assms(2)])
  have "ParseNonce (b64_encode nonce) = Inr nonce" using assms(2) by (simp add: ParseNonce_Inr)
  with resp have "fst (answer_challenge ex c (b64_encode nonce) w) =
      map_option (\<lambda>e. Wrapf [Txt ''send response: ''] e []) (fst (ax_send_response ex c response w))" for w
    by (simp add: answer_challenge_def split: prod.split option.split)
  moreover have "DecodeChallenge challenge = Inr (NewConfigKeyFromAttemptID attemptID)"
    using challenge.roundtrip [OF _ ch] key by simp
  moreover have "DecodeResponse response = Inr nonce" using response.roundtrip [OF _ resp] assms(2) by (simp add: nonceSize_def)
  moreover have "VerifyNonce nonce nonce = None" using assms(2) by (simp add: VerifyNonce_None)
  ultimately show ?thesis using ch by blast
qed

lemma honest_guest_accepted_witness:
  "\<exists>challenge response.
    EncodeChallenge (NewConfigKeyFromAttemptID ''attempt-00000001'') = Inr challenge \<and>
    DecodeChallenge challenge = Inr (NewConfigKeyFromAttemptID ''attempt-00000001'') \<and>
    (\<forall>w. fst (answer_challenge sample_agent_exchange background (b64_encode sample_nonce) w) =
       map_option (\<lambda>e. Wrapf [Txt ''send response: ''] e []) (fst (ax_send_response sample_agent_exchange background response w))) \<and>
    DecodeResponse response = Inr sample_nonce \<and> VerifyNonce sample_nonce sample_nonce = None"
  by (rule honest_guest_accepted) (simp_all add: sample_nonce_length)

text \<open>
  C17: the nonce reaches the guest of the resolved VM and no key outlives its removal: over an Incus that
  updates by ETag and a guest socket that serves the \<open>user.\<close> keys of the VM, after a successful \<open>SetNonce\<close>
  of a nonce key a read of it yields the nonce, and after a successful \<open>UnsetNonce\<close> the key is not visible, unless
  the name now belongs to another VM.
\<close>

theorem nonce_visible_to_guest:
  assumes "etag_store status_of view (hc_server cl)"
    and "serves_config view (in_project i) (in_name i) (gc_http gc)"
    and "length nonce \<le> 65536" and "NewConfigKey k = Inr key"
  shows "(case SetNonce ul status_of cl c1 i key nonce w of
      Some (None, w') \<Rightarrow> fst (ReadConfig gc c2 key w') = Inr (Some nonce)
    | _ \<Rightarrow> True) \<and>
    (case UnsetNonce ul status_of cl c1 i key w of
      Some (None, w') \<Rightarrow> fst (ReadConfig gc c2 key w') = Inr None \<or>
        (\<exists>a tag. view w' (in_project i) (in_name i) = Some (a, tag) \<and> matchResolvedTarget ul i (Some a) \<noteq> None)
    | _ \<Rightarrow> True)"
proof (rule conjI)
  have "fst (ReadConfig gc c2 key w') = Inr (Some nonce)" if set: "SetNonce ul status_of cl c1 i key nonce w = Some (None, w')" for w'
  proof -
    from set obtain v where "mutateOnce ul status_of cl c1 i key (Some nonce) v = (None, w')"
      by (auto simp: SetNonce_None elim: mutate_success)
    from mutateOnce_success [OF assms(1) this] obtain u where "edited i key (Some nonce) (view u) (view w')" by auto
    then obtain b tag where "view w' (in_project i) (in_name i) = Some (b, tag)"
      "copyConfig (put_config (ai_put b)) key = Some nonce"
      unfolding edited_def by (auto simp: edit_config_def copyConfig_def)
    from served_value [OF assms(2) this _ nonce_key_served [OF assms(4)]] assms(3) show ?thesis by (simp add: maxGuestBody_def)
  qed
  then show "case SetNonce ul status_of cl c1 i key nonce w of
      Some (None, w') \<Rightarrow> fst (ReadConfig gc c2 key w') = Inr (Some nonce) | _ \<Rightarrow> True"
    by (auto split: option.split)
next
  have "fst (ReadConfig gc c2 key w') = Inr None \<or>
      (\<exists>a tag. view w' (in_project i) (in_name i) = Some (a, tag) \<and> matchResolvedTarget ul i (Some a) \<noteq> None)"
    if unset: "UnsetNonce ul status_of cl c1 i key w = Some (None, w')" for w'
    using unset_leaves_no_key [OF assms(1) unset] served_nothing [OF assms(2) _ nonce_key_served [OF assms(4)], where w = w' and c = c2]
    by (auto split: option.splits)
  then show "case UnsetNonce ul status_of cl c1 i key w of
      Some (None, w') \<Rightarrow> fst (ReadConfig gc c2 key w') = Inr None \<or>
        (\<exists>a tag. view w' (in_project i) (in_name i) = Some (a, tag) \<and> matchResolvedTarget ul i (Some a) \<noteq> None)
    | _ \<Rightarrow> True"
    by (auto split: option.split)
qed

definition store_guest :: "sample_store guest_client" where
  "store_guest = newClient_guest (\<lambda>_. store_http) ''default'' defaultSocketPath defaultDMIPath None"

lemma nonce_visible_to_guest_witness:
  "fst (ReadConfig store_guest background sample_key (Some ''abc'', 7)) = Inr (Some ''abc'')"
proof -
  have socket: "serves_config store_view (in_project sample_instance) (in_name sample_instance) (gc_http store_guest)"
    using store_http_serves by (simp add: store_guest_def newClient_guest_def sample_instance_def)
  have short: "length ''abc'' \<le> 65536" by simp
  have key: "NewConfigKey sample_key = Inr sample_key" unfolding sample_key_def by (rule NewConfigKey_attempt) simp
  have "SetNonce ref_uuid sample_status sample_client background sample_instance sample_key ''abc'' (None, 7) =
      Some (None, (Some ''abc'', 7))"
    by (simp add: SetNonce_None sample_mutate)
  with nonce_visible_to_guest [OF sample_etag_store socket short key, where ul = ref_uuid and ?c1.0 = background
      and w = "(None, 7)" and ?c2.0 = background]
  show ?thesis by simp
qed

text \<open>
  C3: an honest VM is attested end to end: over an Incus that answers every call and a guest socket that
  serves the \<open>user.\<close> keys of the VM, when the claims the guest reads describe the stored VM in an
  allowed project, the server, through the host adapter, and the agent, through the guest adapter,
  complete the handshake: the server returns no error and emits exactly the attributes built from the
  API snapshot, and what it leaves in Incus is the VM without the nonce key and everything else as it was.
\<close>

theorem honest_vm_attested:
  assumes "uuid_laws ul" and calm: "calm_incus view (hc_server cl)"
    and socket: "serves_config view (in_project i) (in_name i) (gc_http gc)"
    and quiet: "\<forall>c u w. view (snd (hx_do (gc_http gc) c u w)) = view w"
    and stored: "view w (in_project i) (in_name i) = Some (a, tag)"
    and mapped: "mapInstance ul (in_project i) (in_name i) (Some a) (hc_standalone cl) = Inr i"
    and claims: "Claims_guest ul rf gc ac w = (Inr claims, w1)" "view w1 = view w"
      "EncodePayload ul claims = Inr payload" "carried ul claims = claims"
    and match: "MatchClaims ul claims i = None" "cl_project claims \<in> set (sv_projects s)" "cl_project claims \<noteq> []"
    and agent: "ag_evidence ag = guest_port ul rf gc"
    and client: "sv_client s = session_port (host_port ul status_of cl)"
    and random: "sv_random s = session_random rnd" "rnd 16 r0 = (Inr attempt, r1)" "rnd 16 r1 = (Inr nonce, r2)"
      "length attempt = 16" "length nonce = 16"
    and attrs: "BuildAttributes ul (sv_trust_domain s) i (sv_user_selectors s) = Inr attrs"
  shows "\<exists>w' challenge.
    Attest_server ul clk s c (Some (session_exchange ul clock ag ac)) (w, \<lparr>sn_random = r0, sn_challenge = [], sn_attributes = None\<rparr>) =
      (None, (w', \<lparr>sn_random = r2, sn_challenge = challenge, sn_attributes = Some attrs\<rparr>)) \<and>
    only_key_removed i (NewConfigKeyFromAttemptID attempt) a view w w'"
proof -
  let ?sn = "\<lparr>sn_random = r0, sn_challenge = [], sn_attributes = None\<rparr>" and ?ex = "session_exchange ul clock ag ac"
  have valid: "ValidateClaims ul claims = None" using Claims_guest_valid [OF claims(1)] by simp
  with claims(1,3) agent have sent: "se_receive_payload ?ex c (w, ?sn) = (Inr payload, (w1, ?sn))"
    by (simp add: session_exchange_def agent_start_def guest_port_def)
  have decoded: "DecodePayload ul payload = Inr claims" using payload.roundtrip [OF assms(1) claims(3)] claims(4) by simp
  have stored1: "view w1 (in_project i) (in_name i) = Some (a, tag)" using stored claims(2) by simp
  obtain w2 where res: "resolveInstance ul clk s c claims (w1, ?sn) = (Inr i, (w2, ?sn))" "view w2 = view w1"
    using session_resolved [OF calm stored1 mapped match client] .
  then have stored2: "view w2 (in_project i) (in_name i) = Some (a, tag)" using stored1 by simp
  let ?sn2 = "?sn\<lparr>sn_random := r2\<rparr>"
  have pair: "readRandomPair s (w2, ?sn) = (Inr (attempt, nonce), (w2, ?sn2))"
    using random by (simp add: readRandomPair_def session_random_def randomPairBytes_def NewNonce_def nonceSize_def)
  have target: "matchResolvedTarget ul i (Some a) = None"
    using mapped_matches [OF mapped] match(1) by (simp add: MatchClaims_None)
  obtain w3 ch where fin: "attest_armed ul clk s ?ex c i (NewConfigKeyFromAttemptID attempt) nonce (w2, ?sn2) =
      (None, (w3, ?sn2\<lparr>sn_challenge := ch, sn_attributes := Some attrs\<rparr>))"
    "only_key_removed i (NewConfigKeyFromAttemptID attempt) a view w2 w3"
    using session_armed [OF calm stored2 target socket quiet [rule_format] agent client random(4,5) refl attrs] .
  have "only_key_removed i (NewConfigKeyFromAttemptID attempt) a view w w3"
    using fin(2) res(2) claims(2) by (simp add: only_key_removed_def)
  moreover have "Attest_server ul clk s c (Some ?ex) (w, ?sn) =
      (None, (w3, ?sn2\<lparr>sn_challenge := ch, sn_attributes := Some attrs\<rparr>))"
    using sent decoded valid res(1) pair fin(1) by (simp add: Attest_server_def)
  ultimately show ?thesis by simp
qed

lemma honest_vm_attested_witness:
  "\<exists>w' challenge.
    Attest_server ref_uuid (\<lambda>_. 0) vm_service background (Some (session_exchange ref_uuid (\<lambda>_. 0) vm_agent background))
        ((vm_put, 0), \<lparr>sn_random = 0, sn_challenge = [], sn_attributes = None\<rparr>) =
      (None, (w', \<lparr>sn_random = 2, sn_challenge = challenge, sn_attributes = Some vm_attributes\<rparr>)) \<and>
    only_key_removed vm_snapshot (NewConfigKeyFromAttemptID sample_attempt) (vm_stored vm_put) vm_view (vm_put, 0) w'"
proof -
  have f: "in_project vm_snapshot = ''default''" "in_name vm_snapshot = ''vm-01''"
    by (simp_all add: vm_snapshot_def sample_instance_def)
  have socket: "serves_config vm_view (in_project vm_snapshot) (in_name vm_snapshot) (gc_http vm_guest)"
    by (simp add: f vm_http_serves)
  have quiet: "\<forall>c u w. vm_view (snd (hx_do (gc_http vm_guest) c u w)) = vm_view w"
    by (simp add: vm_guest_def newClient_guest_def vm_http_def)
  have random: "sample_random 16 0 = (Inr sample_attempt, 1)" "sample_random 16 1 = (Inr sample_nonce, 2)"
    by (simp_all add: sample_random_def)
  have stored: "vm_view (vm_put, 0) (in_project vm_snapshot) (in_name vm_snapshot) = Some (vm_stored vm_put, version_tag 0)"
    by (simp add: f vm_view_def)
  have mapped: "mapInstance ref_uuid (in_project vm_snapshot) (in_name vm_snapshot) (Some (vm_stored vm_put)) (hc_standalone vm_client) =
      Inr vm_snapshot"
    by (simp add: f vm_mapped vm_client_def)
  have match: "MatchClaims ref_uuid sample_claims vm_snapshot = None" "cl_project sample_claims \<in> set (sv_projects vm_service)"
    "cl_project sample_claims \<noteq> []"
    by (simp_all add: MatchClaims_None vm_describes sample_fields vm_service_def)
  have parts: "ag_evidence vm_agent = guest_port ref_uuid vm_files vm_guest"
    "sv_client vm_service = session_port (host_port ref_uuid sample_status vm_client)"
    "sv_random vm_service = session_random sample_random"
    "BuildAttributes ref_uuid (sv_trust_domain vm_service) vm_snapshot (sv_user_selectors vm_service) = Inr vm_attributes"
    by (simp_all add: vm_agent_def vm_service_def vm_attested)
  have sizes: "length sample_attempt = 16" "length sample_nonce = 16"
    by (simp_all add: sample_attempt_def sample_nonce_length)
  show ?thesis
    by (rule honest_vm_attested [where w = "(vm_put, 0)" and view = vm_view, OF ref_uuid_laws vm_calm socket quiet stored mapped vm_claims refl
          sample_payload_encoded sample_claims_carried match parts(1-3) random sizes parts(4)])
qed

end
